(* ===== verification/Prelude.thy ===== *)
theory Prelude
  imports
    "HOL-Library.Finite_Map"
    "HOL-Library.List_Lexorder"
    "HOL-Library.Product_Lexorder"
    "HOL-Library.Char_ord"
    "HOL-Library.Word"
begin

text \<open>
  Shared vocabulary of the development: byte strings and the fixed-width integer codecs of the
  \<open>bytes\<close> crate, errors as values, Rust's ordered maps (\<open>BTreeMap\<close>) as finite maps with
  ordered iteration, and the topic-partition key.  The lemmas here are generic facts about these
  types; the components import them through the simplifier and the collections declared below.
\<close>

named_theorems codec_simps \<open>round trips and lengths of the byte codecs\<close>
named_theorems op_intros \<open>what sequences and loops of operations keep of the state\<close>
named_theorems entries_simps \<open>iteration of ordered maps\<close>

section \<open>Machine integers and bytes\<close>

type_synonym byte = "8 word"
type_synonym bytes = "byte list"

text \<open>
  Signed machine integers are modelled by \<^typ>\<open>int\<close>; \<open>wrap_signed n x\<close> is the two's complement
  value of \<open>x\<close> at \<open>n\<close> bits, the result of an \<open>n\<close>-bit Rust addition that overflows.
\<close>

definition wrap_signed :: "nat \<Rightarrow> int \<Rightarrow> int" where
  "wrap_signed n x = (x + 2 ^ (n - 1)) mod 2 ^ n - 2 ^ (n - 1)"

definition fits_signed :: "nat \<Rightarrow> int \<Rightarrow> bool" where
  "fits_signed n x \<longleftrightarrow> - (2 ^ (n - 1)) \<le> x \<and> x < 2 ^ (n - 1)"

lemma wrap_signed_id [simp]:
  assumes "fits_signed n x" and "0 < n"
  shows "wrap_signed n x = x"
proof -
  have pow: "(2::int) ^ n = 2 * 2 ^ (n - 1)"
    using assms(2) by (cases n) auto
  have "0 \<le> x + 2 ^ (n - 1)" "x + 2 ^ (n - 1) < 2 ^ n"
    using assms(1) unfolding fits_signed_def pow by auto
  then show ?thesis by (simp add: wrap_signed_def)
qed

lemma wrap_signed_fits [simp]:
  assumes "0 < n"
  shows "fits_signed n (wrap_signed n x)"
proof -
  have pow: "(2::int) ^ n = 2 * 2 ^ (n - 1)"
    using assms by (cases n) auto
  have "0 \<le> (x + 2 ^ (n - 1)) mod 2 ^ n" "(x + 2 ^ (n - 1)) mod 2 ^ n < 2 ^ n"
    by simp_all
  then show ?thesis unfolding wrap_signed_def fits_signed_def pow by linarith
qed

lemma wrap_signed_mod [simp]: "wrap_signed n (x mod 2 ^ n) = wrap_signed n x"
  by (simp add: wrap_signed_def mod_simps)

text \<open>
  Little-endian and big-endian byte strings of an integer: \<open>to_le n x\<close> is what
  \<open>put_u32_le\<close> and \<open>to_le_bytes\<close> write for \<open>n\<close> bytes, \<open>to_be n x\<close> what \<open>put_i64\<close> and its
  kin write; only the low \<open>8 * n\<close> bits of \<open>x\<close> are kept, as a Rust cast does.
\<close>

primrec to_le :: "nat \<Rightarrow> int \<Rightarrow> bytes" where
  "to_le 0 x = []"
| "to_le (Suc n) x = word_of_int x # to_le n (x div 256)"

primrec from_le :: "bytes \<Rightarrow> int" where
  "from_le [] = 0"
| "from_le (b # bs) = uint b + 256 * from_le bs"

definition to_be :: "nat \<Rightarrow> int \<Rightarrow> bytes" where
  "to_be n x = rev (to_le n x)"

definition from_be :: "bytes \<Rightarrow> int" where
  "from_be bs = from_le (rev bs)"

lemma length_to_le [simp, codec_simps]: "length (to_le n x) = n"
  by (induction n arbitrary: x) auto

lemma length_to_be [simp, codec_simps]: "length (to_be n x) = n"
  by (simp add: to_be_def)

lemma from_le_to_le: "from_le (to_le n x) = x mod 256 ^ n"
proof (induction n arbitrary: x)
  case 0
  then show ?case by simp
next
  case (Suc n)
  have "uint (word_of_int x :: byte) = x mod 256"
    by (simp add: uint_word_of_int)
  moreover have "x mod 256 + 256 * (x div 256 mod 256 ^ n) = x mod (256 * 256 ^ n)"
    by (rule zmod_zmult2_eq [symmetric, simplified add.commute]) simp
  ultimately show ?case using Suc.IH by simp
qed

lemma from_be_to_be: "from_be (to_be n x) = x mod 256 ^ n"
  by (simp add: from_be_def to_be_def from_le_to_le)

lemma pow_256: "(256 :: int) ^ n = 2 ^ (8 * n)"
  by (simp add: power_mult)

text \<open>Signed reads: \<open>get_i64_le\<close>, \<open>try_get_i32\<close> and their kin, at \<open>n\<close> bytes.\<close>

definition get_signed_le :: "nat \<Rightarrow> bytes \<Rightarrow> int" where
  "get_signed_le n bs = wrap_signed (8 * n) (from_le (take n bs))"

definition get_signed_be :: "nat \<Rightarrow> bytes \<Rightarrow> int" where
  "get_signed_be n bs = wrap_signed (8 * n) (from_be (take n bs))"

definition get_unsigned_be :: "nat \<Rightarrow> bytes \<Rightarrow> int" where
  "get_unsigned_be n bs = from_be (take n bs)"

lemma get_signed_le_to_le [simp, codec_simps]:
  "fits_signed (8 * n) x \<Longrightarrow> 0 < n \<Longrightarrow> get_signed_le n (to_le n x @ rest) = x"
  by (simp add: get_signed_le_def from_le_to_le pow_256)

lemma get_signed_be_to_be [simp, codec_simps]:
  "fits_signed (8 * n) x \<Longrightarrow> 0 < n \<Longrightarrow> get_signed_be n (to_be n x @ rest) = x"
  by (simp add: get_signed_be_def from_be_to_be pow_256)

lemma get_unsigned_be_to_be [simp, codec_simps]:
  "0 \<le> x \<Longrightarrow> x < 2 ^ (8 * n) \<Longrightarrow> get_unsigned_be n (to_be n x @ rest) = x"
  by (simp add: get_unsigned_be_def from_be_to_be pow_256)


section \<open>Errors as values\<close>

text \<open>
  \<open>error_code\<close> holds the Kafka error codes the modelled code returns
  (\<open>ErrorCode\<close> of \<open>tansu-sans-io\<close>); \<open>error\<close> the variants of \<open>tansu_storage::Error\<close> it raises.
  A \<open>Message\<close> keeps the literal text of the source's format string, without what it interpolates.
\<close>

datatype error_code =
    UnknownServerError
  | NoError
  | OffsetOutOfRange
  | UnknownTopicOrPartition
  | UnsupportedVersion
  | TopicAlreadyExists
  | OutOfOrderSequenceNumber
  | DuplicateSequenceNumber
  | InvalidTxnState
  | KafkaStorageError
  | UnknownProducerId
  | GroupIdNotFound
  | ProducerFenced
  | TransactionalIdNotFound
  | InvalidRequest
  | InconsistentGroupProtocol
  | UnknownMemberId
  | IllegalGeneration
  | RebalanceInProgress
  | MemberIdRequired
  | NotCoordinator

datatype sans_error = TryGet | SansOverflow | TryFromInt | UnknownCompressionType int | InvalidOpType int
  | UnexpectedEof | Custom string | UnknownAssignor string

datatype error =
  Api error_code | Message string | SansIo sans_error | SerdeJson | Schema | SystemTimeError | Panic

text \<open>An operation on a state: Rust's \<open>Result\<close>, together with the state it leaves behind.\<close>

type_synonym ('s, 'a) op = "'s \<Rightarrow> (error + 'a) \<times> 's"

definition ok :: "'a \<Rightarrow> ('s, 'a) op" where
  "ok x s = (Inr x, s)"

definition throw :: "error \<Rightarrow> ('s, 'a) op" where
  "throw e s = (Inl e, s)"

text \<open>\<open>and_then f g\<close> is \<open>f?\<close> followed by \<open>g\<close>: an error of \<open>f\<close> returns early and keeps the state
  \<open>f\<close> left.\<close>

definition and_then :: "('s, 'a) op \<Rightarrow> ('a \<Rightarrow> ('s, 'b) op) \<Rightarrow> ('s, 'b) op" where
  "and_then f g s = (case f s of (Inl e, s') \<Rightarrow> (Inl e, s') | (Inr x, s') \<Rightarrow> g x s')"

definition modify :: "('s \<Rightarrow> 's) \<Rightarrow> ('s, unit) op" where
  "modify f s = (Inr (), f s)"

definition gets :: "('s \<Rightarrow> 'a) \<Rightarrow> ('s, 'a) op" where
  "gets f s = (Inr (f s), s)"

lemma and_then_simps [simp]:
  "f s = (Inl e, s') \<Longrightarrow> and_then f g s = (Inl e, s')"
  "f s = (Inr x, s') \<Longrightarrow> and_then f g s = g x s'"
  by (simp_all add: and_then_def)

lemma op_simps [simp]:
  "ok x s = (Inr x, s)"
  "throw e s = (Inl e, s)"
  "modify h s = (Inr (), h s)"
  "gets k s = (Inr (k s), s)"
  by (simp_all add: ok_def throw_def modify_def gets_def)

lemma and_then_Inr:
  "and_then f g s = (Inr y, s'') \<longleftrightarrow> (\<exists>x s'. f s = (Inr x, s') \<and> g x s' = (Inr y, s''))"
  by (auto simp: and_then_def split: prod.splits sum.splits)

text \<open>A \<open>for\<close> loop whose body may return early: it runs the body over the list in order.\<close>

fun for_each :: "('a \<Rightarrow> ('s, unit) op) \<Rightarrow> 'a list \<Rightarrow> ('s, unit) op" where
  "for_each f [] s = (Inr (), s)"
| "for_each f (x # xs) s =
     (case f x s of (Inl e, s') \<Rightarrow> (Inl e, s') | (Inr _, s') \<Rightarrow> for_each f xs s')"

text \<open>
  What an operation leaves alone (\<open>keeps v f\<close>: the view \<open>v\<close> of the state is the same before and after,
  on success and on error) and what it maintains (\<open>preserves P f\<close>).
\<close>

definition keeps :: "('s \<Rightarrow> 'b) \<Rightarrow> ('s, 'a) op \<Rightarrow> bool" where
  "keeps v f \<longleftrightarrow> (\<forall>s. v (snd (f s)) = v s)"

definition preserves :: "('s \<Rightarrow> bool) \<Rightarrow> ('s, 'a) op \<Rightarrow> bool" where
  "preserves P f \<longleftrightarrow> (\<forall>s. P s \<longrightarrow> P (snd (f s)))"

lemma keepsD: "keeps v f \<Longrightarrow> f s = (r, s') \<Longrightarrow> v s' = v s"
  by (metis keeps_def snd_conv)

lemma keepsI: "(\<And>s r s'. f s = (r, s') \<Longrightarrow> v s' = v s) \<Longrightarrow> keeps v f"
  by (metis keeps_def prod.collapse)

lemma keeps_modify: "(\<And>s. v (f s) = v s) \<Longrightarrow> keeps v (modify f)"
  by (simp add: keeps_def)

lemma keeps_after: "keeps v f \<Longrightarrow> v s' = v s \<Longrightarrow> v (snd (f s')) = v s"
  by (simp add: keeps_def)

lemma preservesD: "preserves P f \<Longrightarrow> f s = (r, s') \<Longrightarrow> P s \<Longrightarrow> P s'"
  by (metis preserves_def snd_conv)

lemma keeps_and_then [op_intros]:
  "keeps v f \<Longrightarrow> (\<And>x. keeps v (g x)) \<Longrightarrow> keeps v (and_then f g)"
  by (auto simp: keeps_def and_then_def split: prod.splits sum.splits) (metis snd_conv)+

lemma preserves_and_then [op_intros]:
  "preserves P f \<Longrightarrow> (\<And>x. preserves P (g x)) \<Longrightarrow> preserves P (and_then f g)"
  by (auto simp: preserves_def and_then_def split: prod.splits sum.splits)

lemma keeps_for_each [op_intros]: "(\<And>x. keeps v (f x)) \<Longrightarrow> keeps v (for_each f xs)"
proof (induction xs)
  case (Cons x xs)
  have "for_each f (x # xs) = and_then (f x) (\<lambda>_. for_each f xs)"
    by (auto simp: and_then_def split: prod.splits sum.splits)
  with Cons show ?case by (auto intro: keeps_and_then)
qed (simp add: keeps_def)

lemma preserves_for_each [op_intros]: "(\<And>x. preserves P (f x)) \<Longrightarrow> preserves P (for_each f xs)"
proof (induction xs)
  case (Cons x xs)
  have "for_each f (x # xs) = and_then (f x) (\<lambda>_. for_each f xs)"
    by (auto simp: and_then_def split: prod.splits sum.splits)
  with Cons show ?case by (auto intro: preserves_and_then)
qed (simp add: preserves_def)

lemma keeps_ok [op_intros]: "keeps v (ok x)" "keeps v (throw err)" "keeps v (gets h)"
  by (simp_all add: keeps_def)

lemma preserves_ok [op_intros]: "preserves P (ok x)" "preserves P (throw err)" "preserves P (gets h)"
  by (simp_all add: preserves_def)

text \<open>
  Total correctness triples: from a state with \<open>P\<close> the operation succeeds with a value and a state
  related by \<open>Q\<close>, or fails in a state with \<open>E\<close>.
\<close>

definition triple :: "('s \<Rightarrow> bool) \<Rightarrow> ('s, 'a) op \<Rightarrow> ('a \<Rightarrow> 's \<Rightarrow> bool) \<Rightarrow> ('s \<Rightarrow> bool) \<Rightarrow> bool" where
  "triple P f Q E \<longleftrightarrow> (\<forall>s. P s \<longrightarrow> (case f s of (Inl _, s') \<Rightarrow> E s' | (Inr v, s') \<Rightarrow> Q v s'))"

lemma tripleI:
  assumes "\<And>s v s'. P s \<Longrightarrow> f s = (Inr v, s') \<Longrightarrow> Q v s'" and "\<And>s err s'. P s \<Longrightarrow> f s = (Inl err, s') \<Longrightarrow> E s'"
  shows "triple P f Q E"
  using assms unfolding triple_def by (auto split: prod.split sum.split)

lemma tripleD: "triple P f Q E \<Longrightarrow> f s = (Inr v, s') \<Longrightarrow> P s \<Longrightarrow> Q v s'"
  unfolding triple_def by force

lemma tripleE: "triple P f Q E \<Longrightarrow> f s = (Inl err, s') \<Longrightarrow> P s \<Longrightarrow> E s'"
  unfolding triple_def by force

lemma triple_and_then:
  assumes "triple P f Q E" and "\<And>x. triple (Q x) (g x) R E"
  shows "triple P (and_then f g) R E"
proof (rule tripleI)
  fix s v s' assume "P s" "and_then f g s = (Inr v, s')"
  then show "R v s'"
    using assms by (auto simp: and_then_def split: prod.splits sum.splits dest: tripleD)
next
  fix s err s' assume "P s" "and_then f g s = (Inl err, s')"
  then show "E s'"
    using assms by (auto simp: and_then_def split: prod.splits sum.splits dest: tripleD tripleE)
qed

lemma triple_weaken:
  assumes "triple P f Q E" and "\<And>s. P' s \<Longrightarrow> P s" and "\<And>v s. Q v s \<Longrightarrow> Q' v s" and "\<And>s. E s \<Longrightarrow> E' s"
  shows "triple P' f Q' E'"
  by (rule tripleI) (use assms tripleD [OF assms(1)] tripleE [OF assms(1)] in blast)+

text \<open>What an operation maintains when it succeeds.\<close>

abbreviation upholds :: "('s \<Rightarrow> bool) \<Rightarrow> ('s, 'a) op \<Rightarrow> bool" where
  "upholds P f \<equiv> triple P f (\<lambda>_. P) (\<lambda>_. True)"

lemma triple_ok [op_intros]: "triple P (ok x) (\<lambda>_. P) E" "triple P (gets h) (\<lambda>_. P) E"
  by (simp_all add: triple_def)

lemma triple_and_then_same [op_intros]:
  "triple P f (\<lambda>_. P) E \<Longrightarrow> (\<And>x. triple P (g x) (\<lambda>_. P) E) \<Longrightarrow> triple P (and_then f g) (\<lambda>_. P) E"
  by (rule triple_and_then)

lemma for_each_Cons: "for_each f (x # xs) = and_then (f x) (\<lambda>_. for_each f xs)"
  by (auto simp: and_then_def split: prod.splits sum.splits)

lemma triple_for_each [op_intros]:
  "(\<And>x. triple P (f x) (\<lambda>_. P) E) \<Longrightarrow> triple P (for_each f xs) (\<lambda>_. P) E"
proof (induction xs)
  case (Cons x xs)
  then show ?case unfolding for_each_Cons by (intro triple_and_then_same) auto
qed (simp add: triple_def)

lemma triple_modify: "(\<And>s. P s \<Longrightarrow> Q (f s)) \<Longrightarrow> triple P (modify f) (\<lambda>_. Q) E"
  by (simp add: triple_def)

lemma upholdsD: "f s = (Inr v, s') \<Longrightarrow> P s \<Longrightarrow> upholds P f \<Longrightarrow> P s'"
  by (erule tripleD)

lemma and_then_ok_Inr: "and_then f (\<lambda>x. ok (h x)) e = (Inr v, e') \<Longrightarrow> \<exists>x. f e = (Inr x, e') \<and> v = h x"
  by (auto simp: and_then_def split: prod.splits sum.splits)

section \<open>Ordered maps\<close>

text \<open>
  A \<open>BTreeMap\<close> (and a \<open>HashMap\<close>) is a finite map; \<open>entries\<close> lists it in key order, as
  iterating a \<open>BTreeMap\<close> does.
\<close>

abbreviation entries :: "('k::linorder, 'v) fmap \<Rightarrow> ('k \<times> 'v) list" where
  "entries \<equiv> sorted_list_of_fmap"

declare fmfilter_cong [cong del]

lemma map_fst_entries [entries_simps]: "map fst (entries m) = sorted_list_of_fset (fmdom m)"
  by (simp add: sorted_list_of_fmap_def comp_def)

lemma set_entries [entries_simps]: "set (entries m) = {(k, v). fmlookup m k = Some v}"
proof -
  have "distinct (map fst (entries m))"
    by (simp add: map_fst_entries sorted_list_of_fset.rep_eq)
  then show ?thesis
    using map_of_sorted_list [of m] by (auto simp: map_of_eq_Some_iff [symmetric])
qed

lemma in_entries [simp]: "(k, v) \<in> set (entries m) \<longleftrightarrow> fmlookup m k = Some v"
  by (simp add: set_entries)

lemma fst_set_entries [simp]: "fst ` set (entries m) = fmdom' m"
  by (auto simp: set_entries fmlookup_dom'_iff image_iff)

lemma sorted_entries [simp]: "sorted (map fst (entries m))"
  by (simp add: map_fst_entries sorted_list_of_fset.rep_eq)

lemma distinct_entries [simp]: "distinct (map fst (entries m))"
  by (simp add: map_fst_entries sorted_list_of_fset.rep_eq)

lemma map_of_inject:
  assumes "map fst xs = map fst ys" "distinct (map fst xs)" "map_of xs = map_of ys"
  shows "xs = ys"
  using assms
proof (induction xs arbitrary: ys)
  case Nil
  then show ?case by simp
next
  case (Cons x xs)
  then obtain y ys' where ys: "ys = y # ys'" "fst x = fst y" "map fst xs = map fst ys'"
    by (cases ys) auto
  have "snd x = snd y"
    using Cons.prems(3) ys(1,2) by (metis map_of_Cons_code(2) option.inject prod.collapse)
  moreover have "map_of xs = map_of ys'"
  proof
    fix k
    show "map_of xs k = map_of ys' k"
    proof (cases "k = fst x")
      case True
      then have "map_of xs k = None" "map_of ys' k = None"
        using Cons.prems(2) ys by (auto simp: map_of_eq_None_iff simp flip: set_map)
      then show ?thesis by simp
    next
      case False
      then show ?thesis
        using Cons.prems(3) ys(1,2) by (metis map_of_Cons_code(2) prod.collapse)
    qed
  qed
  ultimately show ?case
    using Cons.IH [of ys'] Cons.prems(2) ys by (auto intro: prod_eqI)
qed

lemma entries_unique:
  assumes "sorted (map fst xs)" "distinct (map fst xs)"
    and "\<And>k v. (k, v) \<in> set xs \<longleftrightarrow> fmlookup m k = Some v"
  shows "entries m = xs"
proof (rule map_of_inject)
  have set_eq: "set (entries m) = set xs"
    using assms(3) by auto
  then have "set (map fst (entries m)) = set (map fst xs)"
    by simp
  with assms show "map fst (entries m) = map fst xs"
    by (intro sorted_distinct_set_unique) auto
  show "distinct (map fst (entries m))" by simp
  show "map_of (entries m) = map_of xs"
    using set_eq assms(2) by (metis distinct_entries map_of_eqI map_of_inject_set)
qed


lemma entries_empty [simp]: "entries fmempty = []"
  by (rule entries_unique) auto

lemma entries_eq_Nil [simp]: "entries m = [] \<longleftrightarrow> m = fmempty"
proof
  assume "entries m = []"
  then have "\<And>k. fmlookup m k = None"
    by (metis in_entries empty_iff list.set(1) not_Some_eq)
  then show "m = fmempty" by (intro fmap_ext) simp
qed simp

lemma entries_fmmap [entries_simps]: "entries (fmmap f m) = map (apsnd f) (entries m)"
proof (rule entries_unique)
  fix k v
  show "((k, v) \<in> set (map (apsnd f) (entries m))) = (fmlookup (fmmap f m) k = Some v)"
    by (force simp: set_entries)
qed (simp_all add: comp_def)

lemma entries_fmfilter [entries_simps]:
  "entries (fmfilter P m) = filter (\<lambda>(k, _). P k) (entries m)"
proof (rule entries_unique)
  show "sorted (map fst (filter (\<lambda>(k, _). P k) (entries m)))"
    by (rule sorted_filter) simp
  show "distinct (map fst (filter (\<lambda>(k, _). P k) (entries m)))"
    by (rule distinct_map_filter) simp
qed auto

lemma entries_snoc [entries_simps]:
  assumes "\<And>k'. k' \<in> fmdom' m \<Longrightarrow> k' < k"
  shows "entries (fmupd k v m) = entries m @ [(k, v)]"
proof (rule entries_unique)
  have less: "\<And>k'. k' \<in> set (map fst (entries m)) \<Longrightarrow> k' < k"
    using assms by (auto simp: fmlookup_dom'_iff)
  show "sorted (map fst (entries m @ [(k, v)]))"
    using less by (auto simp: sorted_append intro: less_imp_le)
  show "distinct (map fst (entries m @ [(k, v)]))"
    using less by (auto simp: image_iff)
  fix k' v'
  show "((k', v') \<in> set (entries m @ [(k, v)])) = (fmlookup (fmupd k v m) k' = Some v')"
    using assms [of k'] by (auto simp: fmlookup_dom'_iff)
qed

lemma fmap_of_list_entries [simp]: "fmap_of_list (entries m) = m"
  by (rule fmap_ext) (simp add: fmlookup_of_list)

text \<open>\<open>last_key_value\<close> and \<open>last_entry\<close> of a \<open>BTreeMap\<close>.\<close>

definition last_entry :: "('k::linorder, 'v) fmap \<Rightarrow> ('k \<times> 'v) option" where
  "last_entry m = (case rev (entries m) of [] \<Rightarrow> None | e # _ \<Rightarrow> Some e)"

lemma last_entry_None [simp]: "last_entry m = None \<longleftrightarrow> m = fmempty"
  by (auto simp: last_entry_def split: list.splits)

lemma last_entry_append: "last_entry m = Some e \<Longrightarrow> \<exists>es. entries m = es @ [e]"
  by (cases "entries m" rule: rev_cases) (auto simp: last_entry_def)

lemma last_entry_Some:
  "last_entry m = Some (k, v) \<longleftrightarrow> fmlookup m k = Some v \<and> (\<forall>k' \<in> fmdom' m. k' \<le> k)"
  (is "?l \<longleftrightarrow> ?r")
proof
  assume ?l
  then obtain es where es: "entries m = es @ [(k, v)]"
    using last_entry_append by blast
  have "fmlookup m k = Some v"
    using es by (metis in_entries in_set_conv_decomp)
  moreover have "k' \<le> k" if "k' \<in> fmdom' m" for k'
  proof -
    from that obtain v' where "(k', v') \<in> set (entries m)"
      by (auto simp: fmlookup_dom'_iff)
    then show ?thesis
      using sorted_entries [of m] unfolding es by (auto simp: sorted_append)
  qed
  ultimately show ?r by blast
next
  assume r: ?r
  then have "m \<noteq> fmempty" by auto
  then obtain e where e: "last_entry m = Some e" by (cases "last_entry m") auto
  obtain k0 v0 where e0: "e = (k0, v0)" by (cases e)
  then obtain es where es: "entries m = es @ [(k0, v0)]"
    using e last_entry_append by blast
  have in0: "fmlookup m k0 = Some v0"
    using es by (metis in_entries in_set_conv_decomp)
  have "(k, v) \<in> set (entries m)" using r by simp
  then have "k \<le> k0"
    using sorted_entries [of m] unfolding es by (auto simp: sorted_append)
  moreover have "k0 \<le> k" using r in0 by (auto intro: fmdom'I)
  ultimately show ?l using e e0 in0 r by auto
qed

lemma last_entry_upd_max [simp]:
  assumes "\<And>k'. k' \<in> fmdom' m \<Longrightarrow> k' \<le> k"
  shows "last_entry (fmupd k v m) = Some (k, v)"
  using assms by (auto simp: last_entry_Some)

lemma last_entry_fmempty [simp]: "last_entry fmempty = None"
  by simp

lemma last_entry_fmupd_last [simp]:
  "last_entry m = Some (k, v) \<Longrightarrow> last_entry (fmupd k w m) = Some (k, w)"
  by (auto simp: last_entry_Some)

text \<open>The first entry that satisfies a predicate, as a \<open>for\<close> loop with a \<open>break\<close> finds it.\<close>

lemma find_first_entry:
  assumes "find P (entries m) = Some (k, v)" and "fmlookup m k' = Some v'" and "P (k', v')"
  shows "k \<le> k'"
proof -
  obtain i where i: "i < length (entries m)" "entries m ! i = (k, v)"
    and before: "\<And>j. j < i \<Longrightarrow> \<not> P (entries m ! j)"
    using assms(1) by (metis find_Some_iff)
  obtain j where j: "j < length (entries m)" "entries m ! j = (k', v')"
    using assms(2) by (metis in_entries in_set_conv_nth)
  have "i \<le> j"
    using before [of j] j assms(3) by (cases "i \<le> j") auto
  then have "map fst (entries m) ! i \<le> map fst (entries m) ! j"
    using j(1) by (intro sorted_nth_mono) auto
  then show ?thesis using i j by simp
qed

lemma find_entries_Some:
  "find P (entries m) = Some (k, v) \<longleftrightarrow>
     fmlookup m k = Some v \<and> P (k, v) \<and> (\<forall>k' v'. fmlookup m k' = Some v' \<and> P (k', v') \<longrightarrow> k \<le> k')"
  (is "?l \<longleftrightarrow> ?r")
proof
  assume ?l
  then have "P (k, v) \<and> (k, v) \<in> set (entries m)"
    by (metis find_Some_iff nth_mem)
  then show ?r using \<open>?l\<close> find_first_entry by (auto simp del: in_entries simp: in_entries)
next
  assume r: ?r
  then have "find P (entries m) \<noteq> None"
    by (auto simp: find_None_iff)
  then obtain k2 v2 where f: "find P (entries m) = Some (k2, v2)"
    by auto
  then have "P (k2, v2) \<and> (k2, v2) \<in> set (entries m)"
    by (metis find_Some_iff nth_mem)
  then have "k = k2"
    using r f find_first_entry [OF f] by (auto intro: antisym)
  then show ?l using f r \<open>P (k2, v2) \<and> _\<close> by auto
qed

text \<open>\<open>filter_map\<close> and \<open>collect\<close>.\<close>

lemma set_map_filter_iff: "x \<in> set (List.map_filter f xs) \<longleftrightarrow> (\<exists>y \<in> set xs. f y = Some x)"
  by (force simp: List.map_filter_def)

lemma map_key_map_filter:
  assumes "\<And>x y. f x = Some y \<Longrightarrow> g y = h x"
  shows "map g (List.map_filter f xs) = map h (filter (\<lambda>x. f x \<noteq> None) xs)"
  using assms by (induction xs) (auto simp: List.map_filter_simps split: option.splits)

lemma fmlookup_fold_fmupd:
  "distinct (map fst xs) \<Longrightarrow>
   fmlookup (fold (\<lambda>(k, v). fmupd k v) xs m) k =
     (case map_of xs k of None \<Rightarrow> fmlookup m k | Some v \<Rightarrow> Some v)"
proof (induction xs arbitrary: m)
  case Nil
  then show ?case by simp
next
  case (Cons x xs)
  then have "map_of xs (fst x) = None"
    by (simp add: map_of_eq_None_iff)
  with Cons show ?case by (cases x) (auto split: option.splits)
qed

lemma fold_fmupd_entries [simp]: "fold (\<lambda>(k, v). fmupd k v) (entries m) fmempty = m"
  by (rule fmap_ext) (simp add: fmlookup_fold_fmupd split: option.splits)

lemma fold_subtract:
  fixes f :: "'a \<Rightarrow> nat"
  assumes "sum_list (map f (filter P xs)) \<le> n"
  shows "fold (\<lambda>x n. if P x then n - f x else n) xs n = n - sum_list (map f (filter P xs))"
  using assms by (induction xs arbitrary: n) auto

lemma fmlookup_fold_fmupd_filter:
  "fmlookup (fold (\<lambda>(k, v). fmupd k v) (filter P (entries m)) m') k =
     (case fmlookup m k of Some v \<Rightarrow> if P (k, v) then Some v else fmlookup m' k | None \<Rightarrow> fmlookup m' k)"
proof -
  have d: "distinct (map fst (filter P (entries m)))"
    by (simp add: distinct_map_filter)
  have iff: "map_of (filter P (entries m)) k = Some v \<longleftrightarrow> fmlookup m k = Some v \<and> P (k, v)" for v
    using map_of_eq_Some_iff [OF d] by simp
  have "map_of (filter P (entries m)) k =
      (case fmlookup m k of Some v \<Rightarrow> if P (k, v) then Some v else None | None \<Rightarrow> None)"
  proof (cases "map_of (filter P (entries m)) k")
    case None
    then show ?thesis using iff by (auto split: option.splits)
  next
    case (Some v)
    then show ?thesis using iff [of v] by simp
  qed
  then show ?thesis
    by (simp add: fmlookup_fold_fmupd [OF d] split: option.splits)
qed

text \<open>\<open>get_mut\<close>: update the value of a key that is present.\<close>

definition adjust :: "'k \<Rightarrow> ('v \<Rightarrow> 'v) \<Rightarrow> ('k, 'v) fmap \<Rightarrow> ('k, 'v) fmap" where
  "adjust k f m = (case fmlookup m k of None \<Rightarrow> m | Some v \<Rightarrow> fmupd k (f v) m)"

lemma adjust_adjust [simp]: "adjust k f (adjust k g m) = adjust k (f \<circ> g) m"
  by (rule fmap_ext) (auto simp: adjust_def option.map_comp split: option.splits)

lemma fmlookup_adjust [simp]:
  "fmlookup (adjust k f m) k' = (if k = k' then map_option f (fmlookup m k) else fmlookup m k')"
  by (auto simp: adjust_def split: option.splits)

lemma fmdom'_adjust [simp]: "fmdom' (adjust k f m) = fmdom' m"
  by (auto simp: fmlookup_dom'_iff split: if_splits)

lemma fmdom_adjust [simp]: "fmdom (adjust k f m) = fmdom m"
  by (auto simp: adjust_def fmlookup_dom_iff split: option.splits)

text \<open>\<open>retain\<close>: the entries that satisfy a predicate.\<close>

definition retain :: "('k \<Rightarrow> 'v \<Rightarrow> bool) \<Rightarrow> ('k, 'v) fmap \<Rightarrow> ('k, 'v) fmap" where
  "retain P m = fmfilter (\<lambda>k. case fmlookup m k of None \<Rightarrow> False | Some v \<Rightarrow> P k v) m"

lemma fmlookup_retain [simp]:
  "fmlookup (retain P m) k = (case fmlookup m k of None \<Rightarrow> None | Some v \<Rightarrow> if P k v then Some v else None)"
  by (simp add: retain_def split: option.splits)

lemma retain_dom: "fmdom (retain P m) |\<subseteq>| fmdom m"
  by (auto simp: retain_def)

lemma retain_all: "(\<And>k v. fmlookup m k = Some v \<Longrightarrow> P k v) \<Longrightarrow> retain P m = m"
  by (rule fmap_ext) (auto split: option.splits)

lemma retain_empty [simp]: "retain P fmempty = fmempty"
  by (simp add: retain_def)

lemma retain_retain: "retain P (retain P m) = retain P m"
  by (rule fmap_ext) (auto split: option.splits)

lemma retain_shrinks:
  "fcard (fmdom (retain P m)) < fcard (fmdom m) \<longleftrightarrow> (\<exists>k v. fmlookup m k = Some v \<and> \<not> P k v)"
proof
  assume less: "fcard (fmdom (retain P m)) < fcard (fmdom m)"
  show "\<exists>k v. fmlookup m k = Some v \<and> \<not> P k v"
  proof (rule ccontr)
    assume "\<not> ?thesis"
    then have "retain P m = m" by (intro retain_all) blast
    with less show False by simp
  qed
next
  assume "\<exists>k v. fmlookup m k = Some v \<and> \<not> P k v"
  then obtain k v where "fmlookup m k = Some v" "\<not> P k v" by blast
  then have "fmlookup (retain P m) k = None" "fmlookup m k \<noteq> None" by auto
  then have "k |\<notin>| fmdom (retain P m)" "k |\<in>| fmdom m"
    by (simp_all add: fmdom_notI fmlookup_dom_iff)
  then have "fmdom (retain P m) |\<subset>| fmdom m"
    using retain_dom [of P m] by blast
  then show "fcard (fmdom (retain P m)) < fcard (fmdom m)"
    by (rule pfsubset_fcard_mono)
qed

text \<open>\<open>entry(k).or_default()\<close>: the value of a key, or the default where there is none.\<close>

definition entry_or :: "'v \<Rightarrow> ('k, 'v) fmap \<Rightarrow> 'k \<Rightarrow> 'v" where
  "entry_or d m k = (case fmlookup m k of None \<Rightarrow> d | Some v \<Rightarrow> v)"

lemma entry_or_upd [simp]: "entry_or d (fmupd k v m) k' = (if k = k' then v else entry_or d m k')"
  by (simp add: entry_or_def)

lemma entry_or_empty [simp]: "entry_or d fmempty k = d"
  by (simp add: entry_or_def)

text \<open>A two-level map \<open>BTreeMap<Topic, BTreeMap<Partition, V>>\<close> and \<open>entry(t).or_default().insert(p, v)\<close>.\<close>

definition insert2 ::
    "'a \<Rightarrow> 'b \<Rightarrow> 'v \<Rightarrow> ('a, ('b, 'v) fmap) fmap \<Rightarrow> ('a, ('b, 'v) fmap) fmap" where
  "insert2 t p v m = fmupd t (fmupd p v (entry_or fmempty m t)) m"

definition lookup2 :: "('a, ('b, 'v) fmap) fmap \<Rightarrow> 'a \<Rightarrow> 'b \<Rightarrow> 'v option" where
  "lookup2 m t p = fmlookup (entry_or fmempty m t) p"

lemma lookup2_insert2 [simp]:
  "lookup2 (insert2 t p v m) t' p' = (if t = t' \<and> p = p' then Some v else lookup2 m t' p')"
  by (auto simp: lookup2_def insert2_def)

lemma entry_or_insert2 [simp]:
  "entry_or z (entry_or fmempty (insert2 t p v m) t') p' =
     (if t = t' \<and> p = p' then v else entry_or z (entry_or fmempty m t') p')"
  by (auto simp: insert2_def)

lemma lookup2_empty [simp]: "lookup2 fmempty t p = None"
  by (simp add: lookup2_def)

text \<open>The rows of a two-level map in iteration order.\<close>

definition rows2 :: "('a::linorder, ('b::linorder, 'v) fmap) fmap \<Rightarrow> ('a \<times> 'b \<times> 'v) list" where
  "rows2 m = concat (map (\<lambda>(t, ps). map (\<lambda>(p, v). (t, p, v)) (entries ps)) (entries m))"

lemma in_rows2 [simp]: "(t, p, v) \<in> set (rows2 m) \<longleftrightarrow> lookup2 m t p = Some v"
  by (force simp: rows2_def lookup2_def entry_or_def split: option.splits)

lemma rows2_empty [simp]: "rows2 fmempty = []"
  by (simp add: rows2_def)

text \<open>Loops of insertions: the last write of a key wins, and running the loop twice changes nothing.\<close>

lemma fold_id: "(\<And>x. x \<in> set xs \<Longrightarrow> f x m = m) \<Longrightarrow> fold f xs m = m"
  by (induction xs) auto

lemma fmlookup_fold_upd:
  "fmlookup (fold (\<lambda>(k, v). fmupd k v) xs m) k =
     (case map_of (rev xs) k of None \<Rightarrow> fmlookup m k | Some v \<Rightarrow> Some v)"
  by (induction xs rule: rev_induct) auto

lemma map_of_rev_last:
  assumes "(k, v) \<in> set ys" and "\<And>w. (k, w) \<in> set ys \<Longrightarrow> w = v"
  shows "map_of (rev (xs @ ys)) k = Some v"
proof -
  obtain w where "map_of (rev ys) k = Some w" using assms(1) by (metis map_of_eq_None_iff image_eqI fst_conv option.exhaust set_rev)
  moreover have "w = v" using assms(2) calculation by (metis map_of_SomeD set_rev)
  ultimately show ?thesis by simp
qed

lemma fold_upd_idem:
  "fold (\<lambda>(k, v). fmupd k v) xs (fold (\<lambda>(k, v). fmupd k v) xs m) = fold (\<lambda>(k, v). fmupd k v) xs m"
  by (rule fmap_ext) (simp add: fmlookup_fold_upd split: option.splits)

lemma fmlookup_fold_insert2:
  "fmlookup (fold (\<lambda>(t, p, v). insert2 t p v) xs m) t =
     (if t \<in> fst ` set xs
      then Some (fold (\<lambda>(p, v). fmupd p v) (map snd (filter (\<lambda>x. fst x = t) xs)) (entry_or fmempty m t))
      else fmlookup m t)"
proof (induction xs rule: rev_induct)
  case Nil
  then show ?case by simp
next
  case (snoc x xs)
  obtain t' p v where x: "x = (t', p, v)" by (cases x)
  have "filter (\<lambda>x. fst x = t) xs = []" if "t \<notin> fst ` set xs"
    using that by (auto simp: filter_empty_conv)
  then show ?case
    using snoc by (auto simp: x insert2_def entry_or_def)
qed

lemma fold_insert2_idem:
  "fold (\<lambda>(t, p, v). insert2 t p v) xs (fold (\<lambda>(t, p, v). insert2 t p v) xs m) =
   fold (\<lambda>(t, p, v). insert2 t p v) xs m"
  by (rule fmap_ext) (simp add: fmlookup_fold_insert2 entry_or_def [of _ "fold _ _ _"] fold_upd_idem)

lemma insert2_same: "lookup2 m t p = Some v \<Longrightarrow> insert2 t p v m = m"
  by (rule fmap_ext) (auto simp: insert2_def lookup2_def entry_or_def intro!: fmap_ext split: option.splits)

lemma fmupd_idem [simp]: "fmupd k v (fmupd k w m) = fmupd k v m"
  by (rule fmap_ext) simp

section \<open>Topic partitions\<close>

text \<open>\<open>Topition\<close> of \<open>tansu-storage/src/lib.rs\<close>, ordered by topic and then partition as its
  derived \<open>Ord\<close> is.\<close>

datatype topition = Topition (topic: string) (partition: int)

instantiation topition :: linorder
begin

definition less_eq_topition :: "topition \<Rightarrow> topition \<Rightarrow> bool" where
  "less_eq_topition x y \<longleftrightarrow> (topic x, partition x) \<le> (topic y, partition y)"

definition less_topition :: "topition \<Rightarrow> topition \<Rightarrow> bool" where
  "less_topition x y \<longleftrightarrow> (topic x, partition x) < (topic y, partition y)"

instance
proof
  fix x y z :: topition
  show "(x < y) = (x \<le> y \<and> \<not> y \<le> x)"
    unfolding less_eq_topition_def less_topition_def by (rule less_le_not_le)
  show "x \<le> x"
    unfolding less_eq_topition_def by simp
  show "x \<le> y \<Longrightarrow> y \<le> z \<Longrightarrow> x \<le> z"
    unfolding less_eq_topition_def by (rule order_trans)
  show "x \<le> y \<Longrightarrow> y \<le> x \<Longrightarrow> x = y"
    unfolding less_eq_topition_def by (cases x; cases y) (auto dest: antisym)
  show "x \<le> y \<or> y \<le> x"
    unfolding less_eq_topition_def by (rule linear)
qed

end

end
