(* ===== verification/Frame_Codec.thy ===== *)
theory Frame_Codec
  imports Prelude
begin

text \<open>
  The CRC-framed record envelope of \<open>tansu-storage/src/nvme/frame.rs\<close>, shared by segment files,
  the metadata WAL, snapshots and the manifest:
  magic, version, type, flags, payload length (u32 little endian), CRC32C (u32 little endian),
  payload.  The checksum itself is computed by the \<open>crc_fast\<close> crate and is a parameter
  \<open>crc\<close> of the model: the digest of the four header bytes followed by the payload.
  The locale \<open>frame_scanner\<close> is the contract between an append-only file of such frames and the
  loop that reads it back; the WAL replay and the segment scan are its two instances.
\<close>

type_synonym crc = "bytes \<Rightarrow> 32 word"

definition MAGIC :: byte where "MAGIC = 0x54"
definition VERSION :: byte where "VERSION = 1"
definition HEADER_LEN :: nat where "HEADER_LEN = 12"

datatype frame_type = Batch | Wal | Snapshot | Manifest

fun frame_type_u8 :: "frame_type \<Rightarrow> byte" where
  "frame_type_u8 Batch = 1"
| "frame_type_u8 Wal = 2"
| "frame_type_u8 Snapshot = 3"
| "frame_type_u8 Manifest = 4"

definition frame_type_try_from :: "byte \<Rightarrow> error + frame_type" where
  "frame_type_try_from v =
     (if v = 1 then Inr Batch
      else if v = 2 then Inr Wal
      else if v = 3 then Inr Snapshot
      else if v = 4 then Inr Manifest
      else Inl (Message ''nvme frame type''))"

definition crc32c :: "crc \<Rightarrow> bytes \<Rightarrow> bytes \<Rightarrow> 32 word" where
  "crc32c crc header payload = crc (header @ payload)"

definition encode :: "crc \<Rightarrow> frame_type \<Rightarrow> bytes \<Rightarrow> bytes" where
  "encode crc ft payload =
     (let header = [MAGIC, VERSION, frame_type_u8 ft, 0] in
      header @ to_le 4 (int (length payload))
        @ to_le 4 (uint (crc32c crc header payload)) @ payload)"

record frame =
  frame_type :: frame_type
  payload :: bytes

definition size_on_disk :: "frame \<Rightarrow> nat" where
  "size_on_disk f = HEADER_LEN + length (payload f)"

datatype decoded = Frame frame | Torn

text \<open>
  The reader: every guard of the source in its order.  The flags byte is read and ignored, but it
  is covered by the checksum because the checksum runs over the header as stored.
\<close>

definition decode :: "crc \<Rightarrow> bytes \<Rightarrow> decoded" where
  "decode crc bs =
     (if length bs < HEADER_LEN then Torn
      else
        let magic = bs ! 0; version = bs ! 1; ft = bs ! 2;
            payload_len = nat (from_le (take 4 (drop 4 bs)));
            stored = from_le (take 4 (drop 8 bs));
            cursor = drop HEADER_LEN bs
        in
          if magic \<noteq> MAGIC \<or> version \<noteq> VERSION then Torn
          else (case frame_type_try_from ft of
              Inl _ \<Rightarrow> Torn
            | Inr ft' \<Rightarrow>
                if length cursor < payload_len then Torn
                else
                  let pl = take payload_len cursor in
                  if uint (crc32c crc (take 4 bs) pl) \<noteq> stored then Torn
                  else Frame \<lparr>frame_type = ft', payload = pl\<rparr>))"

lemma frame_type_round_trip [simp]: "frame_type_try_from (frame_type_u8 ft) = Inr ft"
  by (cases ft) (simp_all add: frame_type_try_from_def)

lemma length_encode [simp]: "length (encode crc ft p) = HEADER_LEN + length p"
  by (simp add: encode_def HEADER_LEN_def Let_def)

lemma encode_not_Nil [simp]: "encode crc ft p \<noteq> []"
  by (simp add: encode_def Let_def)

text \<open>The header fields of an encoded frame, however the payload is cut.\<close>

lemma encode_fields:
  fixes crc ft p rest
  defines "bs \<equiv> encode crc ft p @ rest"
  shows "bs ! 0 = MAGIC" "bs ! 1 = VERSION" "bs ! 2 = frame_type_u8 ft"
    "take 4 bs = [MAGIC, VERSION, frame_type_u8 ft, 0]"
    "from_le (take 4 (drop 4 bs)) = int (length p) mod 2 ^ 32"
    "from_le (take 4 (drop 8 bs)) = uint (crc32c crc [MAGIC, VERSION, frame_type_u8 ft, 0] p)"
    "drop HEADER_LEN bs = p @ rest"
proof -
  have len: "from_le (to_le 4 (int (length p))) = int (length p) mod 2 ^ 32"
    by (simp add: from_le_to_le)
  have sum: "from_le (to_le 4 (uint (c :: 32 word))) = uint c" for c
    using uint_bounded [of c] by (simp add: from_le_to_le)
  show "bs ! 0 = MAGIC" "bs ! 1 = VERSION" "bs ! 2 = frame_type_u8 ft"
    "take 4 bs = [MAGIC, VERSION, frame_type_u8 ft, 0]"
    "drop HEADER_LEN bs = p @ rest"
    by (simp_all add: bs_def encode_def HEADER_LEN_def Let_def numeral_eq_Suc)
  show "from_le (take 4 (drop 4 bs)) = int (length p) mod 2 ^ 32"
    using len by (simp add: bs_def encode_def Let_def)
  show "from_le (take 4 (drop 8 bs)) = uint (crc32c crc [MAGIC, VERSION, frame_type_u8 ft, 0] p)"
    using sum by (simp add: bs_def encode_def Let_def)
qed


lemma decode_encode [simp]:
  assumes "length p < 2 ^ 32"
  shows "decode crc (encode crc ft p @ rest) = Frame \<lparr>frame_type = ft, payload = p\<rparr>"
proof -
  define bs where "bs = encode crc ft p @ rest"
  have "int (length p) mod 2 ^ 32 = int (length p)"
    using assms by simp
  note fields = encode_fields [of crc ft p rest, folded bs_def, unfolded this]
  have "HEADER_LEN \<le> length bs" by (simp add: bs_def)
  with fields have "decode crc bs = Frame \<lparr>frame_type = ft, payload = p\<rparr>"
    by (simp add: decode_def Let_def del: One_nat_def)
  then show ?thesis by (simp add: bs_def)
qed

text \<open>
  The torn-write rule: no proper prefix of a frame decodes, whatever the checksum function is.
  A cut inside the header is too short, a cut inside the payload is shorter than the stored length.
\<close>

lemma decode_prefix_torn:
  assumes "length p < 2 ^ 32" and "n < length (encode crc ft p)"
  shows "decode crc (take n (encode crc ft p)) = Torn"
proof (cases "n < HEADER_LEN")
  case True
  then show ?thesis by (simp add: decode_def)
next
  case False
  define bs where "bs = encode crc ft p"
  define cut where "cut = take n bs"
  have len: "int (length p) mod 2 ^ 32 = int (length p)"
    using assms(1) by simp
  note fields = encode_fields [of crc ft p "[]", simplified, folded bs_def, unfolded len]
  have "cut ! 0 = MAGIC" "cut ! 1 = VERSION" "cut ! 2 = frame_type_u8 ft"
    "take 4 (drop 4 cut) = take 4 (drop 4 bs)"
    using False fields by (simp_all add: cut_def HEADER_LEN_def drop_take min_def)
  moreover have "length (drop HEADER_LEN cut) < length p"
    using False assms(2) by (auto simp: cut_def bs_def)
  moreover have "from_le (take 4 (drop 4 bs)) = int (length p)"
    using fields assms(1) by simp
  moreover have "HEADER_LEN \<le> length cut"
    using False assms(2) by (simp add: cut_def bs_def)
  ultimately have "decode crc cut = Torn"
    by (simp add: decode_def Let_def del: One_nat_def length_drop)
  then show ?thesis by (simp add: cut_def bs_def)
qed

lemma decode_Frame_size:
  assumes "decode crc bs = Frame f"
  shows "size_on_disk f \<le> length bs"
  using assms
  by (auto simp: decode_def Let_def size_on_disk_def split: if_splits sum.splits)

text \<open>A frame is read the same whatever follows it in the file.\<close>

lemma decode_take:
  assumes "decode crc bs = Frame f" and "size_on_disk f \<le> m"
  shows "decode crc (take m bs) = Frame f"
proof -
  have m: "HEADER_LEN \<le> m" and len: "HEADER_LEN + length (payload f) \<le> m"
    using assms(2) by (auto simp: size_on_disk_def)
  have long: "HEADER_LEN \<le> length bs"
    using assms(1) by (auto simp: decode_def split: if_splits)
  have fields: "take m bs ! 0 = bs ! 0" "take m bs ! 1 = bs ! 1" "take m bs ! 2 = bs ! 2"
    "take 4 (take m bs) = take 4 bs" "take 4 (drop 4 (take m bs)) = take 4 (drop 4 bs)"
    "take 4 (drop 8 (take m bs)) = take 4 (drop 8 bs)"
    "drop HEADER_LEN (take m bs) = take (m - HEADER_LEN) (drop HEADER_LEN bs)"
    using m by (simp_all add: HEADER_LEN_def drop_take min_def)
  let ?n = "nat (from_le (take 4 (drop 4 bs)))"
  have n: "payload f = take ?n (drop HEADER_LEN bs)" "?n \<le> length (drop HEADER_LEN bs)"
    using assms(1) by (auto simp: decode_def Let_def split: if_splits sum.splits)
  then have "?n \<le> m - HEADER_LEN" using len by simp
  then have "take ?n (take (m - HEADER_LEN) (drop HEADER_LEN bs)) = take ?n (drop HEADER_LEN bs)"
    "\<not> length (take (m - HEADER_LEN) (drop HEADER_LEN bs)) < ?n"
    using n by (simp_all add: min_def)
  moreover have "\<not> length (take m bs) < HEADER_LEN" using m long by simp
  ultimately show ?thesis
    using assms(1) long unfolding decode_def Let_def fields
    by (auto simp del: length_take take_take split: if_splits sum.splits)
qed

lemma size_on_disk_pos [simp]: "0 < size_on_disk f"
  by (simp add: size_on_disk_def HEADER_LEN_def)

text \<open>One stray first byte of a frame makes everything that follows it unreadable.\<close>

lemma decode_stray_magic:
  assumes "bs = [] \<or> hd bs = MAGIC"
  shows "decode crc (MAGIC # bs) = Torn"
proof (cases "length (MAGIC # bs) < HEADER_LEN")
  case True
  then show ?thesis by (simp add: decode_def)
next
  case False
  then have "bs \<noteq> []" by (auto simp: HEADER_LEN_def)
  then have "(MAGIC # bs) ! 1 = MAGIC"
    using assms by (simp add: hd_conv_nth)
  moreover have "MAGIC \<noteq> VERSION" by (simp add: MAGIC_def VERSION_def)
  ultimately show ?thesis using False by (simp add: decode_def Let_def)
qed

section \<open>Reading back an append-only file of frames\<close>

text \<open>
  A file is the concatenation of \<open>enc r\<close> over the records appended to it, in order.  The reader is
  a loop over positions: at a record boundary \<open>verdict\<close> yields the record and its size and the loop
  goes on; at a torn position it stops.  The laws are what an implementation owes: a whole record is
  recognised whatever follows it, and no proper prefix of one is.
\<close>

locale frame_scanner =
  fixes enc :: "'a \<Rightarrow> bytes"
    and good :: "'a \<Rightarrow> bool"
    and loop :: "bytes \<Rightarrow> nat \<Rightarrow> 'acc \<Rightarrow> 'res"
    and add :: "nat \<Rightarrow> 'a \<Rightarrow> 'acc \<Rightarrow> 'acc"
    and fin :: "'acc \<Rightarrow> nat \<Rightarrow> 'res"
    and torn :: "bytes \<Rightarrow> bool"
  assumes loop_record:
      "good r \<Longrightarrow> drop pos bs = enc r @ rest \<Longrightarrow> loop bs pos acc = loop bs (pos + length (enc r)) (add pos r acc)"
    and loop_eof: "length bs \<le> pos \<Longrightarrow> loop bs pos acc = fin acc pos"
    and loop_torn: "pos < length bs \<Longrightarrow> torn (drop pos bs) \<Longrightarrow> loop bs pos acc = fin acc pos"
    and enc_prefix_torn: "good r \<Longrightarrow> 0 < n \<Longrightarrow> n < length (enc r) \<Longrightarrow> torn (take n (enc r))"
begin

text \<open>The accumulator after reading the records \<open>rs\<close> from position \<open>pos\<close> on.\<close>

primrec adds :: "nat \<Rightarrow> 'a list \<Rightarrow> 'acc \<Rightarrow> 'acc" where
  "adds pos [] acc = acc"
| "adds pos (r # rs) acc = adds (pos + length (enc r)) rs (add pos r acc)"

lemma scan_from:
  assumes "\<forall>r \<in> set rs. good r"
    and "drop pos bs = concat (map enc rs) @ tail"
    and "tail = [] \<or> torn tail"
    and "pos \<le> length bs"
  shows "loop bs pos acc = fin (adds pos rs acc) (pos + length (concat (map enc rs)))"
  using assms
proof (induction rs arbitrary: pos acc)
  case Nil
  then have dr: "drop pos bs = tail" by simp
  show ?case
  proof (cases "pos < length bs")
    case True
    then have "tail \<noteq> []" using dr by auto
    then show ?thesis using Nil.prems(3) dr True loop_torn by auto
  next
    case False
    then show ?thesis by (simp add: loop_eof)
  qed
next
  case (Cons r rs)
  have dr: "drop pos bs = enc r @ concat (map enc rs) @ tail"
    using Cons.prems(2) by simp
  have step: "loop bs pos acc = loop bs (pos + length (enc r)) (add pos r acc)"
    using Cons.prems(1) dr by (intro loop_record) auto
  have "length (drop pos bs) = length (enc r @ concat (map enc rs) @ tail)"
    using dr by simp
  then have le: "pos + length (enc r) \<le> length bs"
    using Cons.prems(4) by simp
  have "drop (pos + length (enc r)) bs = drop (length (enc r)) (drop pos bs)"
    by (simp add: add.commute)
  also have "\<dots> = concat (map enc rs) @ tail"
    using dr by simp
  finally have "loop bs (pos + length (enc r)) (add pos r acc) =
      fin (adds (pos + length (enc r)) rs (add pos r acc))
        (pos + length (enc r) + length (concat (map enc rs)))"
    using Cons.prems le by (intro Cons.IH) auto
  then show ?case using step by (simp add: add.assoc)
qed

text \<open>A file that ends at a record boundary, or in a torn tail, reads back as its records.\<close>

lemma scan_file:
  assumes "\<forall>r \<in> set rs. good r" and "tail = [] \<or> torn tail"
  shows "loop (concat (map enc rs) @ tail) 0 acc =
    fin (adds 0 rs acc) (length (concat (map enc rs)))"
  using scan_from [OF assms(1) _ assms(2), of 0] by simp

text \<open>The number of records that lie wholly within the first \<open>n\<close> bytes of the file.\<close>

primrec whole :: "nat \<Rightarrow> 'a list \<Rightarrow> nat" where
  "whole n [] = 0"
| "whole n (r # rs) = (if length (enc r) \<le> n then Suc (whole (n - length (enc r)) rs) else 0)"

lemma take_file:
  assumes "\<forall>r \<in> set rs. good r"
  shows "\<exists>tail. take n (concat (map enc rs)) = concat (map enc (take (whole n rs) rs)) @ tail
    \<and> (tail = [] \<or> torn tail)"
  using assms
proof (induction rs arbitrary: n)
  case Nil
  then show ?case by simp
next
  case (Cons r rs)
  show ?case
  proof (cases "length (enc r) \<le> n")
    case True
    then show ?thesis
      using Cons.IH [of "n - length (enc r)"] Cons.prems by auto
  next
    case False
    then show ?thesis
      using enc_prefix_torn [of r n] Cons.prems by (cases "n = 0") auto
  qed
qed

text \<open>
  A crash that keeps the first \<open>n\<close> bytes of the file, for any \<open>n\<close>, loses exactly the records that do
  not lie wholly within them, and the reader stops at the last record boundary.
\<close>

lemma scan_crash:
  assumes "\<forall>r \<in> set rs. good r"
  shows "loop (take n (concat (map enc rs))) 0 acc =
    fin (adds 0 (take (whole n rs) rs) acc) (length (concat (map enc (take (whole n rs) rs))))"
proof -
  obtain tail where t: "take n (concat (map enc rs)) = concat (map enc (take (whole n rs) rs)) @ tail"
    "tail = [] \<or> torn tail"
    using take_file [OF assms] by blast
  have "\<forall>r \<in> set (take (whole n rs) rs). good r"
    using assms by (meson in_set_takeD)
  from scan_file [OF this t(2)] show ?thesis by (simp add: t(1))
qed

lemma whole_le: "whole n rs \<le> length rs"
  by (induction rs arbitrary: n) auto

lemma whole_ge:
  assumes "length (concat (map enc (take k rs))) \<le> n" and "k \<le> length rs"
  shows "k \<le> whole n rs"
  using assms
proof (induction rs arbitrary: n k)
  case Nil
  then show ?case by simp
next
  case (Cons r rs)
  show ?case
  proof (cases k)
    case 0
    then show ?thesis by simp
  next
    case (Suc j)
    then have "length (enc r) \<le> n" "length (concat (map enc (take j rs))) \<le> n - length (enc r)"
      using Cons.prems(1) by auto
    then show ?thesis
      using Cons.IH [of j "n - length (enc r)"] Cons.prems(2) Suc by simp
  qed
qed

end

section \<open>The envelope is lossless and its torn prefixes are recognised\<close>

text \<open>C11: A frame whose payload length fits its 32-bit field decodes to the type and payload it was
  encoded from, whatever bytes follow it; and a crash that keeps only a proper prefix of it leaves
  bytes that decode to \<open>Torn\<close>, at every cut position and for every checksum function.\<close>

theorem frame_round_trip:
  assumes "length p < 2 ^ 32"
  shows "decode crc (encode crc ft p @ rest) = Frame \<lparr>frame_type = ft, payload = p\<rparr>
    \<and> (\<forall>n. n < length (encode crc ft p) \<longrightarrow> decode crc (take n (encode crc ft p)) = Torn)"
  using assms decode_encode decode_prefix_torn by blast

theorem frame_round_trip_witness:
  "decode (\<lambda>bs. word_of_nat (length bs)) (encode (\<lambda>bs. word_of_nat (length bs)) Wal [1, 2] @ [7])
     = Frame \<lparr>frame_type = Wal, payload = [1, 2]\<rparr>
   \<and> decode (\<lambda>bs. word_of_nat (length bs)) (take 13 (encode (\<lambda>bs. word_of_nat (length bs)) Wal [1, 2]))
     = Torn"
  using frame_round_trip [of "[1, 2]" "\<lambda>bs. word_of_nat (length bs)" Wal "[7]"]
  by (simp add: HEADER_LEN_def)

end
