(* ===== verification/Coord_State.thy ===== *)
theory Coord_State
  imports Prelude
begin

text \<open>
  The coordination state of \<open>tansu-storage/src/nvme/state.rs\<close>: producers with their idempotence
  sequences, transactions by epoch, topics and SCRAM credentials, and the operations the engine
  runs on it under its one mutex.  Identifiers and offsets are \<^typ>\<open>int\<close>; the 32-bit sequence
  arithmetic wraps.  \<open>SystemTime\<close> is an \<^typ>\<open>int\<close> (milliseconds since the epoch).
\<close>

type_synonym system_time = int
type_synonym uuid = "128 word"

section \<open>Types\<close>

record producer_detail =
  sequences :: "(int, (string, (int, int) fmap) fmap) fmap"

record txn_produce_offset =
  offset_start :: int
  offset_end :: int

record txn_commit_offset =
  committed_offset :: int
  leader_epoch :: "int option"
  commit_metadata :: "string option"

datatype txn_state = Begin | PrepareCommit | PrepareAbort | Committed | Aborted

fun is_prepared :: "txn_state \<Rightarrow> bool" where
  "is_prepared PrepareCommit = True"
| "is_prepared PrepareAbort = True"
| "is_prepared _ = False"

fun is_terminal :: "txn_state \<Rightarrow> bool" where
  "is_terminal Committed = True"
| "is_terminal Aborted = True"
| "is_terminal _ = False"

record txn_detail =
  transaction_timeout_ms :: int
  started_at :: "system_time option"
  txn_status :: "txn_state option"
  produces :: "(string, (int, txn_produce_offset option) fmap) fmap"
  txn_offsets :: "(string, (string, (int, txn_commit_offset) fmap) fmap) fmap"

definition txn_detail_default :: txn_detail where
  "txn_detail_default =
     \<lparr>transaction_timeout_ms = 0, started_at = None, txn_status = None, produces = fmempty,
      txn_offsets = fmempty\<rparr>"

record txn =
  producer :: int
  epochs :: "(int, txn_detail) fmap"

text \<open>\<open>CreatableTopic\<close>, \<open>CreatableTopicConfig\<close> and \<open>AlterableConfig\<close> of the protocol messages.\<close>

record creatable_topic_config =
  config_name :: string
  config_value :: "string option"

record creatable_topic =
  topic_name :: string
  num_partitions :: int
  replication_factor :: int
  assignments :: "(int \<times> int list option) list option"
  configs :: "creatable_topic_config list option"

record alterable_config =
  alter_name :: string
  config_operation :: int
  alter_value :: "string option"

record topic_metadata =
  topic_uuid :: uuid
  creatable :: creatable_topic

record scram_credential =
  salt :: bytes
  iterations :: int
  stored_key :: bytes
  server_key :: bytes

record txn_ref =
  ref_transaction :: string
  ref_producer_id :: int
  ref_producer_epoch :: int
  ref_state :: txn_state

record coord_state =
  producers :: "(int, producer_detail) fmap"
  transactions :: "(string, txn) fmap"
  topics :: "(string, topic_metadata) fmap"
  scram :: "(string \<times> string, scram_credential) fmap"

definition coord_default :: coord_state where
  "coord_default =
     \<lparr>producers = fmempty, transactions = fmempty, topics = fmempty, scram = fmempty\<rparr>"

datatype topic_id = Name string | Id uuid

section \<open>Operations\<close>

definition find_topic :: "coord_state \<Rightarrow> topic_id \<Rightarrow> topic_metadata option" where
  "find_topic s tid =
     (case tid of
        Name name \<Rightarrow> fmlookup (topics s) name
      | Id i \<Rightarrow> find (\<lambda>m. topic_uuid m = i) (map snd (entries (topics s))))"

definition txn_detail_mut :: "coord_state \<Rightarrow> string \<Rightarrow> int \<Rightarrow> int \<Rightarrow> error + txn_detail" where
  "txn_detail_mut s transaction_id producer_id producer_epoch =
     (case fmlookup (transactions s) transaction_id of
        None \<Rightarrow> Inl (Api TransactionalIdNotFound)
      | Some transaction \<Rightarrow>
          if producer transaction \<noteq> producer_id then Inl (Api UnknownProducerId)
          else (case last_entry (epochs transaction) of
              None \<Rightarrow> Inl (Api ProducerFenced)
            | Some (current_epoch, detail) \<Rightarrow>
                if current_epoch \<noteq> producer_epoch then Inl (Api ProducerFenced)
                else Inr detail))"

text \<open>
  The write through the reference \<open>txn_detail_mut\<close> hands out (and through the \<open>get_mut\<close> chains of
  the other operations): update one epoch of one transaction.
\<close>

definition update_txn_detail ::
    "string \<Rightarrow> int \<Rightarrow> (txn_detail \<Rightarrow> txn_detail) \<Rightarrow> coord_state \<Rightarrow> coord_state" where
  "update_txn_detail transaction_id epoch f s =
     s\<lparr>transactions :=
        adjust transaction_id (\<lambda>t. t\<lparr>epochs := adjust epoch f (epochs t)\<rparr>) (transactions s)\<rparr>"

definition txn_detail_of :: "coord_state \<Rightarrow> string \<Rightarrow> int \<Rightarrow> txn_detail option" where
  "txn_detail_of s transaction_id epoch =
     (case fmlookup (transactions s) transaction_id of
        None \<Rightarrow> None
      | Some t \<Rightarrow> fmlookup (epochs t) epoch)"

text \<open>
  \<open>validate_sequence\<close>: \<open>entry(..).or_default()\<close> creates the partition's counter even when the
  batch is then refused, so the error branches keep that write.
\<close>

definition validate_sequence ::
    "int \<Rightarrow> int \<Rightarrow> int \<Rightarrow> int \<Rightarrow> string \<Rightarrow> int \<Rightarrow> (coord_state, unit) op" where
  "validate_sequence producer_id producer_epoch base_sequence last_offset_delta t p s =
     (case fmlookup (producers s) producer_id of
        None \<Rightarrow> (Inl (Api UnknownProducerId), s)
      | Some pd \<Rightarrow>
         (case last_entry (sequences pd) of
            None \<Rightarrow> (Inl (Api UnknownServerError), s)
          | Some (current, by_topic) \<Rightarrow>
              if current \<noteq> producer_epoch then (Inl (Api ProducerFenced), s)
              else
                let sq = entry_or 0 (entry_or fmempty by_topic t) p;
                    write = (\<lambda>v. s\<lparr>producers := fmupd producer_id
                       (pd\<lparr>sequences := fmupd current (insert2 t p v by_topic) (sequences pd)\<rparr>)
                       (producers s)\<rparr>)
                in if sq < base_sequence then (Inl (Api OutOfOrderSequenceNumber), write sq)
                   else if sq > base_sequence then (Inl (Api DuplicateSequenceNumber), write sq)
                   else (Inr (), write (wrap_signed 32 (sq + wrap_signed 32 (last_offset_delta + 1))))))"

text \<open>The \<open>and_modify .. or_insert\<close> of a produced range, and the update of the transaction by it.\<close>

definition extend_range ::
    "int \<Rightarrow> int \<Rightarrow> txn_produce_offset option option \<Rightarrow> txn_produce_offset option" where
  "extend_range start fin entry =
     (case entry of
        Some (Some r) \<Rightarrow> Some (if fin > offset_end r then r\<lparr>offset_end := fin\<rparr> else r)
      | _ \<Rightarrow> Some \<lparr>offset_start = start, offset_end = fin\<rparr>)"

definition record_txn_produce ::
    "string \<Rightarrow> int \<Rightarrow> string \<Rightarrow> int \<Rightarrow> int \<Rightarrow> int \<Rightarrow> bool \<Rightarrow> (coord_state, unit) op" where
  "record_txn_produce transaction_id producer_epoch t p start fin is_control s =
     (case txn_detail_of s transaction_id producer_epoch of
        None \<Rightarrow> (Inr (), s)
      | Some d \<Rightarrow>
          if \<not> is_control \<and> txn_status d \<noteq> Some Begin then (Inl (Api InvalidTxnState), s)
          else (Inr (), update_txn_detail transaction_id producer_epoch
            (\<lambda>d. d\<lparr>produces :=
               insert2 t p (extend_range start fin (lookup2 (produces d) t p)) (produces d)\<rparr>) s))"

text \<open>The partitions of a transaction that hold a produced range, in iteration order.\<close>

definition produced_ranges :: "txn_detail \<Rightarrow> (string \<times> int \<times> txn_produce_offset) list" where
  "produced_ranges d =
     List.map_filter (\<lambda>(t, p, r). map_option (\<lambda>r. (t, p, r)) r) (rows2 (produces d))"

definition produced :: "coord_state \<Rightarrow> string \<Rightarrow> int \<Rightarrow> (string \<times> int \<times> txn_produce_offset) list" where
  "produced s transaction_id producer_epoch =
     (case txn_detail_of s transaction_id producer_epoch of
        None \<Rightarrow> []
      | Some d \<Rightarrow> produced_ranges d)"


definition overlaps ::
    "(string \<times> int, txn_produce_offset) fmap \<Rightarrow> txn_detail \<Rightarrow> bool" where
  "overlaps candidates d \<longleftrightarrow>
     list_ex (\<lambda>(t, p, r).
        case r of None \<Rightarrow> False
        | Some r \<Rightarrow> (case fmlookup candidates (t, p) of None \<Rightarrow> False
            | Some c \<Rightarrow> offset_start r < offset_end c))
       (rows2 (produces d))"

definition unresolved :: "txn_detail \<Rightarrow> bool" where
  "unresolved d \<longleftrightarrow> (case txn_status d of None \<Rightarrow> False | Some st \<Rightarrow> \<not> is_terminal st)"

text \<open>
  \<open>overlapping_transactions\<close>: for each transaction, in key order, the first of its epochs that is
  not the candidate itself, is not terminal and overlaps; \<open>continue 'candidates\<close> takes one per
  transaction.
\<close>

definition overlapping_transactions :: "coord_state \<Rightarrow> string \<Rightarrow> int \<Rightarrow> int \<Rightarrow> txn_ref list" where
  "overlapping_transactions s transaction_id producer_id producer_epoch =
     (let candidates = fmap_of_list (rev (map (\<lambda>(t, p, r). ((t, p), r))
            (produced s transaction_id producer_epoch)))
      in List.map_filter
        (\<lambda>(candidate_id, t).
           map_option
             (\<lambda>(epoch, d). \<lparr>ref_transaction = candidate_id, ref_producer_id = producer t,
                ref_producer_epoch = epoch, ref_state = the (txn_status d)\<rparr>)
             (find (\<lambda>(epoch, d).
                  \<not> (transaction_id = candidate_id \<and> producer_id = producer t \<and> producer_epoch = epoch)
                  \<and> unresolved d \<and> overlaps candidates d)
                (entries (epochs t))))
        (entries (transactions s)))"

datatype op_type = Set | Delete | Append | Subtract

definition op_type_try_from :: "int \<Rightarrow> error + op_type" where
  "op_type_try_from v =
     (if v = 0 then Inr Set else if v = 1 then Inr Delete else if v = 2 then Inr Append
      else if v = 3 then Inr Subtract else Inl (SansIo (InvalidOpType v)))"

text \<open>\<open>str::split(',')\<close>, which yields one piece for the empty string, and \<open>join(",")\<close>.\<close>

fun split_comma :: "string \<Rightarrow> string list" where
  "split_comma [] = [[]]"
| "split_comma (c # cs) =
     (if c = CHR '','' then [] # split_comma cs
      else (case split_comma cs of [] \<Rightarrow> [[c]] | w # ws \<Rightarrow> (c # w) # ws))"

fun join_comma :: "string list \<Rightarrow> string" where
  "join_comma [] = []"
| "join_comma [w] = w"
| "join_comma (w # ws) = w @ CHR '','' # join_comma ws"

definition append_value :: "string \<Rightarrow> string option option \<Rightarrow> string option" where
  "append_value appended entry =
     (case entry of
        Some (Some current) \<Rightarrow>
          if current \<noteq> [] then
            (if appended \<in> set (split_comma current) then Some current
             else Some (current @ CHR '','' # appended))
          else Some appended
      | _ \<Rightarrow> Some appended)"

definition alter_config ::
    "alterable_config \<Rightarrow> (string, string option) fmap \<Rightarrow> error + (string, string option) fmap" where
  "alter_config change configuration =
     (let value = (case alter_value change of None \<Rightarrow> [] | Some v \<Rightarrow> v); name = alter_name change in
      case op_type_try_from (config_operation change) of
        Inl e \<Rightarrow> Inl e
      | Inr Set \<Rightarrow> Inr (fmupd name (alter_value change) configuration)
      | Inr Delete \<Rightarrow> Inr (fmdrop name configuration)
      | Inr Append \<Rightarrow> Inr (fmupd name (append_value value (fmlookup configuration name)) configuration)
      | Inr Subtract \<Rightarrow> Inr (adjust name
          (map_option (\<lambda>current. join_comma (filter (\<lambda>item. item \<noteq> value) (split_comma current))))
          configuration))"

fun alter_configs ::
    "alterable_config list \<Rightarrow> (string, string option) fmap \<Rightarrow> error + (string, string option) fmap" where
  "alter_configs [] configuration = Inr configuration"
| "alter_configs (change # changes) configuration =
     (case alter_config change configuration of
        Inl e \<Rightarrow> Inl e
      | Inr configuration' \<Rightarrow> alter_configs changes configuration')"

definition config_map :: "creatable_topic_config list option \<Rightarrow> (string, string option) fmap" where
  "config_map cs =
     fold (\<lambda>item. fmupd (config_name item) (config_value item)) (case cs of None \<Rightarrow> [] | Some l \<Rightarrow> l) fmempty"

definition config_list :: "(string, string option) fmap \<Rightarrow> creatable_topic_config list" where
  "config_list m = map (\<lambda>(k, v). \<lparr>config_name = k, config_value = v\<rparr>) (entries m)"

definition alter_topic :: "string \<Rightarrow> alterable_config list \<Rightarrow> (coord_state, unit) op" where
  "alter_topic t changes s =
     (case fmlookup (topics s) t of
        None \<Rightarrow> (Inr (), s)
      | Some m \<Rightarrow>
         (case alter_configs changes (config_map (configs (creatable m))) of
            Inl e \<Rightarrow> (Inl e, s)
          | Inr configuration \<Rightarrow>
              (Inr (), s\<lparr>topics := fmupd t
                 (m\<lparr>creatable := (creatable m)\<lparr>configs := Some (config_list configuration)\<rparr>\<rparr>)
                 (topics s)\<rparr>)))"


section \<open>Lemmas\<close>

lemma config_map_list [simp]: "config_map (Some (config_list m)) = m"
proof -
  have "fold (\<lambda>item. fmupd (config_name item) (config_value item)) (config_list m) fmempty =
    fold (\<lambda>(k, v). fmupd k v) (entries m) fmempty"
    by (simp add: config_list_def fold_map comp_def case_prod_unfold)
  then show ?thesis by (simp add: config_map_def)
qed

lemma txn_detail_of_update [simp]:
  "txn_detail_of (update_txn_detail tid e f s) tid' e' =
     (if tid = tid' \<and> e = e' then map_option f (txn_detail_of s tid e) else txn_detail_of s tid' e')"
  by (auto simp: txn_detail_of_def update_txn_detail_def split: option.splits)

lemma txn_detail_mut_Inr:
  "txn_detail_mut s tid pid e = Inr d \<longleftrightarrow>
     (\<exists>t. fmlookup (transactions s) tid = Some t \<and> producer t = pid \<and>
        fmlookup (epochs t) e = Some d \<and> (\<forall>e' \<in> fmdom' (epochs t). e' \<le> e))"
  by (auto simp: txn_detail_mut_def last_entry_Some fmdom'I intro: antisym
      split: option.splits if_splits prod.splits)

definition next_sequence :: "coord_state \<Rightarrow> int \<Rightarrow> string \<Rightarrow> int \<Rightarrow> (int \<times> int) option" where
  "next_sequence s pid t p =
     (case fmlookup (producers s) pid of
        None \<Rightarrow> None
      | Some pd \<Rightarrow> map_option (\<lambda>(e, by_topic). (e, entry_or 0 (entry_or fmempty by_topic t) p))
          (last_entry (sequences pd)))"

lemma validate_sequence_result:
  "fst (validate_sequence pid e b d t p s) = Inr () \<longleftrightarrow> next_sequence s pid t p = Some (e, b)"
  by (auto simp: validate_sequence_def next_sequence_def Let_def split: option.splits)

lemma validate_sequence_next:
  "next_sequence (snd (validate_sequence pid e b d t p s)) pid' t' p' =
     (if next_sequence s pid t p = Some (e, b) \<and> (pid', t', p') = (pid, t, p)
      then Some (e, wrap_signed 32 (b + wrap_signed 32 (d + 1)))
      else next_sequence s pid' t' p')"
  by (auto simp: validate_sequence_def next_sequence_def Let_def split: option.splits)

section \<open>Idempotent producers\<close>

record attempt =
  at_producer :: int
  at_epoch :: int
  at_base :: int
  at_delta :: int
  at_topic :: string
  at_partition :: int

fun accepted :: "coord_state \<Rightarrow> attempt list \<Rightarrow> attempt list" where
  "accepted s [] = []"
| "accepted s (a # as) =
     (case validate_sequence (at_producer a) (at_epoch a) (at_base a) (at_delta a)
        (at_topic a) (at_partition a) s of
        (Inl _, s') \<Rightarrow> accepted s' as
      | (Inr _, s') \<Rightarrow> a # accepted s' as)"

fun consecutive :: "int \<Rightarrow> int \<Rightarrow> attempt list \<Rightarrow> bool" where
  "consecutive e q [] \<longleftrightarrow> True"
| "consecutive e q (a # as) \<longleftrightarrow>
     at_epoch a = e \<and> at_base a = q
     \<and> consecutive e (wrap_signed 32 (q + wrap_signed 32 (at_delta a + 1))) as"

text \<open>C16: Idempotent produce is exactly-once per partition.  Run any list of produce attempts, by any
  producers on any partitions, through \<open>validate_sequence\<close>: the attempts accepted for one producer
  and partition all carry the producer's current epoch, the first has the stored sequence as its
  base, and each next base is the previous one plus the previous record count (at 32 bits).  So no
  batch is accepted twice, none is skipped and none is reordered.\<close>

theorem accepted_consecutive:
  assumes "next_sequence s pid t p = Some (e, q)"
  shows "consecutive e q
    (filter (\<lambda>a. (at_producer a, at_topic a, at_partition a) = (pid, t, p)) (accepted s as))"
  using assms
proof (induction as arbitrary: s q)
  case Nil
  then show ?case by simp
next
  case (Cons a as)
  let ?v = "validate_sequence (at_producer a) (at_epoch a) (at_base a) (at_delta a)
        (at_topic a) (at_partition a) s"
  obtain r s' where v: "?v = (r, s')" by (cases ?v)
  note res = validate_sequence_result [of "at_producer a" "at_epoch a" "at_base a" "at_delta a"
        "at_topic a" "at_partition a" s, unfolded v]
  note nxt = validate_sequence_next [of "at_producer a" "at_epoch a" "at_base a" "at_delta a"
        "at_topic a" "at_partition a" s pid t p, unfolded v]
  show ?case
    using res nxt Cons.prems Cons.IH [of s'] by (cases r) (auto simp: v)
qed

section \<open>Overlap\<close>

lemma in_produced_ranges [simp]:
  "(t, p, r) \<in> set (produced_ranges d) \<longleftrightarrow> lookup2 (produces d) t p = Some (Some r)"
  by (auto simp: produced_ranges_def set_map_filter_iff Bex_def)

definition range_of :: "coord_state \<Rightarrow> string \<Rightarrow> int \<Rightarrow> string \<Rightarrow> int \<Rightarrow> txn_produce_offset option" where
  "range_of s tid e t p =
     (case txn_detail_of s tid e of
        None \<Rightarrow> None
      | Some d \<Rightarrow> (case lookup2 (produces d) t p of None \<Rightarrow> None | Some r \<Rightarrow> r))"

lemma in_produced [simp]: "(t, p, r) \<in> set (produced s tid e) \<longleftrightarrow> range_of s tid e t p = Some r"
  by (auto simp: produced_def range_of_def split: option.splits)

lemma fmlookup_candidates [simp]:
  "fmlookup (fmap_of_list (rev (map (\<lambda>(t, p, r). ((t, p), r)) (produced s tid e)))) (t, p) =
     range_of s tid e t p"
  (is "fmlookup (fmap_of_list ?xs) _ = _")
proof -
  have mem: "((t, p), r) \<in> set ?xs \<longleftrightarrow> range_of s tid e t p = Some r" for r
    by (force simp flip: in_produced)
  show ?thesis
  proof (cases "map_of ?xs (t, p)")
    case None
    then have "\<And>r. ((t, p), r) \<notin> set ?xs"
      by (metis map_of_eq_None_iff image_eqI fst_conv)
    then show ?thesis
      using None mem by (cases "range_of s tid e t p") (auto simp: fmlookup_of_list)
  next
    case (Some r)
    then show ?thesis
      using mem [of r] by (auto simp: fmlookup_of_list dest: map_of_SomeD)
  qed
qed

text \<open>The relation the scan computes: epoch \<open>e\<close> of \<open>cid\<close> is unresolved and started below the end of
  the candidate's range on some partition.\<close>

definition starts_below :: "coord_state \<Rightarrow> string \<Rightarrow> int \<Rightarrow> txn_detail \<Rightarrow> bool" where
  "starts_below s tid pe d \<longleftrightarrow>
     (\<exists>t p r q. lookup2 (produces d) t p = Some (Some r) \<and> range_of s tid pe t p = Some q
        \<and> offset_start r < offset_end q)"

definition conflicts :: "coord_state \<Rightarrow> string \<Rightarrow> int \<Rightarrow> int \<Rightarrow> string \<Rightarrow> int \<Rightarrow> bool" where
  "conflicts s tid pid pe cid e \<longleftrightarrow>
     (\<exists>x d. fmlookup (transactions s) cid = Some x \<and> fmlookup (epochs x) e = Some d
        \<and> (cid, producer x, e) \<noteq> (tid, pid, pe) \<and> unresolved d
        \<and> starts_below s tid pe d)"

lemma overlaps_candidates [simp]:
  "overlaps (fmap_of_list (rev (map (\<lambda>(t, p, r). ((t, p), r)) (produced s tid e)))) d \<longleftrightarrow>
     starts_below s tid e d"
  unfolding starts_below_def overlaps_def list_ex_iff by (force split: option.splits)

lemma overlapping_iff:
  "r \<in> set (overlapping_transactions s tid pid pe) \<longleftrightarrow>
     (\<exists>x d. fmlookup (transactions s) (ref_transaction r) = Some x
        \<and> fmlookup (epochs x) (ref_producer_epoch r) = Some d
        \<and> ref_producer_id r = producer x \<and> txn_status d = Some (ref_state r)
        \<and> conflicts s tid pid pe (ref_transaction r) (ref_producer_epoch r)
        \<and> (\<forall>e. conflicts s tid pid pe (ref_transaction r) e \<longrightarrow> ref_producer_epoch r \<le> e))"
  (is "_ \<longleftrightarrow> ?spec")
proof -
  define P where "P cid x = (\<lambda>(e, d).
      \<not> (tid = cid \<and> pid = producer x \<and> pe = e) \<and> unresolved d \<and>
      overlaps (fmap_of_list (rev (map (\<lambda>(t, p, r). ((t, p), r)) (produced s tid pe)))) d)" for cid :: string and x :: txn
  have P: "conflicts s tid pid pe cid e \<longleftrightarrow> (\<exists>d. fmlookup (epochs x) e = Some d \<and> P cid x (e, d))"
    if "fmlookup (transactions s) cid = Some x" for cid x e
    using that by (auto simp: conflicts_def P_def)
  have status: "unresolved d \<Longrightarrow> txn_status d = Some (the (txn_status d))" for d
    by (auto simp: unresolved_def split: option.splits)
  have "r \<in> set (overlapping_transactions s tid pid pe) \<longleftrightarrow>
    (\<exists>x d. fmlookup (transactions s) (ref_transaction r) = Some x
      \<and> find (P (ref_transaction r) x) (entries (epochs x)) = Some (ref_producer_epoch r, d)
      \<and> ref_producer_id r = producer x \<and> the (txn_status d) = ref_state r)"
    by (cases r)
       (auto simp: overlapping_transactions_def Let_def set_map_filter_iff P_def Bex_def)
  also have "\<dots> \<longleftrightarrow> ?spec"
    by (auto simp: find_entries_Some P) (auto simp: P_def dest: status)
  finally show ?thesis .
qed

lemma overlapping_distinct:
  "sorted (map ref_transaction (overlapping_transactions s tid pid pe))"
  "distinct (map ref_transaction (overlapping_transactions s tid pid pe))"
proof -
  have "\<exists>P. map ref_transaction (overlapping_transactions s tid pid pe) =
    map fst (filter P (entries (transactions s)))"
    unfolding overlapping_transactions_def Let_def
    by (rule exI, rule map_key_map_filter) auto
  then show "sorted (map ref_transaction (overlapping_transactions s tid pid pe))"
    "distinct (map ref_transaction (overlapping_transactions s tid pid pe))"
    by (auto simp: sorted_filter distinct_map_filter)
qed

section \<open>Topic configuration\<close>

lemma split_comma_not_Nil [simp]: "split_comma s \<noteq> []"
  by (induction s) (auto split: list.splits)

lemma join_split_comma [simp]: "join_comma (split_comma s) = s"
proof (induction s)
  case Nil
  then show ?case by simp
next
  case (Cons c cs)
  then show ?case
    by (cases "split_comma cs" rule: join_comma.cases) (auto split: list.splits)
qed

lemma split_comma_append: "split_comma (xs @ CHR '','' # ys) = split_comma xs @ split_comma ys"
  by (induction xs) (auto split: list.splits)

lemma split_comma_free [simp]: "CHR '','' \<notin> set w \<Longrightarrow> split_comma w = [w]"
  by (induction w) auto

lemma in_split_comma: "w \<in> set (split_comma s) \<Longrightarrow> CHR '','' \<notin> set w"
  by (induction s arbitrary: w) (auto split: if_splits list.splits)

lemma split_join_comma:
  "ws \<noteq> [] \<Longrightarrow> (\<And>w. w \<in> set ws \<Longrightarrow> CHR '','' \<notin> set w) \<Longrightarrow> split_comma (join_comma ws) = ws"
  by (induction ws rule: join_comma.induct) (auto simp: split_comma_append)

lemma subtract_idem:
  fixes v s
  defines "f \<equiv> \<lambda>s. join_comma (filter (\<lambda>item. item \<noteq> v) (split_comma s))"
  shows "f (f s) = f s"
proof (cases "filter (\<lambda>item. item \<noteq> v) (split_comma s) = []")
  case True
  then show ?thesis by (simp add: f_def)
next
  case False
  then have "split_comma (f s) = filter (\<lambda>item. item \<noteq> v) (split_comma s)"
    unfolding f_def by (intro split_join_comma) (auto dest: in_split_comma)
  then show ?thesis by (simp add: f_def)
qed

lemma append_value_idem:
  "CHR '','' \<notin> set a \<Longrightarrow> append_value a (Some (append_value a e)) = append_value a e"
  by (auto simp: append_value_def split_comma_append split: option.splits)

text \<open>One change acts on the value of its own name.\<close>

definition alter_value_of :: "alterable_config \<Rightarrow> string option option \<Rightarrow> string option option" where
  "alter_value_of change entry =
     (let value = (case alter_value change of None \<Rightarrow> [] | Some v \<Rightarrow> v) in
      case op_type_try_from (config_operation change) of
        Inl _ \<Rightarrow> entry
      | Inr Set \<Rightarrow> Some (alter_value change)
      | Inr Delete \<Rightarrow> None
      | Inr Append \<Rightarrow> Some (append_value value entry)
      | Inr Subtract \<Rightarrow> map_option (map_option
          (\<lambda>current. join_comma (filter (\<lambda>item. item \<noteq> value) (split_comma current)))) entry)"

definition plain_append :: "alterable_config \<Rightarrow> bool" where
  "plain_append change \<longleftrightarrow>
     (config_operation change = 2 \<longrightarrow> CHR '','' \<notin> set (case alter_value change of None \<Rightarrow> [] | Some v \<Rightarrow> v))"

lemma alter_value_of_idem:
  assumes "plain_append change"
  shows "alter_value_of change (alter_value_of change e) = alter_value_of change e"
proof -
  have "Append = x \<Longrightarrow> op_type_try_from (config_operation change) = Inr x \<Longrightarrow> config_operation change = 2" for x
    by (auto simp: op_type_try_from_def split: if_splits)
  then show ?thesis
    using assms
    by (auto simp: alter_value_of_def Let_def plain_append_def append_value_idem subtract_idem
          option.map_comp comp_def split: sum.splits op_type.splits)
qed

lemma fmlookup_alter_config:
  "alter_config change c = Inr c' \<Longrightarrow>
   fmlookup c' n = (if n = alter_name change then alter_value_of change (fmlookup c n) else fmlookup c n)"
  by (auto simp: alter_config_def alter_value_of_def Let_def split: sum.splits op_type.splits)

lemma alter_config_ok:
  "(\<exists>c'. alter_config change c = Inr c') \<longleftrightarrow> (\<exists>x. op_type_try_from (config_operation change) = Inr x)"
  by (auto simp: alter_config_def Let_def split: sum.splits op_type.splits)

lemma fmlookup_alter_configs:
  "alter_configs changes c = Inr c' \<Longrightarrow> distinct (map alter_name changes) \<Longrightarrow>
   fmlookup c' n =
     (case find (\<lambda>ch. alter_name ch = n) changes of
        None \<Rightarrow> fmlookup c n
      | Some ch \<Rightarrow> alter_value_of ch (fmlookup c n))"
proof (induction changes arbitrary: c)
  case Nil
  then show ?case by simp
next
  case (Cons ch chs)
  then obtain c1 where c1: "alter_config ch c = Inr c1" "alter_configs chs c1 = Inr c'"
    by (auto split: sum.splits)
  have none: "find (\<lambda>x. alter_name x = alter_name ch) chs = None"
    using Cons.prems(2) by (auto simp: find_None_iff image_iff)
  show ?case
    using Cons.IH [OF c1(2)] Cons.prems(2) fmlookup_alter_config [OF c1(1), of n] none
    by (cases "n = alter_name ch") (auto split: option.splits)
qed

lemma alter_configs_ok:
  "(\<exists>c'. alter_configs changes c = Inr c') \<longleftrightarrow>
   (\<forall>ch \<in> set changes. \<exists>x. op_type_try_from (config_operation ch) = Inr x)"
proof (induction changes arbitrary: c)
  case Nil
  then show ?case by simp
next
  case (Cons ch chs)
  then show ?case
    using alter_config_ok [of ch c] by (cases "alter_config ch c") auto
qed

lemma alter_configs_idem:
  assumes "alter_configs changes c = Inr c'" and "distinct (map alter_name changes)"
    and "\<forall>ch \<in> set changes. plain_append ch"
  shows "alter_configs changes c' = Inr c'"
proof -
  obtain c2 where c2: "alter_configs changes c' = Inr c2"
    using assms(1) alter_configs_ok by metis
  have "c2 = c'"
  proof (rule fmap_ext)
    fix n
    note eqs = fmlookup_alter_configs [OF c2 assms(2), of n] fmlookup_alter_configs [OF assms(1,2), of n]
    show "fmlookup c2 n = fmlookup c' n"
    proof (cases "find (\<lambda>ch. alter_name ch = n) changes")
      case None
      then show ?thesis using eqs by simp
    next
      case (Some ch)
      then have "ch \<in> set changes"
        by (auto simp: find_Some_iff)
      then show ?thesis using eqs Some assms(3) by (simp add: alter_value_of_idem)
    qed
  qed
  with c2 show ?thesis by simp
qed

lemma alter_topic_idem:
  assumes "distinct (map alter_name changes)" and "\<forall>ch \<in> set changes. plain_append ch"
  shows "snd (alter_topic t changes (snd (alter_topic t changes s))) = snd (alter_topic t changes s)"
  using alter_configs_idem [OF _ assms]
  by (auto simp: alter_topic_def split: option.splits sum.splits)

section \<open>Witness states\<close>

text \<open>Two open transactions on partition \<open>(t, 0)\<close>, and a producer at epoch 1.\<close>

definition two_txns :: coord_state where
  "two_txns = coord_default
     \<lparr>producers := fmap_of_list [(7, \<lparr>sequences = fmap_of_list [(0, fmempty), (1, fmempty)]\<rparr>)],
      transactions := fmap_of_list
        [(''a'', \<lparr>producer = 7, epochs = fmap_of_list [(1, txn_detail_default\<lparr>txn_status := Some PrepareCommit,
            produces := insert2 ''t'' 0 (Some \<lparr>offset_start = 4, offset_end = 9\<rparr>) fmempty\<rparr>)]\<rparr>),
         (''b'', \<lparr>producer = 8, epochs = fmap_of_list [(0, txn_detail_default\<lparr>txn_status := Some Begin,
            produces := insert2 ''t'' 0 (Some \<lparr>offset_start = 2, offset_end = 6\<rparr>) fmempty\<rparr>)]\<rparr>)]\<rparr>"

theorem accepted_consecutive_witness:
  "consecutive 1 0 (filter (\<lambda>a. (at_producer a, at_topic a, at_partition a) = (7, ''t'', 0))
     (accepted two_txns
        [\<lparr>at_producer = 7, at_epoch = 1, at_base = 0, at_delta = 2, at_topic = ''t'', at_partition = 0\<rparr>,
         \<lparr>at_producer = 7, at_epoch = 1, at_base = 3, at_delta = 0, at_topic = ''t'', at_partition = 0\<rparr>]))"
proof -
  have "next_sequence two_txns 7 ''t'' 0 = Some (1, 0)" by code_simp
  from accepted_consecutive [OF this] show ?thesis .
qed

text \<open>C17: \<open>overlapping_transactions\<close> is exact.  It returns, for each transaction that has an
  incarnation other than the candidate which is not resolved (neither committed nor aborted) and
  which started, on some partition, below the end of the candidate's produced range there, one
  reference to its first such epoch, with the state of that epoch; it returns nothing else, and at
  most one reference per transaction, in the order of their ids.\<close>

theorem overlapping_transactions_exact:
  "(r \<in> set (overlapping_transactions s tid pid pe) \<longleftrightarrow>
     (\<exists>x d. fmlookup (transactions s) (ref_transaction r) = Some x
        \<and> fmlookup (epochs x) (ref_producer_epoch r) = Some d
        \<and> ref_producer_id r = producer x \<and> txn_status d = Some (ref_state r)
        \<and> conflicts s tid pid pe (ref_transaction r) (ref_producer_epoch r)
        \<and> (\<forall>e. conflicts s tid pid pe (ref_transaction r) e \<longrightarrow> ref_producer_epoch r \<le> e)))
   \<and> sorted (map ref_transaction (overlapping_transactions s tid pid pe))
   \<and> distinct (map ref_transaction (overlapping_transactions s tid pid pe))"
  using overlapping_iff overlapping_distinct by blast

theorem overlapping_transactions_exact_witness:
  "conflicts two_txns ''a'' 7 1 ''b'' 0"
proof -
  have "\<lparr>ref_transaction = ''b'', ref_producer_id = 8, ref_producer_epoch = 0, ref_state = Begin\<rparr>
    \<in> set (overlapping_transactions two_txns ''a'' 7 1)"
    by code_simp
  then show ?thesis
    using overlapping_transactions_exact
      [of "\<lparr>ref_transaction = ''b'', ref_producer_id = 8, ref_producer_epoch = 0, ref_state = Begin\<rparr>"
        two_txns "''a''" 7 1] by auto
qed

end
