(* ===== verification/Meta_Wal.thy ===== *)
theory Meta_Wal
  imports Frame_Codec Coord_State
begin

text \<open>
  The metadata write-ahead log of \<open>tansu-storage/src/nvme/wal.rs\<close>: the logical records, the
  append of one record to the current file and the replay of a file at boot.  The JSON
  serialisation of a record (\<open>serde_json\<close>) is the pair of parameters \<open>to_json\<close> and \<open>from_json\<close>.
  The file is its byte string.  A write either completes or fails after some bytes have reached
  the file; the parameter \<open>short\<close> of \<open>wal_append_file\<close> is that outcome.
\<close>

section \<open>Records\<close>

text \<open>Consumer group values of \<open>tansu-storage/src/lib.rs\<close> that the records carry.\<close>

record offset_commit_request =
  commit_offset :: int
  commit_leader_epoch :: "int option"
  commit_timestamp :: "system_time option"
  commit_request_metadata :: "string option"

definition offset_commit_default :: offset_commit_request where
  "offset_commit_default = \<lparr>commit_offset = 0, commit_leader_epoch = None, commit_timestamp = None,
     commit_request_metadata = None\<rparr>"

record join_group_response_member =
  member_id :: string
  group_instance_id :: "string option"
  member_metadata :: bytes

record group_member =
  join_response :: join_group_response_member
  last_contact :: "system_time option"

datatype group_state =
    Forming "string option" "string option" "string option"
  | Formed string string string "(string, bytes) fmap"

record group_detail =
  session_timeout_ms :: int
  rebalance_timeout_ms :: "int option"
  members :: "(string, group_member) fmap"
  generation_id :: int
  skip_assignment :: "bool option"
  inception :: system_time
  group_status :: group_state

definition group_detail_default :: "system_time \<Rightarrow> group_detail" where
  "group_detail_default now = \<lparr>session_timeout_ms = 45000, rebalance_timeout_ms = None,
     members = fmempty, generation_id = 0, skip_assignment = Some False, inception = now,
     group_status = Forming None (Some []) None\<rparr>"

record version =
  e_tag :: "string option"
  version_id :: "string option"

datatype wal_record =
    TopicCreate uuid creatable_topic
  | TopicDelete string
  | ConfigAlter string "alterable_config list"
  | PidAlloc int "string option" int
  | EpochBump string int int int
  | TxnBegin string int int system_time "(string \<times> int) list"
  | TxnPrepare string int int bool "(string \<times> int \<times> txn_produce_offset) list"
  | TxnTerminal string int int bool "(string \<times> int \<times> txn_produce_offset) list"
  | TxnOffsets string int int string "(string \<times> int \<times> txn_commit_offset) list"
  | GroupOffsetCommit string "(string \<times> int \<times> offset_commit_request) list"
  | GroupUpdate string group_detail version
  | GroupDelete string
  | ScramUpsert string string bytes int bytes bytes
  | ScramDelete string string
  | LogStartAdvance string int int

section \<open>The file\<close>

record wal_file =
  wal_seq :: nat
  wal_bytes :: bytes
  bytes_since_open :: nat

definition wal_create :: "nat \<Rightarrow> wal_file" where
  "wal_create sq = \<lparr>wal_seq = sq, wal_bytes = [], bytes_since_open = 0\<rparr>"

text \<open>
  \<open>Wal::append\<close>: serialise, frame, write.  \<open>short = Some n\<close> is a \<open>write_all\<close> that fails after
  \<open>n\<close> bytes; those bytes stay in the file and nothing else changes.
\<close>

definition wal_append_file ::
    "crc \<Rightarrow> (wal_record \<Rightarrow> bytes option) \<Rightarrow> nat option \<Rightarrow> wal_record \<Rightarrow> (wal_file, nat) op" where
  "wal_append_file crc to_json short r w =
     (case to_json r of
        None \<Rightarrow> (Inl SerdeJson, w)
      | Some pl \<Rightarrow>
          let framed = encode crc Wal pl in
          (case short of
             Some n \<Rightarrow> (Inl (Message ''nvme wal append''), w\<lparr>wal_bytes := wal_bytes w @ take n framed\<rparr>)
           | None \<Rightarrow> (Inr (length framed),
               w\<lparr>wal_bytes := wal_bytes w @ framed,
                 bytes_since_open := bytes_since_open w + length framed\<rparr>)))"

text \<open>
  \<open>replay\<close>: the records up to the first position that is not a whole WAL frame.  A well-formed
  frame whose payload is not a record is an error of the whole boot.
\<close>

function replay_from ::
    "crc \<Rightarrow> (bytes \<Rightarrow> wal_record option) \<Rightarrow> bytes \<Rightarrow> nat \<Rightarrow> wal_record list \<Rightarrow> error + wal_record list"
  where
  "replay_from crc from_json bs pos acc =
     (if pos < length bs then
        (case decode crc (drop pos bs) of
           Frame f \<Rightarrow>
             if frame_type f = Wal then
               (case from_json (payload f) of
                  None \<Rightarrow> Inl SerdeJson
                | Some r \<Rightarrow> replay_from crc from_json bs (pos + size_on_disk f) (acc @ [r]))
             else Inr acc
         | Torn \<Rightarrow> Inr acc)
      else Inr acc)"
  by pat_completeness auto

termination
proof (relation "measure (\<lambda>(_, _, bs, pos, _). length bs - pos)")
  fix crc :: crc and from_json bs pos acc f r
  assume "pos < length bs"
  then show "((crc, from_json, bs, pos + size_on_disk f, acc @ [r]), crc, from_json, bs, pos, acc)
      \<in> measure (\<lambda>(_, _, bs, pos, _). length bs - pos)"
    by (simp add: size_on_disk_def HEADER_LEN_def)
qed simp

declare replay_from.simps [simp del]

definition replay :: "crc \<Rightarrow> (bytes \<Rightarrow> wal_record option) \<Rightarrow> bytes \<Rightarrow> error + wal_record list" where
  "replay crc from_json bs = replay_from crc from_json bs 0 []"

text \<open>\<open>wal_seqs\<close>: the sequences of the files in the directory, ascending.\<close>

definition wal_seqs :: "(nat, 'f) fmap \<Rightarrow> nat list" where
  "wal_seqs dir = map fst (entries dir)"

section \<open>Replay reads back what was appended\<close>

text \<open>The bytes of one appended record, where the serialiser produces them.\<close>

definition wal_frame :: "crc \<Rightarrow> (wal_record \<Rightarrow> bytes option) \<Rightarrow> wal_record \<Rightarrow> bytes" where
  "wal_frame crc to_json r = (case to_json r of None \<Rightarrow> [] | Some pl \<Rightarrow> encode crc Wal pl)"

text \<open>A record the serialiser round trips, with a payload a 32-bit length holds.\<close>

definition wal_good ::
    "(wal_record \<Rightarrow> bytes option) \<Rightarrow> (bytes \<Rightarrow> wal_record option) \<Rightarrow> wal_record \<Rightarrow> bool" where
  "wal_good to_json from_json r \<longleftrightarrow>
     (case to_json r of None \<Rightarrow> False | Some pl \<Rightarrow> from_json pl = Some r \<and> length pl < 2 ^ 32)"

interpretation wal_scan: frame_scanner "wal_frame crc to_json" "wal_good to_json from_json"
  "replay_from crc from_json" "\<lambda>_ r acc. acc @ [r]" "\<lambda>acc _. Inr acc" "\<lambda>bs. decode crc bs = Torn"
  for crc to_json from_json
proof unfold_locales
  fix r pos bs rest acc
  assume good: "wal_good to_json from_json r"
    and dr: "drop pos bs = wal_frame crc to_json r @ rest"
  from good obtain pl where pl: "to_json r = Some pl" "from_json pl = Some r" "length pl < 2 ^ 32"
    by (auto simp: wal_good_def split: option.splits)
  then have "drop pos bs = encode crc Wal pl @ rest"
    using dr by (simp add: wal_frame_def)
  moreover from this have "pos < length bs"
    by (metis append_is_Nil_conv drop_eq_Nil encode_not_Nil not_le)
  ultimately show "replay_from crc from_json bs pos acc =
      replay_from crc from_json bs (pos + length (wal_frame crc to_json r)) (acc @ [r])"
    using pl by (subst replay_from.simps) (simp add: wal_frame_def size_on_disk_def)
next
  fix r n
  assume "wal_good to_json from_json r" and "n < length (wal_frame crc to_json r)"
  then show "decode crc (take n (wal_frame crc to_json r)) = Torn"
    by (auto simp: wal_good_def wal_frame_def decode_prefix_torn split: option.splits)
qed (subst replay_from.simps, simp)+

lemma wal_adds [simp]: "wal_scan.adds crc to_json pos rs acc = acc @ rs"
  by (induction rs arbitrary: pos acc) auto

text \<open>A run of successful appends.\<close>

fun wal_append_all ::
    "crc \<Rightarrow> (wal_record \<Rightarrow> bytes option) \<Rightarrow> wal_record list \<Rightarrow> (wal_file, unit) op" where
  "wal_append_all crc to_json rs w =
     for_each (\<lambda>r. and_then (wal_append_file crc to_json None r) (\<lambda>_. ok ())) rs w"

lemma wal_append_all_good:
  assumes "\<forall>r \<in> set rs. wal_good to_json from_json r"
  shows "wal_append_all crc to_json rs w =
    (Inr (), w\<lparr>wal_bytes := wal_bytes w @ concat (map (wal_frame crc to_json) rs),
      bytes_since_open := bytes_since_open w + length (concat (map (wal_frame crc to_json) rs))\<rparr>)"
  using assms
proof (induction rs arbitrary: w)
  case Nil
  then show ?case by simp
next
  case (Cons r rs)
  then obtain pl where "to_json r = Some pl"
    by (auto simp: wal_good_def split: option.splits)
  with Cons show ?case
    by (simp add: wal_append_file_def wal_frame_def Let_def)
qed

text \<open>C12: Every WAL record that was acknowledged survives a crash.  Append \<open>rs\<close> to a fresh WAL file and
  let the crash keep any number \<open>n\<close> of bytes that covers the first \<open>k\<close> appends (what the flusher
  has synced when the \<open>k\<close>-th ack is sent): replay succeeds and yields a prefix of \<open>rs\<close>, in append
  order, that has at least those \<open>k\<close> records.\<close>

theorem wal_recovers_acked:
  assumes "\<forall>r \<in> set rs. wal_good to_json from_json r" and "k \<le> length rs"
    and "bytes_since_open (snd (wal_append_all crc to_json (take k rs) (wal_create sq))) \<le> n"
  shows "\<exists>m. k \<le> m \<and> m \<le> length rs \<and>
    replay crc from_json (take n (wal_bytes (snd (wal_append_all crc to_json rs (wal_create sq)))))
      = Inr (take m rs)"
proof -
  let ?m = "wal_scan.whole crc to_json n rs"
  have "\<forall>r \<in> set (take k rs). wal_good to_json from_json r"
    using assms(1) by (meson in_set_takeD)
  note app = wal_append_all_good [OF this, where crc = crc and w = "wal_create sq"]
    wal_append_all_good [OF assms(1), where crc = crc and w = "wal_create sq"]
  have "k \<le> ?m"
    using assms(2,3) app(1) by (intro wal_scan.whole_ge) (simp_all add: wal_create_def)
  moreover have "replay crc from_json (take n (concat (map (wal_frame crc to_json) rs))) = Inr (take ?m rs)"
    using wal_scan.scan_crash [OF assms(1), where crc = crc and n = n and acc = "[]"]
    by (simp add: replay_def)
  ultimately show ?thesis
    using wal_scan.whole_le app(2) by (auto simp: wal_create_def)
qed

lemma hd_wal_frames:
  "concat (map (wal_frame crc to_json) rs) = [] \<or> hd (concat (map (wal_frame crc to_json) rs)) = MAGIC"
  by (induction rs) (auto simp: wal_frame_def encode_def Let_def split: option.splits)

text \<open>C13: A failed append poisons the rest of the file.  If a \<open>write_all\<close> fails after its first byte
  the byte stays in the file, the WAL goes on appending behind it, and every later append succeeds
  and is acknowledged; but replay stops at the stray byte and returns only the records appended
  before the failure.\<close>

theorem wal_partial_append_loses_later:
  assumes "\<forall>r \<in> set (before @ after). wal_good to_json from_json r" and "wal_good to_json from_json r"
    and "w1 = snd (wal_append_all crc to_json before (wal_create sq))"
    and "w2 = snd (wal_append_file crc to_json (Some 1) r w1)"
  shows "fst (wal_append_all crc to_json after w2) = Inr ()
    \<and> replay crc from_json (wal_bytes (snd (wal_append_all crc to_json after w2))) = Inr before"
proof -
  obtain pl where pl: "to_json r = Some pl"
    using assms(2) by (auto simp: wal_good_def split: option.splits)
  have good: "\<forall>r \<in> set before. wal_good to_json from_json r" "\<forall>r \<in> set after. wal_good to_json from_json r"
    using assms(1) by auto
  have acks: "fst (wal_append_all crc to_json after w2) = Inr ()"
    by (simp only: wal_append_all_good [OF good(2)] fst_conv)
  have "take 1 (encode crc Wal pl) = [MAGIC]"
    by (simp add: encode_def Let_def)
  then have bytes: "wal_bytes (snd (wal_append_all crc to_json after w2)) =
    concat (map (wal_frame crc to_json) before) @ MAGIC # concat (map (wal_frame crc to_json) after)"
    using wal_append_all_good [OF good(1), where crc = crc and w = "wal_create sq"]
    unfolding wal_append_all_good [OF good(2)] assms(3,4)
    by (simp add: wal_append_file_def pl Let_def wal_create_def)
  have "replay crc from_json (wal_bytes (snd (wal_append_all crc to_json after w2))) = Inr before"
    using wal_scan.scan_file [OF good(1), where crc = crc and acc = "[]"
        and tail = "MAGIC # concat (map (wal_frame crc to_json) after)"]
    unfolding bytes replay_def
    by (simp add: decode_stray_magic [OF hd_wal_frames])
  with acks show ?thesis by blast
qed

text \<open>A serialiser for the witnesses: it round trips the two records they use.\<close>

definition tiny_json :: "wal_record \<Rightarrow> bytes option" where
  "tiny_json r = (case r of GroupDelete g \<Rightarrow> Some [1] | TopicDelete t \<Rightarrow> Some [2] | _ \<Rightarrow> None)"

definition tiny_parse :: "bytes \<Rightarrow> wal_record option" where
  "tiny_parse bs = (if bs = [1] then Some (GroupDelete ''g'') else if bs = [2] then Some (TopicDelete ''t'')
     else None)"

lemma tiny_good [simp]:
  "wal_good tiny_json tiny_parse (GroupDelete ''g'')" "wal_good tiny_json tiny_parse (TopicDelete ''t'')"
  by (simp_all add: wal_good_def tiny_json_def tiny_parse_def)

theorem wal_recovers_acked_witness:
  "\<exists>m. 1 \<le> m \<and> m \<le> 2 \<and>
     replay (\<lambda>_. 0) tiny_parse (take 20
       (wal_bytes (snd (wal_append_all (\<lambda>_. 0) tiny_json [GroupDelete ''g'', TopicDelete ''t''] (wal_create 3)))))
     = Inr (take m [GroupDelete ''g'', TopicDelete ''t''])"
  using wal_recovers_acked [of "[GroupDelete ''g'', TopicDelete ''t'']" tiny_json tiny_parse 1 "\<lambda>_. 0" 3 20]
  by (simp add: wal_append_file_def tiny_json_def wal_create_def HEADER_LEN_def numeral_2_eq_2)

theorem wal_partial_append_witness:
  "replay (\<lambda>_. 0) tiny_parse (wal_bytes (snd (wal_append_all (\<lambda>_. 0) tiny_json [TopicDelete ''t'']
     (snd (wal_append_file (\<lambda>_. 0) tiny_json (Some 1) (TopicDelete ''t'')
        (snd (wal_append_all (\<lambda>_. 0) tiny_json [GroupDelete ''g''] (wal_create 3)))))))) = Inr [GroupDelete ''g'']"
  using wal_partial_append_loses_later [of "[GroupDelete ''g'']" "[TopicDelete ''t'']" tiny_json tiny_parse
      "TopicDelete ''t''" _ "\<lambda>_. 0" 3]
  by simp

end
