(* ===== verification/Seg_Log.thy ===== *)
theory Seg_Log
  imports Frame_Codec
begin

text \<open>
  The segment files of \<open>tansu-storage/src/nvme/log.rs\<close>: batch frames, the active segment's writer,
  the scan that recovers a segment after a crash, the truncation of its torn tail and the
  positioned read of one batch.  A file is its byte string; \<open>created_at\<close>, the file handle and the
  flusher handle of the writer are modelled where they are used (\<open>Group_Commit\<close>).
\<close>

definition encode_batch :: "crc \<Rightarrow> int \<Rightarrow> bytes \<Rightarrow> bytes" where
  "encode_batch crc base_offset batch = encode crc Batch (to_le 8 base_offset @ batch)"

record segment_writer =
  writer_base :: int
  writer_position :: nat
  writer_created_at :: int

text \<open>\<open>SegmentWriter::create\<close>: \<open>create_new\<close> refuses a file that exists.\<close>

definition segment_create ::
    "int \<Rightarrow> int \<Rightarrow> (int, bytes) fmap \<Rightarrow> error + segment_writer \<times> (int, bytes) fmap" where
  "segment_create now base_offset dir =
     (if fmlookup dir base_offset \<noteq> None then Inl (Message ''nvme segment create'')
      else Inr (\<lparr>writer_base = base_offset, writer_position = 0, writer_created_at = now\<rparr>,
                fmupd base_offset [] dir))"

text \<open>
  \<open>SegmentWriter::append\<close> on the writer and its file.  \<open>short = Some n\<close> is a write that fails
  after \<open>n\<close> bytes: the bytes stay in the file and the position is not advanced.
\<close>

definition segment_append ::
    "nat option \<Rightarrow> bytes \<Rightarrow> (segment_writer \<times> bytes, nat) op" where
  "segment_append short framed =
     (\<lambda>(w, file).
        case short of
          Some n \<Rightarrow> (Inl (Message ''nvme segment append''), (w, file @ take n framed))
        | None \<Rightarrow> (Inr (writer_position w),
            (w\<lparr>writer_position := writer_position w + length framed\<rparr>, file @ framed)))"

record scanned_batch =
  base_offset :: int
  file_position :: nat
  scanned_len :: nat
  batch :: bytes

function scan_segment_from ::
    "crc \<Rightarrow> bytes \<Rightarrow> nat \<Rightarrow> scanned_batch list \<Rightarrow> scanned_batch list \<times> nat" where
  "scan_segment_from crc bs pos acc =
     (if pos < length bs then
        (case decode crc (drop pos bs) of
           Frame f \<Rightarrow>
             if frame_type f = Batch then
               if length (payload f) < 8 then (acc, pos)
               else scan_segment_from crc bs (pos + size_on_disk f)
                 (acc @ [\<lparr>base_offset = get_signed_le 8 (payload f), file_position = pos,
                    scanned_len = size_on_disk f, batch = drop 8 (payload f)\<rparr>])
             else (acc, pos)
         | Torn \<Rightarrow> (acc, pos))
      else (acc, pos))"
  by pat_completeness auto

termination
  by (relation "measure (\<lambda>(_, bs, pos, _). length bs - pos)")
     (auto simp: size_on_disk_def HEADER_LEN_def)

declare scan_segment_from.simps [simp del]

definition scan_segment :: "crc \<Rightarrow> bytes \<Rightarrow> scanned_batch list \<times> nat" where
  "scan_segment crc bs = scan_segment_from crc bs 0 []"

definition truncate_to :: "nat \<Rightarrow> bytes \<Rightarrow> bytes" where
  "truncate_to valid_len file = take valid_len file"

definition read_batch_at :: "crc \<Rightarrow> bytes \<Rightarrow> nat \<Rightarrow> nat \<Rightarrow> error + bytes" where
  "read_batch_at crc file pos len =
     (if length file < pos + len then Inl (Message ''nvme segment pread'')
      else (case decode crc (take len (drop pos file)) of
          Frame f \<Rightarrow>
            if frame_type f = Batch then
              if length (payload f) < 8 then Inl (Message ''nvme segment pread: short payload'')
              else Inr (drop 8 (payload f))
            else Inl (Message ''nvme segment pread: bad frame at'')
        | Torn \<Rightarrow> Inl (Message ''nvme segment pread: bad frame at'')))"

definition segment_bases :: "(int, 'f) fmap \<Rightarrow> int list" where
  "segment_bases dir = map fst (entries dir)"

section \<open>A scan recovers what was appended\<close>

text \<open>A batch is a base offset an \<open>i64\<close> holds and bytes whose frame a 32-bit length holds.\<close>

definition seg_good :: "int \<times> bytes \<Rightarrow> bool" where
  "seg_good = (\<lambda>(base, b). fits_signed 64 base \<and> length b + 8 < 2 ^ 32)"

abbreviation seg_frame :: "crc \<Rightarrow> int \<times> bytes \<Rightarrow> bytes" where
  "seg_frame crc \<equiv> \<lambda>(base, b). encode_batch crc base b"

definition seg_entry :: "crc \<Rightarrow> nat \<Rightarrow> int \<times> bytes \<Rightarrow> scanned_batch" where
  "seg_entry crc pos = (\<lambda>(base, b). \<lparr>base_offset = base, file_position = pos,
     scanned_len = length (encode_batch crc base b), batch = b\<rparr>)"

lemma encode_batch_not_Nil [simp]: "encode_batch crc base b \<noteq> []"
  by (simp add: encode_batch_def)

lemma decode_encode_batch:
  assumes "seg_good (base, b)"
  shows "decode crc (encode_batch crc base b @ rest) =
    Frame \<lparr>frame_type = Batch, payload = to_le 8 base @ b\<rparr>"
  using assms by (simp add: seg_good_def encode_batch_def add.commute)

interpretation seg_scan: frame_scanner "seg_frame crc" seg_good
  "scan_segment_from crc" "\<lambda>pos r acc. acc @ [seg_entry crc pos r]" Pair "\<lambda>bs. decode crc bs = Torn"
  for crc
proof unfold_locales
  fix r pos bs rest acc
  assume good: "seg_good r" and dr: "drop pos bs = seg_frame crc r @ rest"
  obtain base b where r: "r = (base, b)" by (cases r)
  have "pos < length bs"
    using dr r by (metis append_is_Nil_conv case_prod_conv drop_eq_Nil encode_batch_not_Nil not_le)
  then show "scan_segment_from crc bs pos acc =
      scan_segment_from crc bs (pos + length (seg_frame crc r)) (acc @ [seg_entry crc pos r])"
    using good dr unfolding r
    by (subst scan_segment_from.simps)
       (simp add: decode_encode_batch size_on_disk_def encode_batch_def seg_entry_def seg_good_def)
next
  fix r n
  assume "seg_good r" and "n < length (seg_frame crc r)"
  then show "decode crc (take n (seg_frame crc r)) = Torn"
    by (cases r) (auto simp: seg_good_def encode_batch_def intro!: decode_prefix_torn)
qed (subst scan_segment_from.simps, simp)+

lemma scan_segment_from_step:
  "scan_segment_from crc bs pos acc =
     (if pos < length bs then
        (case decode crc (drop pos bs) of
           Frame f \<Rightarrow>
             if frame_type f = Batch \<and> 8 \<le> length (payload f) then
               scan_segment_from crc bs (pos + size_on_disk f)
                 (acc @ [\<lparr>base_offset = get_signed_le 8 (payload f), file_position = pos,
                    scanned_len = size_on_disk f, batch = drop 8 (payload f)\<rparr>])
             else (acc, pos)
         | Torn \<Rightarrow> (acc, pos))
      else (acc, pos))"
  by (subst scan_segment_from.simps) (auto split: decoded.splits)

lemma scan_segment_from_valid:
  assumes "scan_segment_from crc bs pos acc = (xs, v)" and "pos \<le> length bs"
    and "\<forall>x \<in> set acc. file_position x + scanned_len x \<le> pos \<and>
       read_batch_at crc bs (file_position x) (scanned_len x) = Inr (batch x)"
  shows "pos \<le> v \<and> v \<le> length bs \<and>
    (\<forall>x \<in> set xs. file_position x + scanned_len x \<le> v \<and>
       read_batch_at crc bs (file_position x) (scanned_len x) = Inr (batch x))"
  using assms
proof (induction crc bs pos acc rule: scan_segment_from.induct)
  case (1 crc bs pos acc)
  show ?case
  proof (cases "decode crc (drop pos bs)")
    case Torn
    then show ?thesis using "1.prems" by (subst (asm) (1) scan_segment_from_step) (auto split: if_splits)
  next
    case (Frame f)
    show ?thesis
    proof (cases "pos < length bs \<and> frame_type f = Batch \<and> 8 \<le> length (payload f)")
      case False
      then show ?thesis using "1.prems" Frame
        by (subst (asm) (1) scan_segment_from_step) (auto split: if_splits)
    next
      case True
      have sz: "pos + size_on_disk f \<le> length bs"
        using decode_Frame_size [OF Frame] True by (simp add: le_diff_conv2 add.commute)
      have "read_batch_at crc bs pos (size_on_disk f) = Inr (drop 8 (payload f))"
        using sz True decode_take [OF Frame order_refl] by (simp add: read_batch_at_def)
      moreover have "\<forall>x \<in> set acc. file_position x + scanned_len x \<le> pos + size_on_disk f"
        using "1.prems"(3) by (auto intro: trans_le_add1)
      ultimately have "pos + size_on_disk f \<le> v \<and> v \<le> length bs \<and>
        (\<forall>x \<in> set xs. file_position x + scanned_len x \<le> v \<and>
           read_batch_at crc bs (file_position x) (scanned_len x) = Inr (batch x))"
        using True Frame sz "1.prems"
        by (intro "1.IH" [OF _ Frame])
           (auto simp: scan_segment_from_step [of crc bs pos acc])
      then show ?thesis by auto
    qed
  qed
qed

lemma scan_segment_from_ge: "scan_segment_from crc bs pos acc = (xs, v) \<Longrightarrow> pos \<le> v"
proof (induction crc bs pos acc rule: scan_segment_from.induct)
  case (1 crc bs pos acc)
  note step = "1.prems" [unfolded scan_segment_from_step [of crc bs pos acc]]
  show ?case
    using step "1.IH" by (fastforce split: if_splits decoded.splits)
qed

lemma scan_segment_from_truncate:
  "scan_segment_from crc bs pos acc = (xs, v) \<Longrightarrow> scan_segment_from crc (take v bs) pos acc = (xs, v)"
proof (induction crc bs pos acc rule: scan_segment_from.induct)
  case (1 crc bs pos acc)
  show ?case
  proof (cases "\<exists>f. pos < length bs \<and> decode crc (drop pos bs) = Frame f \<and>
      frame_type f = Batch \<and> 8 \<le> length (payload f)")
    case False
    then have "xs = acc \<and> v = pos"
      using "1.prems" by (subst (asm) scan_segment_from_step) (auto split: if_splits decoded.splits)
    then show ?thesis by (subst scan_segment_from_step) simp
  next
    case True
    then obtain f where f: "pos < length bs" "decode crc (drop pos bs) = Frame f"
      "frame_type f = Batch" "8 \<le> length (payload f)" by blast
    then have rest: "scan_segment_from crc bs (pos + size_on_disk f)
        (acc @ [\<lparr>base_offset = get_signed_le 8 (payload f), file_position = pos,
           scanned_len = size_on_disk f, batch = drop 8 (payload f)\<rparr>]) = (xs, v)"
      using "1.prems" by (subst (asm) scan_segment_from_step) simp
    then have v: "pos + size_on_disk f \<le> v" by (rule scan_segment_from_ge)
    then have "decode crc (drop pos (take v bs)) = Frame f"
      using decode_take [OF f(2), of "v - pos"] by (simp add: drop_take)
    moreover have "pos < length (take v bs)"
      using f(1) v size_on_disk_pos [of f] by (simp del: size_on_disk_pos)
    ultimately show ?thesis
      using f "1.IH" [OF f(1,2)] rest by (subst scan_segment_from_step) simp
  qed
qed




text \<open>The batches of a file with the positions they were appended at.\<close>

fun located :: "crc \<Rightarrow> nat \<Rightarrow> (int \<times> bytes) list \<Rightarrow> scanned_batch list" where
  "located crc pos [] = []"
| "located crc pos (r # rs) = seg_entry crc pos r # located crc (pos + length (seg_frame crc r)) rs"

lemma seg_adds [simp]: "seg_scan.adds crc pos rs acc = acc @ located crc pos rs"
  by (induction rs arbitrary: pos acc) auto

fun segment_append_all ::
    "crc \<Rightarrow> (int \<times> bytes) list \<Rightarrow> (segment_writer \<times> bytes, unit) op" where
  "segment_append_all crc rs w =
     for_each (\<lambda>r. and_then (segment_append None (seg_frame crc r)) (\<lambda>_. ok ())) rs w"

lemma segment_append_all_bytes:
  "segment_append_all crc rs (w, fl) =
    (Inr (), w\<lparr>writer_position := writer_position w + length (concat (map (seg_frame crc) rs))\<rparr>,
      fl @ concat (map (seg_frame crc) rs))"
  by (induction rs arbitrary: w fl) (auto simp: segment_append_def)

text \<open>C14: Acknowledged batches survive a crash.  Append the batches \<open>rs\<close> to a fresh segment and let the
  crash keep any \<open>n\<close> bytes of the file that cover the first \<open>k\<close> appends: the recovery scan reports
  a prefix of \<open>rs\<close> with at least those \<open>k\<close> batches, with their base offsets, bytes and positions,
  and a valid length that ends at the last of them.\<close>

theorem segment_recovers_acked:
  assumes "\<forall>r \<in> set rs. seg_good r" and "k \<le> length rs"
    and "segment_append_all crc (take k rs) (w, []) = (Inr (), w1, synced)" and "length synced \<le> n"
    and "segment_append_all crc rs (w, []) = (Inr (), w2, written)"
  shows "\<exists>m. k \<le> m \<and> m \<le> length rs \<and>
    scan_segment crc (take n written) =
      (located crc 0 (take m rs), length (concat (map (seg_frame crc) (take m rs))))"
proof -
  have "synced = concat (map (seg_frame crc) (take k rs))" "written = concat (map (seg_frame crc) rs)"
    using assms(3,5) unfolding segment_append_all_bytes by auto
  moreover from this have "k \<le> seg_scan.whole crc n rs"
    using assms(2,4) by (intro seg_scan.whole_ge) simp_all
  ultimately show ?thesis
    using seg_scan.whole_le seg_scan.scan_crash [OF assms(1), of crc n "[]"]
    by (auto simp: scan_segment_def)
qed

theorem segment_recovers_acked_witness:
  "\<exists>m. 1 \<le> m \<and> m \<le> Suc 1 \<and>
     scan_segment (\<lambda>_. 0) (take 30 (encode_batch (\<lambda>_. 0) 0 [9] @ encode_batch (\<lambda>_. 0) 1 [8]))
       = (located (\<lambda>_. 0) 0 (take m [(0, [9]), (1, [8])]),
          length (concat (map (seg_frame (\<lambda>_. 0)) (take m [(0, [9]), (1, [8])]))))"
  using segment_recovers_acked [of "[(0, [9]), (1, [8])]" 1 "\<lambda>_. 0"
      "\<lparr>writer_base = 0, writer_position = 0, writer_created_at = 0\<rparr>" _ _ 30,
      OF _ _ segment_append_all_bytes _ segment_append_all_bytes]
  by (simp add: seg_good_def fits_signed_def encode_batch_def HEADER_LEN_def)

end
