(* ===== verification/Partition_State.thy ===== *)
theory Partition_State
  imports Seg_Log
begin

text \<open>
  One partition's log state, \<open>tansu-storage/src/nvme/partition.rs\<close>: the batch index, the offsets
  that delimit the log, the open transactions that hold the last stable offset back, the aborted
  ranges, the active segment and the tail cache.  The partition's directory is the finite map
  \<open>files\<close> from segment base to file contents; a read handle is the base of the segment it is open on.
  Offsets are \<^typ>\<open>int\<close>: an \<open>i64\<close> offset does not overflow in the life of a partition.
\<close>

type_synonym open_txn_key = "string \<times> int \<times> int"

record batch_entry =
  entry_segment :: int
  entry_position :: nat
  entry_len :: nat
  entry_tiered :: bool
  entry_cached :: "bytes option"
  entry_delta :: int
  entry_max_timestamp :: int
  entry_control :: bool
  entry_transactional :: bool
  entry_producer :: int
  entry_epoch :: int
  entry_sequence :: int

record aborted_range =
  aborted_producer :: int
  aborted_start :: int
  aborted_end :: int

record partition_inner =
  files :: "(int, bytes) fmap"
  log_start :: int
  next_offset :: int
  durable_offset :: int
  batches :: "(int, batch_entry) fmap"
  open_txns :: "(open_txn_key, int) fmap"
  aborted :: "aborted_range list"
  seg_writer :: "segment_writer option"
  uploaded :: "int fset"
  read_files :: "int fset"
  cache_queue :: "int list"
  cached_bytes :: nat

definition partition_new :: partition_inner where
  "partition_new = \<lparr>files = fmempty, log_start = 0, next_offset = 0, durable_offset = 0,
     batches = fmempty, open_txns = fmempty, aborted = [], seg_writer = None, uploaded = {||},
     read_files = {||}, cache_queue = [], cached_bytes = 0\<rparr>"

definition high_watermark :: "partition_inner \<Rightarrow> int" where
  "high_watermark s = durable_offset s"

definition last_stable :: "partition_inner \<Rightarrow> int" where
  "last_stable s =
     (case map snd (entries (open_txns s)) of
        [] \<Rightarrow> min (durable_offset s) (durable_offset s)
      | v # vs \<Rightarrow> min (fold min vs v) (durable_offset s))"

text \<open>The eviction loop of \<open>index\<close>: oldest first, until the cache fits its budget.\<close>

fun evict_cache ::
    "nat \<Rightarrow> int list \<Rightarrow> (int, batch_entry) fmap \<Rightarrow> nat \<Rightarrow> int list \<times> (int, batch_entry) fmap \<times> nat" where
  "evict_cache budget [] bs held = ([], bs, held)"
| "evict_cache budget (oldest # queue) bs held =
     (if held > budget then
        (case fmlookup bs oldest of
           None \<Rightarrow> evict_cache budget queue bs held
         | Some e \<Rightarrow>
             (case entry_cached e of
                None \<Rightarrow> evict_cache budget queue bs held
              | Some bytes \<Rightarrow>
                  evict_cache budget queue (fmupd oldest (e\<lparr>entry_cached := None\<rparr>) bs) (held - length bytes)))
      else (oldest # queue, bs, held))"

definition index_batch :: "int \<Rightarrow> batch_entry \<Rightarrow> nat \<Rightarrow> partition_inner \<Rightarrow> partition_inner" where
  "index_batch offset entry budget s =
     (let held = (case entry_cached entry of None \<Rightarrow> cached_bytes s
                   | Some bytes \<Rightarrow> cached_bytes s + length bytes);
          queue = (case entry_cached entry of None \<Rightarrow> cache_queue s
                   | Some _ \<Rightarrow> cache_queue s @ [offset]);
          (queue', bs', held') = evict_cache budget queue (fmupd offset entry (batches s)) held
      in s\<lparr>batches := bs', cache_queue := queue', cached_bytes := held'\<rparr>)"

definition read_handle :: "int \<Rightarrow> (partition_inner, int) op" where
  "read_handle base s =
     (if (case seg_writer s of Some w \<Rightarrow> writer_base w = base | None \<Rightarrow> False) then (Inr base, s)
      else if base |\<in>| read_files s then (Inr base, s)
      else if fmlookup (files s) base = None then (Inl (Message ''nvme open''), s)
      else (Inr base, s\<lparr>read_files := finsert base (read_files s)\<rparr>))"

text \<open>
  \<open>advance_log_start\<close>.  \<open>clamp\<close> panics when its bounds are crossed; \<open>None\<close> is that panic.
\<close>

definition entry_end :: "int \<Rightarrow> batch_entry \<Rightarrow> int" where
  "entry_end base e = base + entry_delta e"

definition cached_len :: "batch_entry \<Rightarrow> nat" where
  "cached_len e = (case entry_cached e of None \<Rightarrow> 0 | Some b \<Rightarrow> length b)"

definition advance_log_start :: "int \<Rightarrow> partition_inner \<Rightarrow> (int \<times> partition_inner) option" where
  "advance_log_start offset s =
     (if log_start s > high_watermark s then None
      else
        let clamped = max (log_start s) (min offset (high_watermark s));
            keep = fmfilter (\<lambda>base. base \<ge> clamped) (batches s);
            below = entries (fmfilter (\<lambda>base. base < clamped) (batches s));
            straddling = filter (\<lambda>(base, e). entry_end base e \<ge> clamped) below;
            held = fold (\<lambda>(base, e) held.
                if entry_cached e \<noteq> None \<and> entry_end base e < clamped then held - cached_len e else held)
              below (cached_bytes s)
        in Some (clamped,
             s\<lparr>log_start := clamped, batches := fold (\<lambda>(base, e). fmupd base e) straddling keep,
               cached_bytes := held,
               aborted := filter (\<lambda>r. aborted_end r \<ge> clamped) (aborted s)\<rparr>))"

section \<open>Lemmas\<close>

text \<open>The bytes the index holds in memory.\<close>

definition cached_total :: "(int, batch_entry) fmap \<Rightarrow> nat" where
  "cached_total bs = (\<Sum>(_, e) \<in> set (entries bs). cached_len e)"

lemma cached_total_alt:
  "cached_total bs = (\<Sum>b \<in> fmdom' bs. case fmlookup bs b of None \<Rightarrow> 0 | Some e \<Rightarrow> cached_len e)"
proof -
  have "inj_on fst (set (entries bs))"
    by (auto simp: inj_on_def)
  then have "sum f (fmdom' bs) = (\<Sum>x \<in> set (entries bs). f (fst x))" for f :: "int \<Rightarrow> nat"
    using sum.reindex [of fst "set (entries bs)" f] by simp
  then show ?thesis
    unfolding cached_total_def by (auto intro: sum.cong)
qed

lemma cached_total_upd:
  "cached_total (fmupd b e bs) + (case fmlookup bs b of None \<Rightarrow> 0 | Some e' \<Rightarrow> cached_len e') =
   cached_total bs + cached_len e"
proof -
  let ?f = "\<lambda>m b. case fmlookup m b of None \<Rightarrow> 0 | Some e \<Rightarrow> cached_len e"
  have rest: "sum (?f (fmupd b e bs)) (fmdom' bs - {b}) = sum (?f bs) (fmdom' bs - {b})"
    by (rule sum.cong) auto
  have "sum (?f (fmupd b e bs)) (fmdom' (fmupd b e bs)) = cached_len e + sum (?f bs) (fmdom' bs - {b})"
    using rest sum.insert_remove [of "fmdom' bs" "?f (fmupd b e bs)" b] by simp
  moreover have "sum (?f bs) (fmdom' bs) = ?f bs b + sum (?f bs) (fmdom' bs - {b})"
  proof (cases "b \<in> fmdom' bs")
    case True
    then show ?thesis by (simp add: sum.remove)
  next
    case False
    then show ?thesis by (simp add: fmdom'_notD)
  qed
  ultimately show ?thesis by (simp add: cached_total_alt)
qed

lemma cached_total_ge: "fmlookup bs b = Some e \<Longrightarrow> cached_len e \<le> cached_total bs"
  using cached_total_upd [of b "e\<lparr>entry_cached := None\<rparr>" bs] by (simp add: cached_len_def)

text \<open>The accounting invariant of the tail cache: every entry that holds bytes is queued, and
  \<open>cached_bytes\<close> is their sum, so the unsigned subtractions never underflow.\<close>

definition cache_ok :: "int list \<Rightarrow> (int, batch_entry) fmap \<Rightarrow> nat \<Rightarrow> bool" where
  "cache_ok queue bs held \<longleftrightarrow> held = cached_total bs \<and>
     (\<forall>b e. fmlookup bs b = Some e \<and> entry_cached e \<noteq> None \<longrightarrow> b \<in> set queue)"

lemma cache_ok_Nil: "cache_ok [] bs held \<Longrightarrow> held = 0"
  by (auto simp: cache_ok_def cached_total_def cached_len_def intro!: sum.neutral split: option.splits)

lemma evict_cache_ok:
  assumes "cache_ok queue bs held" and "evict_cache budget queue bs held = (queue', bs', held')"
  shows "cache_ok queue' bs' held' \<and> held' \<le> budget"
  using assms
proof (induction budget queue bs held rule: evict_cache.induct)
  case (1 budget bs held)
  then show ?case using cache_ok_Nil [of bs held] by simp
next
  case (2 budget oldest queue bs held)
  show ?case
  proof (cases "held > budget")
    case False
    then show ?thesis using "2.prems" by simp
  next
    case True
    show ?thesis
    proof (cases "\<exists>e b. fmlookup bs oldest = Some e \<and> entry_cached e = Some b")
      case False
      then have "cache_ok queue bs held"
        using "2.prems"(1) by (fastforce simp: cache_ok_def)
      then show ?thesis
        using "2.IH" True False "2.prems"(2) by (auto split: option.splits)
    next
      case e: True
      then obtain e b where e: "fmlookup bs oldest = Some e" "entry_cached e = Some b" by blast
      have "cached_total (fmupd oldest (e\<lparr>entry_cached := None\<rparr>) bs) + length b = cached_total bs"
        using cached_total_upd [of oldest "e\<lparr>entry_cached := None\<rparr>" bs] e by (simp add: cached_len_def)
      then have "cache_ok queue (fmupd oldest (e\<lparr>entry_cached := None\<rparr>) bs) (held - length b)"
        using "2.prems"(1) by (auto simp: cache_ok_def split: if_splits)
      then show ?thesis
        using "2.IH"(3) [OF True e] True e "2.prems"(2) by simp
    qed
  qed
qed

text \<open>Eviction drops bytes from the index and nothing else.\<close>

definition uncached :: "batch_entry \<Rightarrow> batch_entry" where
  "uncached e = e\<lparr>entry_cached := None\<rparr>"

lemma evict_cache_index:
  "evict_cache budget queue bs held = (queue', bs', held') \<Longrightarrow> fmmap uncached bs' = fmmap uncached bs"
proof (induction budget queue bs held rule: evict_cache.induct)
  case (2 budget oldest queue bs held)
  have "fmmap uncached (fmupd oldest (e\<lparr>entry_cached := None\<rparr>) bs) = fmmap uncached bs"
    if "fmlookup bs oldest = Some e" for e
    using that by (intro fmap_ext) (auto simp: uncached_def)
  with 2 show ?case by (auto split: if_splits option.splits)
qed simp


section \<open>The partition invariant\<close>

definition offsets_ok :: "partition_inner \<Rightarrow> bool" where
  "offsets_ok s \<longleftrightarrow> 0 \<le> log_start s \<and> log_start s \<le> durable_offset s \<and> durable_offset s \<le> next_offset s"

definition batches_ok :: "partition_inner \<Rightarrow> bool" where
  "batches_ok s \<longleftrightarrow>
     (\<forall>b e. fmlookup (batches s) b = Some e \<longrightarrow>
        0 \<le> entry_delta e \<and> log_start s \<le> entry_end b e \<and> entry_end b e < next_offset s) \<and>
     (\<forall>b b' e e'. fmlookup (batches s) b = Some e \<and> fmlookup (batches s) b' = Some e' \<and> b < b'
        \<longrightarrow> entry_end b e < b')"

definition open_ok :: "partition_inner \<Rightarrow> bool" where
  "open_ok s \<longleftrightarrow> (\<forall>k v. fmlookup (open_txns s) k = Some v \<longrightarrow> v < next_offset s)"

definition part_inv :: "partition_inner \<Rightarrow> bool" where
  "part_inv s \<longleftrightarrow> offsets_ok s \<and> batches_ok s \<and> open_ok s \<and>
     cache_ok (cache_queue s) (batches s) (cached_bytes s)"

lemmas part_inv_defs = part_inv_def offsets_ok_def batches_ok_def open_ok_def

lemma part_inv_new: "part_inv partition_new"
  by (simp add: part_inv_defs partition_new_def cache_ok_def cached_total_def)

text \<open>Appending a batch: the next offset moves past it, then it is indexed.\<close>

lemma fmlookup_uncached_eq:
  assumes "fmmap uncached m = fmmap uncached m'" and "fmlookup m b = Some e"
  shows "\<exists>e'. fmlookup m' b = Some e' \<and> uncached e' = uncached e"
proof -
  have "fmlookup (fmmap uncached m) b = fmlookup (fmmap uncached m') b" using assms(1) by simp
  then show ?thesis using assms(2) by (cases "fmlookup m' b") auto
qed

lemma uncached_fields:
  assumes "uncached e = uncached e'"
  shows "entry_delta e = entry_delta e'" and "entry_end b e = entry_end b e'"
proof -
  have "entry_delta (uncached e) = entry_delta e" for e
    by (simp add: uncached_def)
  with assms show "entry_delta e = entry_delta e'" by metis
  then show "entry_end b e = entry_end b e'" by (simp add: entry_end_def)
qed

lemma index_batch_index:
  "fmmap uncached (batches (index_batch offset e budget s)) = fmmap uncached (fmupd offset e (batches s))"
  by (auto simp: index_batch_def Let_def split: prod.splits dest: evict_cache_index)

lemma index_batch_fields [simp]:
  "log_start (index_batch offset e budget s) = log_start s"
  "next_offset (index_batch offset e budget s) = next_offset s"
  "durable_offset (index_batch offset e budget s) = durable_offset s"
  "open_txns (index_batch offset e budget s) = open_txns s"
  "aborted (index_batch offset e budget s) = aborted s"
  "files (index_batch offset e budget s) = files s"
  "seg_writer (index_batch offset e budget s) = seg_writer s"
  "uploaded (index_batch offset e budget s) = uploaded s"
  "read_files (index_batch offset e budget s) = read_files s"
  by (simp_all add: index_batch_def Let_def split: prod.splits)

lemma index_batch_cache:
  assumes "cache_ok (cache_queue s) (batches s) (cached_bytes s)" and "fmlookup (batches s) offset = None"
  shows "cache_ok (cache_queue (index_batch offset e budget s)) (batches (index_batch offset e budget s))
      (cached_bytes (index_batch offset e budget s))
    \<and> cached_bytes (index_batch offset e budget s) \<le> budget"
proof -
  define held where "held = (case entry_cached e of None \<Rightarrow> cached_bytes s | Some bytes \<Rightarrow> cached_bytes s + length bytes)"
  define queue where "queue = (case entry_cached e of None \<Rightarrow> cache_queue s | Some _ \<Rightarrow> cache_queue s @ [offset])"
  have "cache_ok queue (fmupd offset e (batches s)) held"
    using assms cached_total_upd [of offset e "batches s"]
    by (auto simp: cache_ok_def held_def queue_def cached_len_def split: option.splits if_splits)
  then show ?thesis
    using evict_cache_ok [of queue "fmupd offset e (batches s)" held budget]
    by (auto simp: index_batch_def Let_def held_def queue_def split: prod.splits)
qed

lemma batches_okD:
  assumes "batches_ok s" and "fmlookup (batches s) b = Some e"
  shows "0 \<le> entry_delta e" "log_start s \<le> entry_end b e" "entry_end b e < next_offset s"
    "b \<le> entry_end b e" "b < next_offset s"
  using assms unfolding batches_ok_def entry_end_def by (metis, metis, metis, force, force)

lemma batches_ok_gap:
  "batches_ok s \<Longrightarrow> fmlookup (batches s) b = Some e \<Longrightarrow> fmlookup (batches s) b' = Some e' \<Longrightarrow> b < b' \<Longrightarrow>
    entry_end b e < b'"
  unfolding batches_ok_def by metis

lemma batches_ok_uncached:
  assumes "batches_ok s" and "fmmap uncached (batches s') = fmmap uncached (batches s)"
    and "log_start s' = log_start s" and "next_offset s' = next_offset s"
  shows "batches_ok s'"
proof -
  have look: "\<exists>e'. fmlookup (batches s) b = Some e' \<and> entry_delta e' = entry_delta e \<and> entry_end b e' = entry_end b e"
    if "fmlookup (batches s') b = Some e" for b e
    using fmlookup_uncached_eq [OF assms(2) that] uncached_fields by metis
  show ?thesis
    unfolding batches_ok_def assms(3,4)
  proof (intro conjI allI impI; (elim conjE)?)
    fix b e assume "fmlookup (batches s') b = Some e"
    from look [OF this] show "0 \<le> entry_delta e" "log_start s \<le> entry_end b e" "entry_end b e < next_offset s"
      using batches_okD [OF assms(1)] by metis+
  next
    fix b b' e e' assume "fmlookup (batches s') b = Some e" "fmlookup (batches s') b' = Some e'" "b < b'"
    then show "entry_end b e < b'"
      using look batches_ok_gap [OF assms(1)] by metis
  qed
qed

lemma part_inv_fresh: "part_inv s \<Longrightarrow> next_offset s \<le> b \<Longrightarrow> fmlookup (batches s) b = None"
  using batches_okD(5) [of s b] by (cases "fmlookup (batches s) b") (auto simp: part_inv_def)

lemma part_inv_index:
  assumes "part_inv t" and "0 \<le> entry_delta e" and "log_start t \<le> offset"
    and "entry_end offset e < next_offset t"
    and "\<And>b x. fmlookup (batches t) b = Some x \<Longrightarrow> entry_end b x < offset"
  shows "part_inv (index_batch offset e budget t)"
proof -
  let ?t = "t\<lparr>batches := fmupd offset e (batches t)\<rparr>"
  have old: "entry_end b x < offset" "0 \<le> entry_delta x" "log_start t \<le> entry_end b x" "b \<le> entry_end b x"
    if "fmlookup (batches t) b = Some x" for b x
    using batches_okD [OF _ that] assms(1,5) that by (auto simp: part_inv_def)
  have fresh: "fmlookup (batches t) offset = None"
  proof (rule ccontr)
    assume "fmlookup (batches t) offset \<noteq> None"
    then obtain x where "fmlookup (batches t) offset = Some x" by blast
    from old(1,4) [OF this] show False by simp
  qed
  have "batches_ok ?t"
    unfolding batches_ok_def
  proof (intro conjI allI impI; (elim conjE)?)
    fix b x assume "fmlookup (batches ?t) b = Some x"
    then show "0 \<le> entry_delta x" "log_start ?t \<le> entry_end b x" "entry_end b x < next_offset ?t"
      using old [of b x] assms(2,3,4) by (auto simp: entry_end_def split: if_splits)
  next
    fix b b' x x' assume "fmlookup (batches ?t) b = Some x" "fmlookup (batches ?t) b' = Some x'" "b < b'"
    then show "entry_end b x < b'"
      using old [of b x] old(1,4) [of b' x'] batches_ok_gap [of t b x b' x'] assms(1)
      by (auto simp: part_inv_def split: if_splits)
  qed
  then have "batches_ok (index_batch offset e budget t)"
    by (rule batches_ok_uncached) (simp_all add: index_batch_index)
  moreover have "cache_ok (cache_queue (index_batch offset e budget t)) (batches (index_batch offset e budget t))
      (cached_bytes (index_batch offset e budget t))"
    using assms(1) fresh by (intro index_batch_cache [THEN conjunct1]) (auto simp: part_inv_def)
  ultimately show ?thesis
    using assms by (auto simp: part_inv_def offsets_ok_def open_ok_def)
qed

lemma part_inv_publish:
  "part_inv s \<Longrightarrow> x \<le> next_offset s \<Longrightarrow> part_inv (s\<lparr>durable_offset := max (durable_offset s) x\<rparr>)"
  by (auto simp: part_inv_defs)

lemma part_inv_open:
  "part_inv s \<Longrightarrow> v < next_offset s \<Longrightarrow> part_inv (s\<lparr>open_txns := fmupd k v (open_txns s)\<rparr>)"
  by (auto simp: part_inv_defs)

lemma part_inv_close: "part_inv s \<Longrightarrow> part_inv (s\<lparr>open_txns := fmdrop k (open_txns s)\<rparr>)"
  by (auto simp: part_inv_defs split: if_splits)

lemma part_inv_frame:
  "part_inv (s\<lparr>aborted := a\<rparr>) = part_inv s" "part_inv (s\<lparr>files := f\<rparr>) = part_inv s"
  "part_inv (s\<lparr>seg_writer := w\<rparr>) = part_inv s" "part_inv (s\<lparr>uploaded := u\<rparr>) = part_inv s"
  "part_inv (s\<lparr>read_files := r\<rparr>) = part_inv s"
  by (simp_all add: part_inv_defs)

text \<open>\<open>last_stable\<close> is the least of the high watermark and the open transactions' first offsets.\<close>

lemma fold_min_least: "(\<forall>x \<in> set (v # vs). fold min vs v \<le> x) \<and> fold min vs v \<in> set (v # (vs :: int list))"
proof (induction vs arbitrary: v)
  case Nil
  then show ?case by simp
next
  case (Cons w vs)
  from Cons.IH [of "min w v"] show ?case by (auto simp: min_def split: if_splits)
qed

lemma last_stable_le:
  shows "last_stable s \<le> durable_offset s"
    and "fmlookup (open_txns s) k = Some v \<Longrightarrow> last_stable s \<le> v"
proof -
  show "last_stable s \<le> durable_offset s"
    by (simp add: last_stable_def split: list.splits)
  assume "fmlookup (open_txns s) k = Some v"
  then have v: "v \<in> set (map snd (entries (open_txns s)))"
    by (force simp flip: in_entries)
  then obtain w ws where ws: "map snd (entries (open_txns s)) = w # ws"
    by (cases "map snd (entries (open_txns s))") auto
  then have "fold min ws w \<le> v" using fold_min_least [where v = w and vs = ws] v by metis
  then show "last_stable s \<le> v" using ws by (simp add: last_stable_def)
qed

lemma last_stable_attained:
  "last_stable s = durable_offset s \<or> (\<exists>k. fmlookup (open_txns s) k = Some (last_stable s))"
proof (cases "map snd (entries (open_txns s))")
  case Nil
  then show ?thesis by (simp add: last_stable_def)
next
  case (Cons w ws)
  then have "fold min ws w \<in> set (map snd (entries (open_txns s)))"
    using fold_min_least [where v = w and vs = ws] by metis
  then have "\<exists>k. fmlookup (open_txns s) k = Some (fold min ws w)"
    by fastforce
  then show ?thesis using Cons by (auto simp: last_stable_def min_def)
qed


text \<open>\<open>advance_log_start\<close> keeps exactly the batches that do not end below the new start.\<close>

lemma advance_log_start_Some:
  assumes "part_inv s"
  obtains s' where "advance_log_start offset s = Some (max (log_start s) (min offset (durable_offset s)), s')"
    and "\<And>b. fmlookup (batches s') b = (case fmlookup (batches s) b of None \<Rightarrow> None
        | Some e \<Rightarrow> if max (log_start s) (min offset (durable_offset s)) \<le> entry_end b e then Some e else None)"
    and "cached_bytes s' = cached_total (batches s')"
    and "\<exists>bs n. s' = s\<lparr>log_start := max (log_start s) (min offset (durable_offset s)), batches := bs,
       cached_bytes := n, aborted := filter (\<lambda>r. aborted_end r \<ge> max (log_start s) (min offset (durable_offset s))) (aborted s)\<rparr>"
proof -
  define c where "c = max (log_start s) (min offset (durable_offset s))"
  define below where "below = entries (fmfilter (\<lambda>b. b < c) (batches s))"
  define bs where "bs = fold (\<lambda>(b, e). fmupd b e) (filter (\<lambda>(b, e). entry_end b e \<ge> c) below)
      (fmfilter (\<lambda>b. b \<ge> c) (batches s))"
  have bok: "batches_ok s" and start: "log_start s \<le> durable_offset s"
    and held: "cached_bytes s = cached_total (batches s)"
    using assms by (auto simp: part_inv_defs cache_ok_def)
  have look: "fmlookup bs b = (case fmlookup (batches s) b of None \<Rightarrow> None
        | Some e \<Rightarrow> if c \<le> entry_end b e then Some e else None)" for b
  proof (cases "fmlookup (batches s) b")
    case None
    then show ?thesis by (simp add: bs_def below_def fmlookup_fold_fmupd_filter)
  next
    case (Some e)
    then show ?thesis
      using batches_okD(4) [OF bok Some] by (simp add: bs_def below_def fmlookup_fold_fmupd_filter)
  qed
  define low where "low = filter (\<lambda>(b, e). entry_end b e < c) below"
  have low: "(b, e) \<in> set low \<longleftrightarrow> fmlookup (batches s) b = Some e \<and> entry_end b e < c" for b e
    using batches_okD(4) [OF bok, of b e] by (auto simp: low_def below_def)
  have "distinct low"
    unfolding below_def low_def by (intro distinct_filter) (metis distinct_entries distinct_map)
  then have suml: "sum_list (map (\<lambda>(_, e). cached_len e) low) = (\<Sum>(_, e) \<in> set low. cached_len e)"
    by (rule sum_list_distinct_conv_sum_set)
  have split: "set (entries (batches s)) = set low \<union> set (entries bs)" "set low \<inter> set (entries bs) = {}"
    by (auto simp: low look split: option.splits if_splits)
  have tot: "cached_total (batches s) = (\<Sum>(_, e) \<in> set low. cached_len e) + cached_total bs"
    unfolding cached_total_def split(1) using split(2) by (intro sum.union_disjoint) auto
  have "fold (\<lambda>(b, e) held. if entry_cached e \<noteq> None \<and> entry_end b e < c then held - cached_len e else held)
      below (cached_bytes s) =
    fold (\<lambda>x n. if (\<lambda>(b, e). entry_end b e < c) x then n - (\<lambda>(_, e). cached_len e) x else n)
      below (cached_bytes s)"
    by (rule fold_cong) (auto simp: fun_eq_iff cached_len_def split: option.splits)
  also have "\<dots> = cached_bytes s - sum_list (map (\<lambda>(_, e). cached_len e) low)"
    unfolding low_def by (rule fold_subtract) (unfold low_def [symmetric] suml held tot, simp)
  also have "\<dots> = cached_total bs"
    unfolding suml held tot by simp
  finally have n: "fold (\<lambda>(b, e) held. if entry_cached e \<noteq> None \<and> entry_end b e < c then held - cached_len e else held)
      below (cached_bytes s) = cached_total bs" .
  have res: "advance_log_start offset s = Some (c, s\<lparr>log_start := c, batches := bs, cached_bytes := cached_total bs,
      aborted := filter (\<lambda>r. aborted_end r \<ge> c) (aborted s)\<rparr>)"
    using start n
    unfolding advance_log_start_def high_watermark_def Let_def c_def [symmetric] below_def [symmetric]
      bs_def [symmetric] by simp
  show thesis
    by (rule that [OF res [unfolded c_def]]) (auto simp: look [unfolded c_def])
qed

text \<open>C18: Advancing the log start (delete-records and retention) is safe and exact.  On a partition that
  satisfies the invariant the clamp never panics; the new start is the requested offset clamped
  between the old start and the high watermark; exactly the batches that end below it are dropped
  from the index, so a batch that straddles it is kept whole; the aborted ranges that end below it
  are dropped; the watermarks and the open transactions do not move; and the invariant, with the
  accounting of the tail cache, still holds.\<close>

theorem advance_log_start_correct:
  assumes "part_inv s"
  shows "\<exists>s'. advance_log_start offset s = Some (max (log_start s) (min offset (durable_offset s)), s')
    \<and> part_inv s' \<and> log_start s' = max (log_start s) (min offset (durable_offset s))
    \<and> (\<forall>b. fmlookup (batches s') b = (case fmlookup (batches s) b of None \<Rightarrow> None
        | Some e \<Rightarrow> if log_start s' \<le> entry_end b e then Some e else None))
    \<and> aborted s' = filter (\<lambda>r. aborted_end r \<ge> log_start s') (aborted s)
    \<and> next_offset s' = next_offset s \<and> durable_offset s' = durable_offset s \<and> open_txns s' = open_txns s"
proof -
  obtain s' where s': "advance_log_start offset s = Some (max (log_start s) (min offset (durable_offset s)), s')"
    and look: "\<And>b. fmlookup (batches s') b = (case fmlookup (batches s) b of None \<Rightarrow> None
        | Some e \<Rightarrow> if max (log_start s) (min offset (durable_offset s)) \<le> entry_end b e then Some e else None)"
    and held: "cached_bytes s' = cached_total (batches s')"
    and upd: "\<exists>bs n. s' = s\<lparr>log_start := max (log_start s) (min offset (durable_offset s)), batches := bs,
       cached_bytes := n, aborted := filter (\<lambda>r. aborted_end r \<ge> max (log_start s) (min offset (durable_offset s))) (aborted s)\<rparr>"
    by (rule advance_log_start_Some [OF assms, of offset]) (rule that, assumption+)
  have keep: "fmlookup (batches s) b = Some e \<and> log_start s' \<le> entry_end b e" if "fmlookup (batches s') b = Some e" for b e
    using that upd by (auto simp: look split: option.splits if_splits)
  have "batches_ok s'"
    unfolding batches_ok_def
    using keep batches_okD [of s] batches_ok_gap [of s] assms upd by (auto simp: part_inv_def)
  moreover have "cache_ok (cache_queue s') (batches s') (cached_bytes s')"
    using assms keep held upd unfolding part_inv_def cache_ok_def by fastforce
  ultimately have "part_inv s'"
    using assms upd by (auto simp: part_inv_def offsets_ok_def open_ok_def)
  moreover have "log_start s' = max (log_start s) (min offset (durable_offset s))"
    "aborted s' = filter (\<lambda>r. aborted_end r \<ge> max (log_start s) (min offset (durable_offset s))) (aborted s)"
    "next_offset s' = next_offset s" "durable_offset s' = durable_offset s" "open_txns s' = open_txns s"
    using upd by auto
  ultimately show ?thesis
    using s' by (intro exI [of _ s']) (simp add: look cong: option.case_cong)
qed

theorem advance_log_start_correct_witness:
  "\<exists>s'. advance_log_start 5 partition_new = Some (0, s') \<and> part_inv s'"
  using advance_log_start_correct [OF part_inv_new, of 5] by (auto simp: partition_new_def)

text \<open>C19: Indexing a produced batch keeps the tail cache within its budget and accounts for it exactly,
  whatever the sizes: eviction takes cached bytes away, oldest first, but never an index entry or
  any other field of one, so every batch stays locatable.\<close>

theorem index_batch_bounded:
  assumes "part_inv s" and "fmlookup (batches s) offset = None"
  shows "cached_bytes (index_batch offset e budget s) \<le> budget
    \<and> cached_bytes (index_batch offset e budget s) = cached_total (batches (index_batch offset e budget s))
    \<and> fmmap uncached (batches (index_batch offset e budget s)) = fmmap uncached (fmupd offset e (batches s))"
  using index_batch_cache [of s offset e budget] index_batch_index assms
  by (auto simp: part_inv_def cache_ok_def)

definition tiny_entry :: batch_entry where
  "tiny_entry = \<lparr>entry_segment = 0, entry_position = 0, entry_len = 21, entry_tiered = False,
     entry_cached = Some [1, 2, 3], entry_delta = 2, entry_max_timestamp = 0, entry_control = False,
     entry_transactional = False, entry_producer = -1, entry_epoch = -1, entry_sequence = -1\<rparr>"

theorem index_batch_bounded_witness:
  "cached_bytes (index_batch 0 tiny_entry 2 partition_new) \<le> 2"
  using index_batch_bounded [OF part_inv_new, of 0 tiny_entry 2] by (simp add: partition_new_def)

text \<open>C20: The last stable offset is the greatest offset that is below the high watermark and below
  the first offset of every open transaction: read-committed readers see everything that is
  decided and nothing that is not.\<close>

theorem last_stable_greatest:
  "x \<le> last_stable s \<longleftrightarrow>
     x \<le> high_watermark s \<and> list_all (\<lambda>(_, v). x \<le> v) (entries (open_txns s))"
proof -
  have "x \<le> last_stable s \<longleftrightarrow> x \<le> durable_offset s \<and> (\<forall>k v. fmlookup (open_txns s) k = Some v \<longrightarrow> x \<le> v)"
    using last_stable_le [of s] last_stable_attained [of s] by (metis order_trans)
  then show ?thesis by (auto simp: high_watermark_def list_all_iff)
qed

end
