(* ===== verification/Wal_Apply.thy ===== *)
theory Wal_Apply
  imports Meta_Wal Partition_State
begin

text \<open>
  The effect of one WAL record on the state a boot rebuilds: \<open>apply\<close> of
  \<open>tansu-storage/src/nvme/recovery.rs\<close>.  \<open>meta_state\<close> groups its four \<open>&mut\<close> arguments: the
  coordination state, the consumer groups, their committed offsets, and the skeleton (log start and
  aborted ranges) of every partition.
\<close>

record skeleton =
  sk_log_start :: int
  sk_aborted :: "aborted_range list"

definition skeleton_default :: skeleton where
  "skeleton_default = \<lparr>sk_log_start = 0, sk_aborted = []\<rparr>"

record meta_state =
  coord :: coord_state
  groups :: "(string, group_detail \<times> version) fmap"
  group_offsets :: "(string \<times> topition, offset_commit_request) fmap"
  skeletons :: "(string \<times> int, skeleton) fmap"

definition meta_default :: meta_state where
  "meta_default = \<lparr>coord = coord_default, groups = fmempty, group_offsets = fmempty, skeletons = fmempty\<rparr>"

text \<open>\<open>entry(topic).or_default().entry(partition).or_default()\<close>: a partition joins a transaction.\<close>

definition touch_partition ::
    "string \<times> int \<Rightarrow> (string, (int, txn_produce_offset option) fmap) fmap \<Rightarrow>
     (string, (int, txn_produce_offset option) fmap) fmap" where
  "touch_partition = (\<lambda>(t, p) m. insert2 t p (entry_or None (entry_or fmempty m t) p) m)"

text \<open>The guarded \<open>get_mut\<close> chain of the transaction records.\<close>

definition with_txn ::
    "string \<Rightarrow> int \<Rightarrow> int \<Rightarrow> (txn_detail \<Rightarrow> txn_detail) \<Rightarrow> meta_state \<Rightarrow> meta_state" where
  "with_txn tid pid e f s =
     (case fmlookup (transactions (coord s)) tid of
        None \<Rightarrow> s
      | Some t \<Rightarrow> if producer t = pid then s\<lparr>coord := update_txn_detail tid e f (coord s)\<rparr> else s)"

definition apply_pid_alloc :: "int \<Rightarrow> string option \<Rightarrow> int \<Rightarrow> coord_state \<Rightarrow> coord_state" where
  "apply_pid_alloc pid tid timeout c =
     (let c' = c\<lparr>producers := fmupd pid \<lparr>sequences = fmupd 0 fmempty fmempty\<rparr> (producers c)\<rparr> in
      case tid of
        None \<Rightarrow> c'
      | Some tid \<Rightarrow> c'\<lparr>transactions := fmupd tid
          \<lparr>producer = pid, epochs = fmupd 0 (txn_detail_default\<lparr>transaction_timeout_ms := timeout\<rparr>) fmempty\<rparr>
          (transactions c')\<rparr>)"

definition apply_epoch_bump :: "string \<Rightarrow> int \<Rightarrow> int \<Rightarrow> int \<Rightarrow> coord_state \<Rightarrow> coord_state" where
  "apply_epoch_bump tid pid e timeout c =
     c\<lparr>producers := adjust pid (\<lambda>d. d\<lparr>sequences := fmupd e fmempty (sequences d)\<rparr>) (producers c),
       transactions := adjust tid
         (\<lambda>t. t\<lparr>epochs := fmupd e (txn_detail_default\<lparr>transaction_timeout_ms := timeout\<rparr>) (epochs t)\<rparr>)
         (transactions c)\<rparr>"

definition apply_txn_begin :: "system_time \<Rightarrow> (string \<times> int) list \<Rightarrow> txn_detail \<Rightarrow> txn_detail" where
  "apply_txn_begin now partitions d =
     (let d' = (if (case txn_status d of Some st \<Rightarrow> is_terminal st | None \<Rightarrow> False)
                then d\<lparr>produces := fmempty, txn_offsets := fmempty\<rparr> else d)
      in d'\<lparr>produces := fold touch_partition partitions (produces d'),
            started_at := Some now, txn_status := Some Begin\<rparr>)"

definition apply_txn_prepare ::
    "bool \<Rightarrow> (string \<times> int \<times> txn_produce_offset) list \<Rightarrow> txn_detail \<Rightarrow> txn_detail" where
  "apply_txn_prepare committed ranges d =
     d\<lparr>txn_status := Some (if committed then PrepareCommit else PrepareAbort),
       produces := fold (\<lambda>(t, p, r). insert2 t p (Some r)) ranges fmempty\<rparr>"

definition apply_txn_terminal :: "bool \<Rightarrow> txn_detail \<Rightarrow> txn_detail" where
  "apply_txn_terminal committed d =
     d\<lparr>txn_status := Some (if committed then Committed else Aborted),
       produces := fmempty, txn_offsets := fmempty, started_at := None\<rparr>"

definition push_aborted :: "int \<Rightarrow> txn_produce_offset \<Rightarrow> skeleton \<Rightarrow> skeleton" where
  "push_aborted pid r sk =
     (let a = \<lparr>aborted_producer = pid, aborted_start = offset_start r, aborted_end = offset_end r\<rparr> in
      if a \<in> set (sk_aborted sk) then sk else sk\<lparr>sk_aborted := sk_aborted sk @ [a]\<rparr>)"

definition apply_aborted ::
    "int \<Rightarrow> string \<times> int \<times> txn_produce_offset \<Rightarrow> (string \<times> int, skeleton) fmap \<Rightarrow>
     (string \<times> int, skeleton) fmap" where
  "apply_aborted pid = (\<lambda>(t, p, r) m. fmupd (t, p) (push_aborted pid r (entry_or skeleton_default m (t, p))) m)"

definition insert_txn_offset ::
    "string \<Rightarrow> string \<times> int \<times> txn_commit_offset \<Rightarrow>
     (string, (string, (int, txn_commit_offset) fmap) fmap) fmap \<Rightarrow>
     (string, (string, (int, txn_commit_offset) fmap) fmap) fmap" where
  "insert_txn_offset g = (\<lambda>(t, p, co) m. fmupd g (insert2 t p co (entry_or fmempty m g)) m)"

definition insert_group_offset ::
    "string \<Rightarrow> string \<times> int \<times> offset_commit_request \<Rightarrow>
     (string \<times> topition, offset_commit_request) fmap \<Rightarrow> (string \<times> topition, offset_commit_request) fmap" where
  "insert_group_offset g = (\<lambda>(t, p, c). fmupd (g, Topition t p) c)"

fun apply_record :: "wal_record \<Rightarrow> meta_state \<Rightarrow> meta_state" where
  "apply_record (TopicCreate i t) s =
     s\<lparr>coord := (coord s)\<lparr>topics := fmupd (topic_name t) \<lparr>topic_uuid = i, creatable = t\<rparr> (topics (coord s))\<rparr>\<rparr>"
| "apply_record (TopicDelete name) s =
     s\<lparr>coord := (coord s)\<lparr>topics := fmdrop name (topics (coord s))\<rparr>,
       skeletons := fmfilter (\<lambda>(t, _). t \<noteq> name) (skeletons s),
       group_offsets := fmfilter (\<lambda>(_, tp). topic tp \<noteq> name) (group_offsets s)\<rparr>"
| "apply_record (ConfigAlter name changes) s = s\<lparr>coord := snd (alter_topic name changes (coord s))\<rparr>"
| "apply_record (PidAlloc pid tid timeout) s = s\<lparr>coord := apply_pid_alloc pid tid timeout (coord s)\<rparr>"
| "apply_record (EpochBump tid pid e timeout) s = s\<lparr>coord := apply_epoch_bump tid pid e timeout (coord s)\<rparr>"
| "apply_record (TxnBegin tid pid e now partitions) s = with_txn tid pid e (apply_txn_begin now partitions) s"
| "apply_record (TxnPrepare tid pid e committed ranges) s = with_txn tid pid e (apply_txn_prepare committed ranges) s"
| "apply_record (TxnTerminal tid pid e committed ab) s =
     (let s' = with_txn tid pid e (apply_txn_terminal committed) s
      in s'\<lparr>skeletons := fold (apply_aborted pid) ab (skeletons s')\<rparr>)"
| "apply_record (TxnOffsets tid pid e g offsets) s =
     with_txn tid pid e (\<lambda>d. d\<lparr>txn_offsets := fold (insert_txn_offset g) offsets (txn_offsets d)\<rparr>) s"
| "apply_record (GroupOffsetCommit g offsets) s =
     s\<lparr>group_offsets := fold (insert_group_offset g) offsets (group_offsets s)\<rparr>"
| "apply_record (GroupUpdate g detail ver) s = s\<lparr>groups := fmupd g (detail, ver) (groups s)\<rparr>"
| "apply_record (GroupDelete g) s =
     s\<lparr>groups := fmdrop g (groups s), group_offsets := fmfilter (\<lambda>(g', _). g' \<noteq> g) (group_offsets s)\<rparr>"
| "apply_record (ScramUpsert user mechanism sa it sk vk) s =
     s\<lparr>coord := (coord s)\<lparr>scram := fmupd (user, mechanism)
        \<lparr>salt = sa, iterations = it, stored_key = sk, server_key = vk\<rparr> (scram (coord s))\<rparr>\<rparr>"
| "apply_record (ScramDelete user mechanism) s =
     s\<lparr>coord := (coord s)\<lparr>scram := fmdrop (user, mechanism) (scram (coord s))\<rparr>\<rparr>"
| "apply_record (LogStartAdvance t p offset) s =
     s\<lparr>skeletons := fmupd (t, p) ((entry_or skeleton_default (skeletons s) (t, p))\<lparr>sk_log_start := offset\<rparr>)
        (skeletons s)\<rparr>"

text \<open>The replay of a list of records, in order.\<close>

definition apply_records :: "wal_record list \<Rightarrow> meta_state \<Rightarrow> meta_state" where
  "apply_records rs s = fold apply_record rs s"

text \<open>\<open>merge_range\<close>: a scanned batch of an open transaction extends its range both ways.\<close>

definition merge_entry :: "int \<Rightarrow> int \<Rightarrow> txn_produce_offset option option \<Rightarrow> txn_produce_offset option" where
  "merge_entry offset fin entry =
     (case entry of
        Some (Some r) \<Rightarrow>
          (let r' = (if fin > offset_end r then r\<lparr>offset_end := fin\<rparr> else r) in
           Some (if offset < offset_start r' then r'\<lparr>offset_start := offset\<rparr> else r'))
      | _ \<Rightarrow> Some \<lparr>offset_start = offset, offset_end = fin\<rparr>)"

definition merge_range :: "topition \<Rightarrow> int \<Rightarrow> int \<Rightarrow> txn_detail \<Rightarrow> txn_detail" where
  "merge_range tp offset fin d =
     d\<lparr>produces := insert2 (topic tp) (partition tp)
        (merge_entry offset fin (lookup2 (produces d) (topic tp) (partition tp))) (produces d)\<rparr>"

section \<open>Lemmas\<close>

lemma update_txn_detail_twice [simp]:
  "update_txn_detail tid e f (update_txn_detail tid e g c) = update_txn_detail tid e (f \<circ> g) c"
  by (simp add: update_txn_detail_def comp_def)

lemma with_txn_idem:
  assumes "\<And>d. f (f d) = f d"
  shows "with_txn tid pid e f (with_txn tid pid e f s) = with_txn tid pid e f s"
proof -
  have "f \<circ> f = f" using assms by auto
  then show ?thesis
    by (auto simp: with_txn_def update_txn_detail_def comp_def split: option.splits)
qed

lemma touch_partition_alt:
  "touch_partition (t, p) m = insert2 t p (case lookup2 m t p of None \<Rightarrow> None | Some v \<Rightarrow> v) m"
  by (simp add: touch_partition_def lookup2_def entry_or_def [of None])

lemma touch_present: "lookup2 m (fst x) (snd x) \<noteq> None \<Longrightarrow> touch_partition x m = m"
  by (cases x) (auto simp: touch_partition_alt intro!: insert2_same)

lemma lookup2_fold_touch:
  "lookup2 (fold touch_partition ps m) t p =
     (case lookup2 m t p of Some v \<Rightarrow> Some v | None \<Rightarrow> if (t, p) \<in> set ps then Some None else None)"
proof (induction ps arbitrary: m)
  case Nil
  then show ?case by (simp split: option.splits)
next
  case (Cons x ps)
  have "lookup2 (touch_partition x m) t p =
    (case lookup2 m t p of Some v \<Rightarrow> Some v | None \<Rightarrow> if x = (t, p) then Some None else None)"
    by (cases x) (auto simp: touch_partition_alt split: option.splits)
  then show ?case by (auto simp: Cons.IH split: option.splits)
qed

lemma fold_touch_idem:
  "fold touch_partition ps (fold touch_partition ps m) = fold touch_partition ps m"
proof (rule fold_id)
  fix x assume "x \<in> set ps"
  then have "lookup2 (fold touch_partition ps m) (fst x) (snd x) \<noteq> None"
    by (simp add: lookup2_fold_touch split: option.splits)
  then show "touch_partition x (fold touch_partition ps m) = fold touch_partition ps m"
    by (rule touch_present)
qed

lemma apply_txn_begin_idem:
  "apply_txn_begin now ps (apply_txn_begin now ps d) = apply_txn_begin now ps d"
  by (simp add: apply_txn_begin_def Let_def fold_touch_idem)

lemma apply_txn_prepare_idem:
  "apply_txn_prepare committed rs (apply_txn_prepare committed rs d) = apply_txn_prepare committed rs d"
  by (simp add: apply_txn_prepare_def)

lemma apply_txn_terminal_idem:
  "apply_txn_terminal committed (apply_txn_terminal committed d) = apply_txn_terminal committed d"
  by (simp add: apply_txn_terminal_def)

lemma fmlookup_fold_insert_txn_offset:
  "fold (insert_txn_offset g) xs m =
     (if xs = [] then m else fmupd g (fold (\<lambda>(t, p, v). insert2 t p v) xs (entry_or fmempty m g)) m)"
proof (induction xs rule: rev_induct)
  case Nil
  then show ?case by simp
next
  case (snoc x xs)
  then show ?case
    by (cases x) (auto simp: insert_txn_offset_def)
qed

lemma insert_txn_offset_idem:
  "fold (insert_txn_offset g) xs (fold (insert_txn_offset g) xs m) = fold (insert_txn_offset g) xs m"
  by (simp add: fmlookup_fold_insert_txn_offset fold_insert2_idem)

lemma insert_group_offset_idem:
  "fold (insert_group_offset g) xs (fold (insert_group_offset g) xs m) = fold (insert_group_offset g) xs m"
proof -
  have "fold (insert_group_offset g) xs m =
    fold (\<lambda>(k, v). fmupd k v) (map (\<lambda>(t, p, c). ((g, Topition t p), c)) xs) m" for m
    by (induction xs arbitrary: m) (auto simp: insert_group_offset_def)
  then show ?thesis by (simp add: fold_upd_idem)
qed


lemma push_aborted_mono: "set (sk_aborted sk) \<subseteq> set (sk_aborted (push_aborted pid r sk))"
  by (auto simp: push_aborted_def Let_def)

lemma push_aborted_in:
  "\<lparr>aborted_producer = pid, aborted_start = offset_start r, aborted_end = offset_end r\<rparr>
     \<in> set (sk_aborted (push_aborted pid r sk))"
  by (simp add: push_aborted_def Let_def)

lemma apply_aborted_held:
  assumes "(t, p, r) \<in> set xs"
  shows "\<exists>sk. fmlookup (fold (apply_aborted pid) xs m) (t, p) = Some sk \<and>
    \<lparr>aborted_producer = pid, aborted_start = offset_start r, aborted_end = offset_end r\<rparr> \<in> set (sk_aborted sk)"
  using assms
proof (induction xs rule: rev_induct)
  case Nil
  then show ?case by simp
next
  case (snoc x xs)
  show ?case
  proof (cases "x = (t, p, r)")
    case True
    then show ?thesis by (auto simp: apply_aborted_def push_aborted_in)
  next
    case False
    then obtain sk where sk: "fmlookup (fold (apply_aborted pid) xs m) (t, p) = Some sk"
      "\<lparr>aborted_producer = pid, aborted_start = offset_start r, aborted_end = offset_end r\<rparr> \<in> set (sk_aborted sk)"
      using snoc by auto
    then show ?thesis
      using push_aborted_mono by (cases x) (fastforce simp: apply_aborted_def entry_or_def)
  qed
qed

lemma apply_aborted_idem:
  "fold (apply_aborted pid) xs (fold (apply_aborted pid) xs m) = fold (apply_aborted pid) xs m"
proof (rule fold_id)
  fix x assume x: "x \<in> set xs"
  obtain t p r where xs: "x = (t, p, r)" by (cases x)
  define m' where "m' = fold (apply_aborted pid) xs m"
  obtain sk where "fmlookup m' (t, p) = Some sk"
    "\<lparr>aborted_producer = pid, aborted_start = offset_start r, aborted_end = offset_end r\<rparr> \<in> set (sk_aborted sk)"
    using apply_aborted_held [of t p r xs pid m, folded m'_def] x xs by blast
  then have "apply_aborted pid x m' = m'"
    unfolding xs by (intro fmap_ext) (auto simp: apply_aborted_def push_aborted_def entry_or_def)
  then show "apply_aborted pid x (fold (apply_aborted pid) xs m) = fold (apply_aborted pid) xs m"
    by (simp add: m'_def)
qed

text \<open>A record whose configuration changes name each key once and append plain values.\<close>

fun plain_record :: "wal_record \<Rightarrow> bool" where
  "plain_record (ConfigAlter name changes) \<longleftrightarrow>
     distinct (map alter_name changes) \<and> list_all plain_append changes"
| "plain_record _ \<longleftrightarrow> True"

lemma with_txn_skeletons [simp]: "with_txn tid pid e f (s\<lparr>skeletons := k\<rparr>) = (with_txn tid pid e f s)\<lparr>skeletons := k\<rparr>"
  by (auto simp: with_txn_def split: option.splits)

lemma skeletons_with_txn [simp]: "skeletons (with_txn tid pid e f s) = skeletons s"
  by (auto simp: with_txn_def split: option.splits)

lemma apply_record_idem:
  assumes "plain_record r"
  shows "apply_record r (apply_record r s) = apply_record r s"
proof (cases r)
  case (ConfigAlter name changes)
  then show ?thesis using assms alter_topic_idem [of changes name] by (simp add: list_all_iff)
next
  case (PidAlloc pid tid timeout)
  then show ?thesis by (auto simp: apply_pid_alloc_def Let_def split: option.splits intro!: fmap_ext)
next
  case (EpochBump tid pid e timeout)
  then show ?thesis
    by (auto simp: apply_epoch_bump_def comp_def fmupd_idem)
qed (simp_all add: Let_def with_txn_idem apply_txn_begin_idem apply_txn_prepare_idem apply_txn_terminal_idem
    apply_aborted_idem insert_txn_offset_idem insert_group_offset_idem)



text \<open>The restriction is needed: an appended value that itself holds a comma is appended again.\<close>

definition comma_append :: wal_record where
  "comma_append = ConfigAlter ''t'' [\<lparr>alter_name = ''k'', config_operation = 2, alter_value = Some ''a,b''\<rparr>]"

definition one_topic :: meta_state where
  "one_topic = apply_record (TopicCreate 1 \<lparr>topic_name = ''t'', num_partitions = 1, replication_factor = 1,
     assignments = None, configs = None\<rparr>) meta_default"

lemma comma_append_not_idempotent:
  "apply_record comma_append (apply_record comma_append one_topic) \<noteq> apply_record comma_append one_topic"
  by code_simp

end
