(* ===== verification/Snap_Doc.thy ===== *)
theory Snap_Doc
  imports Wal_Apply
begin

text \<open>
  Snapshots, \<open>tansu-storage/src/nvme/snapshot.rs\<close>: the document a state is flattened into, the state
  rebuilt from it, and the directory of snapshot files with its newest-valid-wins load and its
  pruning.  Nested maps are flattened to lists in iteration order.  \<open>snap_json\<close> and \<open>snap_parse\<close> stand
  for \<open>serde_json\<close>; a directory maps a WAL sequence to the bytes of its snapshot file.
\<close>

definition FORMAT_VERSION :: nat where "FORMAT_VERSION = 1"

type_synonym snap_sequences = "(int \<times> (string \<times> (int \<times> int) list) list) list"
type_synonym snap_produces = "(string \<times> (int \<times> txn_produce_offset option) list) list"
type_synonym snap_offsets = "(string \<times> (string \<times> (int \<times> txn_commit_offset) list) list) list"

record snap_producer =
  sp_id :: int
  sp_sequences :: snap_sequences

record snap_txn_detail =
  st_timeout_ms :: int
  st_started_at :: "system_time option"
  st_state :: "txn_state option"
  st_produces :: snap_produces
  st_offsets :: snap_offsets

record snap_txn =
  stx_id :: string
  stx_producer :: int
  stx_epochs :: "(int \<times> snap_txn_detail) list"

record snap_scram =
  ss_user :: string
  ss_mechanism :: string
  ss_credential :: scram_credential

record snap_partition =
  spart_topic :: string
  spart_partition :: int
  spart_log_start :: int
  spart_aborted :: "aborted_range list"

record snapshot_doc =
  doc_format_version :: nat
  doc_wal_seq :: nat
  doc_producers :: "snap_producer list"
  doc_transactions :: "snap_txn list"
  doc_topics :: "topic_metadata list"
  doc_scram :: "snap_scram list"
  doc_groups :: "(string \<times> group_detail \<times> version) list"
  doc_group_offsets :: "(string \<times> string \<times> int \<times> offset_commit_request) list"
  doc_partitions :: "snap_partition list"

section \<open>Capture\<close>

definition flatten :: "('v \<Rightarrow> 'w) \<Rightarrow> ('k::linorder, 'v) fmap \<Rightarrow> ('k \<times> 'w) list" where
  "flatten f m = map (\<lambda>(k, v). (k, f v)) (entries m)"

abbreviation flatten1 :: "('k::linorder, 'v) fmap \<Rightarrow> ('k \<times> 'v) list" where
  "flatten1 \<equiv> flatten id"

definition snap_txn_detail_of :: "txn_detail \<Rightarrow> snap_txn_detail" where
  "snap_txn_detail_of d = \<lparr>st_timeout_ms = transaction_timeout_ms d, st_started_at = started_at d,
     st_state = txn_status d, st_produces = flatten flatten1 (produces d),
     st_offsets = flatten (flatten flatten1) (txn_offsets d)\<rparr>"

definition from_state ::
    "nat \<Rightarrow> coord_state \<Rightarrow> (string, group_detail \<times> version) fmap \<Rightarrow>
     (string \<times> topition, offset_commit_request) fmap \<Rightarrow> snap_partition list \<Rightarrow> snapshot_doc" where
  "from_state sq c gs offs parts =
     \<lparr>doc_format_version = FORMAT_VERSION, doc_wal_seq = sq,
      doc_producers = map (\<lambda>(i, d). \<lparr>sp_id = i, sp_sequences = flatten (flatten flatten1) (sequences d)\<rparr>)
        (entries (producers c)),
      doc_transactions = map (\<lambda>(i, t). \<lparr>stx_id = i, stx_producer = producer t,
          stx_epochs = flatten snap_txn_detail_of (epochs t)\<rparr>) (entries (transactions c)),
      doc_topics = map snd (entries (topics c)),
      doc_scram = map (\<lambda>((u, m), cr). \<lparr>ss_user = u, ss_mechanism = m, ss_credential = cr\<rparr>) (entries (scram c)),
      doc_groups = map (\<lambda>(g, d, v). (g, d, v)) (entries gs),
      doc_group_offsets = map (\<lambda>((g, tp), oc). (g, topic tp, partition tp, oc)) (entries offs),
      doc_partitions = parts\<rparr>"

section \<open>Restore\<close>

definition unflatten :: "('w \<Rightarrow> 'v) \<Rightarrow> ('k \<times> 'w) list \<Rightarrow> ('k, 'v) fmap" where
  "unflatten g xs = fold (\<lambda>(k, w). fmupd k (g w)) xs fmempty"

abbreviation unflatten1 :: "('k \<times> 'v) list \<Rightarrow> ('k, 'v) fmap" where
  "unflatten1 \<equiv> unflatten id"

definition txn_detail_of_snap :: "snap_txn_detail \<Rightarrow> txn_detail" where
  "txn_detail_of_snap s = \<lparr>transaction_timeout_ms = st_timeout_ms s, started_at = st_started_at s,
     txn_status = st_state s, produces = unflatten unflatten1 (st_produces s),
     txn_offsets = unflatten (unflatten unflatten1) (st_offsets s)\<rparr>"

definition doc_coord_state :: "snapshot_doc \<Rightarrow> coord_state" where
  "doc_coord_state doc =
     \<lparr>producers = fold (\<lambda>p. fmupd (sp_id p) \<lparr>sequences = unflatten (unflatten unflatten1) (sp_sequences p)\<rparr>)
        (doc_producers doc) fmempty,
      transactions = fold (\<lambda>t. fmupd (stx_id t)
          \<lparr>producer = stx_producer t, epochs = unflatten txn_detail_of_snap (stx_epochs t)\<rparr>)
        (doc_transactions doc) fmempty,
      topics = fold (\<lambda>m. fmupd (topic_name (creatable m)) m) (doc_topics doc) fmempty,
      scram = fold (\<lambda>s. fmupd (ss_user s, ss_mechanism s) (ss_credential s)) (doc_scram doc) fmempty\<rparr>"

text \<open>The state a boot starts the replay from: \<open>recover\<close>, where there is a snapshot.\<close>

definition meta_of_doc :: "snapshot_doc \<Rightarrow> meta_state" where
  "meta_of_doc doc =
     \<lparr>coord = doc_coord_state doc,
      groups = unflatten1 (doc_groups doc),
      group_offsets = fold (\<lambda>(g, t, p, oc). fmupd (g, Topition t p) oc) (doc_group_offsets doc) fmempty,
      skeletons = fold (\<lambda>s. fmupd (spart_topic s, spart_partition s)
          \<lparr>sk_log_start = spart_log_start s, sk_aborted = spart_aborted s\<rparr>) (doc_partitions doc) fmempty\<rparr>"

section \<open>Files\<close>

text \<open>\<open>write\<close>: the file appears whole under its name, by the rename, or not at all.\<close>

definition snapshot_write ::
    "crc \<Rightarrow> (snapshot_doc \<Rightarrow> bytes option) \<Rightarrow> bool \<Rightarrow> snapshot_doc \<Rightarrow> ((nat, bytes) fmap, unit) op" where
  "snapshot_write crc snap_json io_ok doc dir =
     (case snap_json doc of
        None \<Rightarrow> (Inl SerdeJson, dir)
      | Some pl \<Rightarrow>
          if io_ok then (Inr (), fmupd (doc_wal_seq doc) (encode crc Snapshot pl) dir)
          else (Inl (Message ''nvme snapshot write''), dir))"

fun load_newest ::
    "crc \<Rightarrow> (bytes \<Rightarrow> snapshot_doc option) \<Rightarrow> (nat \<times> bytes) list \<Rightarrow> error + snapshot_doc option" where
  "load_newest crc snap_parse [] = Inr None"
| "load_newest crc snap_parse ((sq, bs) # older) =
     (case decode crc bs of
        Frame f \<Rightarrow>
          if frame_type f = Snapshot then
            (case snap_parse (payload f) of
               Some doc \<Rightarrow>
                 if doc_format_version doc = FORMAT_VERSION then Inr (Some doc)
                 else Inl (Message ''nvme snapshot format'')
             | None \<Rightarrow> load_newest crc snap_parse older)
          else load_newest crc snap_parse older
      | Torn \<Rightarrow> load_newest crc snap_parse older)"

definition load_latest ::
    "crc \<Rightarrow> (bytes \<Rightarrow> snapshot_doc option) \<Rightarrow> (nat, bytes) fmap \<Rightarrow> error + snapshot_doc option" where
  "load_latest crc snap_parse dir = load_newest crc snap_parse (rev (entries dir))"

definition prune_snapshots :: "(nat, 'f) fmap \<Rightarrow> (nat, 'f) fmap" where
  "prune_snapshots dir =
     (let sqs = map fst (entries dir) in fold fmdrop (take (length sqs - 2) sqs) dir)"

section \<open>Round trip\<close>

lemma unflatten_flatten:
  assumes "\<And>v. g (f v) = v"
  shows "unflatten g (flatten f m) = m"
proof -
  have "unflatten g (flatten f m) = fold (\<lambda>(k, v). fmupd k v) (entries m) fmempty"
    by (simp add: unflatten_def flatten_def fold_map comp_def case_prod_unfold assms)
  then show ?thesis by simp
qed

lemma unflatten1_flatten1 [simp]: "unflatten1 (flatten1 m) = m"
  by (rule unflatten_flatten) simp

lemma txn_detail_of_snap_of [simp]: "txn_detail_of_snap (snap_txn_detail_of d) = d"
  by (simp add: txn_detail_of_snap_def snap_txn_detail_of_def unflatten_flatten)

text \<open>Rebuilding a map from its entries by keys that are recomputed from the values.\<close>

lemma fold_rebuild:
  assumes "\<And>k v. fmlookup m k = Some v \<Longrightarrow> key (f (k, v)) = k \<and> val (f (k, v)) = v"
  shows "fold (\<lambda>x. fmupd (key x) (val x)) (map f (entries m)) fmempty = m"
proof -
  have "fold (\<lambda>x. fmupd (key x) (val x)) (map f (entries m)) fmempty =
    fold (\<lambda>(k, v). fmupd k v) (entries m) fmempty"
    unfolding fold_map by (rule fold_cong) (auto simp: assms)
  then show ?thesis by simp
qed

definition topics_named :: "coord_state \<Rightarrow> bool" where
  "topics_named c \<longleftrightarrow> (\<forall>n m. fmlookup (topics c) n = Some m \<longrightarrow> topic_name (creatable m) = n)"

lemma doc_coord_round_trip:
  assumes "topics_named c"
  shows "doc_coord_state (from_state sq c gs offs parts) = c"
proof -
  have "fold (\<lambda>p. fmupd (sp_id p) \<lparr>sequences = unflatten (unflatten unflatten1) (sp_sequences p)\<rparr>)
      (map (\<lambda>(i, d). \<lparr>sp_id = i, sp_sequences = flatten (flatten flatten1) (sequences d)\<rparr>) (entries (producers c)))
      fmempty = producers c"
    by (rule fold_rebuild) (simp add: unflatten_flatten)
  moreover have "fold (\<lambda>t. fmupd (stx_id t)
          \<lparr>producer = stx_producer t, epochs = unflatten txn_detail_of_snap (stx_epochs t)\<rparr>)
      (map (\<lambda>(i, t). \<lparr>stx_id = i, stx_producer = producer t, stx_epochs = flatten snap_txn_detail_of (epochs t)\<rparr>)
        (entries (transactions c))) fmempty = transactions c"
    by (rule fold_rebuild) (simp add: unflatten_flatten)
  moreover have "fold (\<lambda>m. fmupd (topic_name (creatable m)) m) (map snd (entries (topics c))) fmempty = topics c"
    using assms by (intro fold_rebuild) (simp add: topics_named_def)
  moreover have "fold (\<lambda>s. fmupd (ss_user s, ss_mechanism s) (ss_credential s))
      (map (\<lambda>((u, m), cr). \<lparr>ss_user = u, ss_mechanism = m, ss_credential = cr\<rparr>) (entries (scram c))) fmempty = scram c"
    by (rule fold_rebuild) auto
  ultimately show ?thesis
    by (simp add: doc_coord_state_def from_state_def)
qed

end
