(* ===== verification/Batch_Codec.thy ===== *)
theory Batch_Codec
  imports Prelude
begin

text \<open>
  The wire format of a deflated Kafka record batch (\<open>tansu-sans-io/src/record/deflated.rs\<close>) and its
  attribute bits (\<open>BatchAttribute\<close> of \<open>tansu-sans-io/src/lib.rs\<close>).  Fields are \<^typ>\<open>int\<close> in the range
  of their Rust type; bit operations on them are those of two's complement.  The checksum is a
  parameter.
\<close>

unbundle bit_operations_syntax

section \<open>Attributes\<close>

datatype timestamp_type = CreateTime | LogAppendTime

definition timestamp_type_from :: "int \<Rightarrow> timestamp_type" where
  "timestamp_type_from v = (if v AND 8 = 8 then LogAppendTime else CreateTime)"

fun timestamp_type_i16 :: "timestamp_type \<Rightarrow> int" where
  "timestamp_type_i16 CreateTime = 0"
| "timestamp_type_i16 LogAppendTime = 8"

datatype compression = NoCompression | Gzip | Snappy | Lz4 | Zstd

definition compression_try_from :: "int \<Rightarrow> error + compression" where
  "compression_try_from v =
     (let c = v AND 7 in
      if c = 0 then Inr NoCompression else if c = 1 then Inr Gzip else if c = 2 then Inr Snappy
      else if c = 3 then Inr Lz4 else if c = 4 then Inr Zstd
      else Inl (SansIo (UnknownCompressionType c)))"

fun compression_i16 :: "compression \<Rightarrow> int" where
  "compression_i16 NoCompression = 0"
| "compression_i16 Gzip = 1"
| "compression_i16 Snappy = 2"
| "compression_i16 Lz4 = 3"
| "compression_i16 Zstd = 4"

record batch_attribute =
  attr_compression :: compression
  attr_timestamp :: timestamp_type
  attr_transaction :: bool
  attr_control :: bool
  attr_delete_horizon :: bool

definition batch_attribute_default :: batch_attribute where
  "batch_attribute_default = \<lparr>attr_compression = NoCompression, attr_timestamp = CreateTime,
     attr_transaction = False, attr_control = False, attr_delete_horizon = False\<rparr>"

definition batch_attribute_i16 :: "batch_attribute \<Rightarrow> int" where
  "batch_attribute_i16 a =
     (let v = compression_i16 (attr_compression a) OR timestamp_type_i16 (attr_timestamp a);
          v = (if attr_transaction a then v OR 16 else v);
          v = (if attr_control a then v OR 32 else v)
      in if attr_delete_horizon a then v OR 64 else v)"

definition batch_attribute_try_from :: "int \<Rightarrow> error + batch_attribute" where
  "batch_attribute_try_from v =
     (case compression_try_from v of
        Inl e \<Rightarrow> Inl e
      | Inr c \<Rightarrow> Inr \<lparr>attr_compression = c, attr_timestamp = timestamp_type_from v,
          attr_transaction = (v AND 16 = 16), attr_control = (v AND 32 = 32),
          attr_delete_horizon = (v AND 64 = 64)\<rparr>)"

section \<open>Batches\<close>

record deflated_batch =
  b_base_offset :: int
  b_batch_length :: int
  b_partition_leader_epoch :: int
  b_magic :: int
  b_crc :: int
  b_attributes :: int
  b_last_offset_delta :: int
  b_base_timestamp :: int
  b_max_timestamp :: int
  b_producer_id :: int
  b_producer_epoch :: int
  b_base_sequence :: int
  b_record_count :: int
  b_record_data :: bytes

definition FIXED_BATCH_LENGTH :: int where
  "FIXED_BATCH_LENGTH = 4 + 1 + 4 + 2 + 4 + 8 + 8 + 8 + 2 + 4 + 4"

text \<open>\<open>Bytes::from(Batch)\<close>.\<close>

definition batch_bytes :: "deflated_batch \<Rightarrow> bytes" where
  "batch_bytes b =
     to_be 8 (b_base_offset b) @ to_be 4 (b_batch_length b) @ to_be 4 (b_partition_leader_epoch b)
     @ to_be 1 (b_magic b) @ to_be 4 (b_crc b) @ to_be 2 (b_attributes b)
     @ to_be 4 (b_last_offset_delta b) @ to_be 8 (b_base_timestamp b) @ to_be 8 (b_max_timestamp b)
     @ to_be 8 (b_producer_id b) @ to_be 2 (b_producer_epoch b) @ to_be 4 (b_base_sequence b)
     @ to_be 4 (b_record_count b) @ b_record_data b"

text \<open>\<open>try_get_i8\<close> .. \<open>try_get_i64\<close> and \<open>try_get_u32\<close> on the remaining bytes.\<close>

definition try_get_signed :: "nat \<Rightarrow> (bytes, int) op" where
  "try_get_signed n bs =
     (if length bs < n then (Inl (SansIo TryGet), bs) else (Inr (get_signed_be n bs), drop n bs))"

definition try_get_unsigned :: "nat \<Rightarrow> (bytes, int) op" where
  "try_get_unsigned n bs =
     (if length bs < n then (Inl (SansIo TryGet), bs) else (Inr (get_unsigned_be n bs), drop n bs))"

text \<open>The length that is left of \<open>batch_length\<close> after the epoch, the magic and the checksum.\<close>

definition crc_data_size :: "int \<Rightarrow> error + nat" where
  "crc_data_size batch_length =
     (if batch_length < 0 then Inl (SansIo TryFromInt)
      else if batch_length < 4 + 1 + 4 then Inl (SansIo SansOverflow)
      else Inr (nat (batch_length - 9)))"

definition record_data_size :: "int \<Rightarrow> error + nat" where
  "record_data_size batch_length =
     (if batch_length < 0 then Inl (SansIo TryFromInt)
      else if batch_length < FIXED_BATCH_LENGTH then Inl (SansIo SansOverflow)
      else Inr (nat (batch_length - FIXED_BATCH_LENGTH)))"

definition check_size :: "error + nat \<Rightarrow> (bytes, nat) op" where
  "check_size sz bs =
     (case sz of
        Inl e \<Rightarrow> (Inl e, bs)
      | Inr n \<Rightarrow> if n > length bs then (Inl (SansIo SansOverflow), bs) else (Inr n, bs))"

text \<open>
  \<open>Batch::try_from(Bytes)\<close>.  A checksum that does not match is logged and the batch accepted, so
  the checksum does not occur in the result.
\<close>

definition batch_header_fields ::
    "int \<Rightarrow> int \<Rightarrow> int \<Rightarrow> int \<Rightarrow> int \<Rightarrow> (bytes, deflated_batch) op" where
  "batch_header_fields base_offset batch_length epoch magic crc =
     and_then (try_get_signed 2) (\<lambda>attributes.
     and_then (try_get_signed 4) (\<lambda>last_offset_delta.
     and_then (try_get_signed 8) (\<lambda>base_timestamp.
     and_then (try_get_signed 8) (\<lambda>max_timestamp.
     and_then (try_get_signed 8) (\<lambda>producer_id.
     and_then (try_get_signed 2) (\<lambda>producer_epoch.
     and_then (try_get_signed 4) (\<lambda>base_sequence.
     and_then (try_get_unsigned 4) (\<lambda>record_count.
     and_then (check_size (record_data_size batch_length)) (\<lambda>n.
     and_then (gets (take n)) (\<lambda>record_data.
     ok \<lparr>b_base_offset = base_offset, b_batch_length = batch_length,
         b_partition_leader_epoch = epoch, b_magic = magic, b_crc = crc, b_attributes = attributes,
         b_last_offset_delta = last_offset_delta, b_base_timestamp = base_timestamp,
         b_max_timestamp = max_timestamp, b_producer_id = producer_id,
         b_producer_epoch = producer_epoch, b_base_sequence = base_sequence,
         b_record_count = record_count, b_record_data = record_data\<rparr>))))))))))"

definition batch_try_from :: "bytes \<Rightarrow> error + deflated_batch" where
  "batch_try_from encoded = fst (
     and_then (try_get_signed 8) (\<lambda>base_offset.
     and_then (try_get_signed 4) (\<lambda>batch_length.
     and_then (try_get_signed 4) (\<lambda>epoch.
     and_then (try_get_signed 1) (\<lambda>magic.
     and_then (try_get_unsigned 4) (\<lambda>crc.
     and_then (check_size (crc_data_size batch_length)) (\<lambda>_.
     batch_header_fields base_offset batch_length epoch magic crc)))))) encoded)"

definition batch_is_transactional :: "deflated_batch \<Rightarrow> bool" where
  "batch_is_transactional b \<longleftrightarrow> b_attributes b AND 16 = 16"

definition batch_is_control :: "deflated_batch \<Rightarrow> bool" where
  "batch_is_control b \<longleftrightarrow> b_attributes b AND 32 = 32"

definition is_idempotent :: "deflated_batch \<Rightarrow> bool" where
  "is_idempotent b \<longleftrightarrow> b_producer_id b \<noteq> -1 \<and> b_base_sequence b \<noteq> -1"

text \<open>The bytes the checksum covers, and \<open>CrcData::into_batch\<close> which seals a batch with it.\<close>

definition crc_data_bytes :: "deflated_batch \<Rightarrow> bytes" where
  "crc_data_bytes b =
     to_be 2 (b_attributes b) @ to_be 4 (b_last_offset_delta b) @ to_be 8 (b_base_timestamp b)
     @ to_be 8 (b_max_timestamp b) @ to_be 8 (b_producer_id b) @ to_be 2 (b_producer_epoch b)
     @ to_be 4 (b_base_sequence b) @ to_be 4 (b_record_count b) @ b_record_data b"

definition into_batch :: "(bytes \<Rightarrow> 32 word) \<Rightarrow> deflated_batch \<Rightarrow> error + deflated_batch" where
  "into_batch crc b =
     (let n = FIXED_BATCH_LENGTH + int (length (b_record_data b)) in
      if fits_signed 32 n then Inr (b\<lparr>b_batch_length := n, b_crc := uint (crc (crc_data_bytes b))\<rparr>)
      else Inl (SansIo TryFromInt))"

section \<open>Round trips\<close>

lemma batch_attribute_round_trip [simp]:
  "batch_attribute_try_from (batch_attribute_i16 a) = Inr a"
proof -
  obtain c t x y z where a: "a = \<lparr>attr_compression = c, attr_timestamp = t, attr_transaction = x,
      attr_control = y, attr_delete_horizon = z\<rparr>"
    by (cases a)
  show ?thesis
    unfolding a batch_attribute_try_from_def batch_attribute_i16_def compression_try_from_def
      timestamp_type_from_def
    by (cases c; cases t; cases x; cases y; cases z) simp_all
qed

lemma try_get_signed_to_be [simp]:
  "fits_signed (8 * n) x \<Longrightarrow> 0 < n \<Longrightarrow> try_get_signed n (to_be n x @ rest) = (Inr x, rest)"
  by (simp add: try_get_signed_def)

lemma try_get_unsigned_to_be [simp]:
  "0 \<le> x \<Longrightarrow> x < 2 ^ (8 * n) \<Longrightarrow> try_get_unsigned n (to_be n x @ rest) = (Inr x, rest)"
  by (simp add: try_get_unsigned_def)

text \<open>A batch whose fields are in range and whose length field counts its record data.\<close>

definition batch_wf :: "deflated_batch \<Rightarrow> bool" where
  "batch_wf b \<longleftrightarrow>
     fits_signed 64 (b_base_offset b) \<and> fits_signed 32 (b_batch_length b)
     \<and> fits_signed 32 (b_partition_leader_epoch b) \<and> fits_signed 8 (b_magic b)
     \<and> 0 \<le> b_crc b \<and> b_crc b < 2 ^ 32 \<and> fits_signed 16 (b_attributes b)
     \<and> fits_signed 32 (b_last_offset_delta b) \<and> fits_signed 64 (b_base_timestamp b)
     \<and> fits_signed 64 (b_max_timestamp b) \<and> fits_signed 64 (b_producer_id b)
     \<and> fits_signed 16 (b_producer_epoch b) \<and> fits_signed 32 (b_base_sequence b)
     \<and> 0 \<le> b_record_count b \<and> b_record_count b < 2 ^ 32
     \<and> b_batch_length b = FIXED_BATCH_LENGTH + int (length (b_record_data b))"

lemma batch_header_round_trip:
  assumes "batch_wf b"
  shows "fst (batch_header_fields (b_base_offset b) (b_batch_length b) (b_partition_leader_epoch b)
      (b_magic b) (b_crc b) (crc_data_bytes b @ rest)) = Inr b"
  using assms
  by (simp add: batch_header_fields_def crc_data_bytes_def batch_wf_def check_size_def
      record_data_size_def FIXED_BATCH_LENGTH_def)

lemma batch_try_from_bytes:
  assumes "batch_wf b"
  shows "batch_try_from (batch_bytes b @ rest) = Inr b"
proof -
  have bytes: "batch_bytes b @ rest = to_be 8 (b_base_offset b) @ to_be 4 (b_batch_length b)
      @ to_be 4 (b_partition_leader_epoch b) @ to_be 1 (b_magic b) @ to_be 4 (b_crc b)
      @ crc_data_bytes b @ rest"
    by (simp add: batch_bytes_def crc_data_bytes_def)
  have size: "check_size (crc_data_size (b_batch_length b)) (crc_data_bytes b @ rest) =
      (Inr (nat (b_batch_length b - 9)), crc_data_bytes b @ rest)"
    using assms by (simp add: check_size_def crc_data_size_def batch_wf_def FIXED_BATCH_LENGTH_def crc_data_bytes_def)
  have ranges: "fits_signed 64 (b_base_offset b)" "fits_signed 32 (b_batch_length b)"
    "fits_signed 32 (b_partition_leader_epoch b)" "fits_signed 8 (b_magic b)" "0 \<le> b_crc b" "b_crc b < 2 ^ 32"
    using assms unfolding batch_wf_def by auto
  show ?thesis
    unfolding batch_try_from_def bytes
    using ranges batch_header_round_trip [OF assms, of rest] by (simp add: size)
qed


definition tiny_batch :: deflated_batch where
  "tiny_batch = \<lparr>b_base_offset = 0, b_batch_length = 52, b_partition_leader_epoch = -1, b_magic = 2,
     b_crc = 0, b_attributes = 0, b_last_offset_delta = 0, b_base_timestamp = 5, b_max_timestamp = 5,
     b_producer_id = -1, b_producer_epoch = -1, b_base_sequence = -1, b_record_count = 1,
     b_record_data = [1, 2, 3]\<rparr>"


end
