(* ===== verification/Record_Codec.thy ===== *)
theory Record_Codec
  imports Batch_Codec
begin

text \<open>
  Kafka records inside a batch: the zigzag variable-length integers of
  \<open>tansu-sans-io/src/primitive/varint.rs\<close>, the nullable octets and counted sequences of
  \<open>record/codec.rs\<close>, headers (\<open>record/header.rs\<close>), records (\<open>record.rs\<close>), and the uncompressed
  batches the builder of \<open>record/inflated.rs\<close> makes.  \<open>Panic\<close> is a Rust panic.
\<close>

section \<open>Variable-length integers\<close>

definition en_zigzag :: "'a::len word \<Rightarrow> 'a word" where
  "en_zigzag x = push_bit 1 x XOR signed_drop_bit (LENGTH('a) - 1) x"

definition de_zigzag :: "'a::len word \<Rightarrow> 'a word" where
  "de_zigzag x = drop_bit 1 x XOR - (x AND 1)"

text \<open>The encoding loop, \<open>while v >= 128\<close>, and the size it will have.\<close>

fun put_varint :: "nat \<Rightarrow> bytes" where
  "put_varint v = (if v \<ge> 128 then (word_of_nat v OR 128) # put_varint (v div 128) else [word_of_nat v])"

fun varint_size :: "nat \<Rightarrow> nat" where
  "varint_size v = (if v \<ge> 128 then Suc (varint_size (v div 128)) else 1)"

declare put_varint.simps [simp del] varint_size.simps [simp del]

text \<open>
  The decoding loop at width \<open>w\<close> (32 for \<open>VarInt\<close>, 64 for \<open>LongVarInt\<close>): \<open>checked_shl\<close> fails on a
  shift of the width or more and drops the bits shifted out; \<open>checked_add\<close> fails on a carry.
\<close>

fun get_varint :: "nat \<Rightarrow> nat \<Rightarrow> nat \<Rightarrow> (bytes, nat) op" where
  "get_varint w shift acc [] = (Inl (SansIo TryGet), [])"
| "get_varint w shift acc (b # bs) =
     (let more = (b AND 128 = 128);
          part = (if more then unat (b AND 127) else unat b)
      in if shift \<ge> w then (Inl (SansIo SansOverflow), bs)
         else let acc' = acc + (part * 2 ^ shift) mod 2 ^ w
         in if acc' \<ge> 2 ^ w then (Inl (SansIo SansOverflow), bs)
            else if more then get_varint w (shift + 7) acc' bs
            else (Inr acc', bs))"

definition varint_encode :: "int \<Rightarrow> bytes" where
  "varint_encode x = put_varint (unat (en_zigzag (word_of_int x :: 32 word)))"

definition long_varint_encode :: "int \<Rightarrow> bytes" where
  "long_varint_encode x = put_varint (unat (en_zigzag (word_of_int x :: 64 word)))"

definition varint_decode :: "(bytes, int) op" where
  "varint_decode = and_then (get_varint 32 0 0) (\<lambda>v. ok (sint (de_zigzag (word_of_nat v :: 32 word))))"

definition long_varint_decode :: "(bytes, int) op" where
  "long_varint_decode = and_then (get_varint 64 0 0) (\<lambda>v. ok (sint (de_zigzag (word_of_nat v :: 64 word))))"

section \<open>Octets, headers and records\<close>

type_synonym octets = "bytes option"

definition octets_encode :: "octets \<Rightarrow> error + bytes" where
  "octets_encode oc =
     (case oc of
        None \<Rightarrow> Inr (varint_encode (-1))
      | Some data \<Rightarrow>
          if fits_signed 32 (int (length data)) then Inr (varint_encode (int (length data)) @ data)
          else Inl (SansIo TryFromInt))"

text \<open>\<open>split_to(length as usize)\<close> panics when fewer bytes are left; a negative length other than \<open>-1\<close>
  is a huge \<open>usize\<close>.\<close>

definition octets_decode :: "(bytes, octets) op" where
  "octets_decode = and_then varint_decode (\<lambda>n bs.
     if n = -1 then (Inr None, bs)
     else if n < 0 \<or> length bs < nat n then (Inl Panic, bs)
     else (Inr (Some (take (nat n) bs)), drop (nat n) bs))"

record record_header =
  header_key :: octets
  header_value :: octets

definition header_encode :: "record_header \<Rightarrow> error + bytes" where
  "header_encode h =
     (case octets_encode (header_key h) of Inl e \<Rightarrow> Inl e
      | Inr k \<Rightarrow> (case octets_encode (header_value h) of Inl e \<Rightarrow> Inl e | Inr v \<Rightarrow> Inr (k @ v)))"

definition header_decode :: "(bytes, record_header) op" where
  "header_decode = and_then octets_decode (\<lambda>k. and_then octets_decode (\<lambda>v.
     ok \<lparr>header_key = k, header_value = v\<rparr>))"

text \<open>\<open>VarIntSequence\<close>: a count and the items.\<close>

fun encode_items :: "('a \<Rightarrow> error + bytes) \<Rightarrow> 'a list \<Rightarrow> error + bytes" where
  "encode_items enc [] = Inr []"
| "encode_items enc (x # xs) =
     (case enc x of Inl e \<Rightarrow> Inl e
      | Inr b \<Rightarrow> (case encode_items enc xs of Inl e \<Rightarrow> Inl e | Inr bs \<Rightarrow> Inr (b @ bs)))"

definition sequence_encode :: "('a \<Rightarrow> error + bytes) \<Rightarrow> 'a list \<Rightarrow> error + bytes" where
  "sequence_encode enc xs =
     (if fits_signed 32 (int (length xs)) then
        (case encode_items enc xs of Inl e \<Rightarrow> Inl e | Inr bs \<Rightarrow> Inr (varint_encode (int (length xs)) @ bs))
      else Inl (SansIo TryFromInt))"

fun decode_items :: "(bytes, 'a) op \<Rightarrow> nat \<Rightarrow> (bytes, 'a list) op" where
  "decode_items dec 0 = ok []"
| "decode_items dec (Suc n) = and_then dec (\<lambda>x. and_then (decode_items dec n) (\<lambda>xs. ok (x # xs)))"

definition sequence_decode :: "(bytes, 'a) op \<Rightarrow> (bytes, 'a list) op" where
  "sequence_decode dec = and_then varint_decode (\<lambda>n.
     if n < 0 then throw Panic else decode_items dec (nat n))"

record kafka_record =
  r_length :: int
  r_attributes :: byte
  r_timestamp_delta :: int
  r_offset_delta :: int
  r_key :: octets
  r_value :: octets
  r_headers :: "record_header list"

definition record_body_encode :: "kafka_record \<Rightarrow> error + bytes" where
  "record_body_encode r =
     (case octets_encode (r_key r) of Inl e \<Rightarrow> Inl e | Inr k \<Rightarrow>
      (case octets_encode (r_value r) of Inl e \<Rightarrow> Inl e | Inr v \<Rightarrow>
       (case sequence_encode header_encode (r_headers r) of Inl e \<Rightarrow> Inl e | Inr h \<Rightarrow>
         Inr (r_attributes r # long_varint_encode (r_timestamp_delta r)
              @ varint_encode (r_offset_delta r) @ k @ v @ h))))"

definition record_encode :: "kafka_record \<Rightarrow> error + bytes" where
  "record_encode r =
     (case record_body_encode r of Inl e \<Rightarrow> Inl e | Inr b \<Rightarrow> Inr (varint_encode (r_length r) @ b))"

text \<open>\<open>get_u8\<close> panics on an empty buffer.\<close>

definition get_u8 :: "(bytes, byte) op" where
  "get_u8 bs = (case bs of [] \<Rightarrow> (Inl Panic, []) | b # bs' \<Rightarrow> (Inr b, bs'))"

definition record_decode :: "(bytes, kafka_record) op" where
  "record_decode =
     and_then varint_decode (\<lambda>len.
     and_then get_u8 (\<lambda>attributes.
     and_then long_varint_decode (\<lambda>timestamp_delta.
     and_then varint_decode (\<lambda>offset_delta.
     and_then octets_decode (\<lambda>key.
     and_then octets_decode (\<lambda>val.
     and_then (sequence_decode header_decode) (\<lambda>headers.
     ok \<lparr>r_length = len, r_attributes = attributes, r_timestamp_delta = timestamp_delta,
         r_offset_delta = offset_delta, r_key = key, r_value = val, r_headers = headers\<rparr>)))))))"

text \<open>\<open>Record::try_from(Builder)\<close>: the length field counts the encoded body.\<close>

definition record_build :: "kafka_record \<Rightarrow> error + kafka_record" where
  "record_build r =
     (case record_body_encode r of Inl e \<Rightarrow> Inl e | Inr b \<Rightarrow>
        if fits_signed 32 (int (length b)) then Inr (r\<lparr>r_length := int (length b)\<rparr>)
        else Inl (SansIo TryFromInt))"

section \<open>Round trips\<close>

lemma zigzag_round_trip: "de_zigzag (en_zigzag x) = (x :: 'a::len word)"
proof (rule bit_word_eqI)
  fix n assume n: "n < LENGTH('a)"
  have s: "bit (signed_drop_bit (LENGTH('a) - 1) x) k \<longleftrightarrow> bit x (LENGTH('a) - 1)" if "k < LENGTH('a)" for k
    using that by (cases k) (simp_all add: bit_signed_drop_bit_iff)
  have z: "bit (en_zigzag x) k \<longleftrightarrow> (0 < k \<and> bit x (k - 1)) \<noteq> bit x (LENGTH('a) - 1)" if "k < LENGTH('a)" for k
    unfolding en_zigzag_def
    by (simp only: bit_xor_iff bit_push_bit_iff possible_bit_word s [OF that]) (use that in auto)
  have m: "bit (- (en_zigzag x AND 1)) n \<longleftrightarrow> bit x (LENGTH('a) - 1)"
  proof (cases "bit (en_zigzag x) 0")
    case True
    then have "en_zigzag x AND 1 = 1" by (simp add: and_one_eq bit_0 odd_iff_mod_2_eq_one)
    then show ?thesis using True n z [of 0] by simp
  next
    case False
    then have "en_zigzag x AND 1 = 0" by (simp add: and_one_eq bit_0 even_iff_mod_2_eq_zero)
    then show ?thesis using False z [of 0] by simp
  qed
  show "bit (de_zigzag (en_zigzag x)) n \<longleftrightarrow> bit x n"
  proof (cases "Suc n < LENGTH('a)")
    case True
    then show ?thesis
      using z [of "Suc n"] m n by (auto simp: de_zigzag_def bit_xor_iff bit_drop_bit_eq)
  next
    case False
    then have "n = LENGTH('a) - 1" using n by simp
    then show ?thesis
      using m n by (auto simp: de_zigzag_def bit_xor_iff bit_drop_bit_eq dest: bit_imp_le_length)
  qed
qed

lemma mask_7: "(127 :: byte) = mask 7"
  by (simp add: mask_eq_exp_minus_1)

lemma byte_more:
  "(word_of_nat v OR 128 :: byte) AND 128 = 128"
  "unat ((word_of_nat v OR 128 :: byte) AND 127) = v mod 128"
proof -
  show "(word_of_nat v OR 128 :: byte) AND 128 = 128"
    by (simp add: bit.conj_disj_distrib2 bit.disj_conj_distrib)
  have "(word_of_nat v OR 128 :: byte) AND 127 = take_bit 7 (word_of_nat v)"
    unfolding mask_7 take_bit_eq_mask [symmetric] by (simp add: take_bit_or)
  then show "unat ((word_of_nat v OR 128 :: byte) AND 127) = v mod 128"
    by (simp only: unsigned_take_bit_eq unat_of_nat) (simp add: take_bit_eq_mod mod_mod_cancel)
qed

lemma byte_last:
  assumes "v < 128"
  shows "(word_of_nat v :: byte) AND 128 \<noteq> 128" "unat (word_of_nat v :: byte) = v"
proof -
  show u: "unat (word_of_nat v :: byte) = v"
    using assms by (simp add: unat_of_nat)
  have "unat ((word_of_nat v :: byte) AND 128) \<le> v"
    using word_and_le2 [of "word_of_nat v" "128 :: byte"] u by (simp add: word_le_nat_alt)
  then show "(word_of_nat v :: byte) AND 128 \<noteq> 128"
    using assms by auto
qed

lemma shift_sum: "(a :: nat) * 2 ^ s + b * 2 ^ (s + 7) = (a + b * 128) * 2 ^ s"
  by (simp add: power_add algebra_simps)

lemma get_put_varint:
  assumes "acc + v * 2 ^ s < 2 ^ w" and "0 < v \<or> s < w"
  shows "get_varint w s acc (put_varint v @ rest) = (Inr (acc + v * 2 ^ s), rest)"
  using assms
proof (induction v arbitrary: s acc rule: put_varint.induct)
  case (1 v)
  have s: "s < w"
  proof (rule ccontr)
    assume "\<not> s < w"
    then have "0 < v" "(2 :: nat) ^ w \<le> 2 ^ s" using "1.prems"(2) by auto
    then have "2 ^ w \<le> v * 2 ^ s" by (metis mult_le_mono1 Suc_leI mult_1 One_nat_def le_trans)
    then show False using "1.prems"(1) by simp
  qed
  show ?case
  proof (cases "v \<ge> 128")
    case True
    have sum: "v mod 128 * 2 ^ s + v div 128 * 2 ^ (s + 7) = v * 2 ^ s"
      using shift_sum [of "v mod 128" s "v div 128"] by simp
    then have lt: "acc + v mod 128 * 2 ^ s + v div 128 * 2 ^ (s + 7) < 2 ^ w"
      using "1.prems"(1) by simp
    then have "v mod 128 * 2 ^ s < 2 ^ w" "acc + v mod 128 * 2 ^ s < 2 ^ w" by linarith+
    moreover have "get_varint w (s + 7) (acc + v mod 128 * 2 ^ s) (put_varint (v div 128) @ rest) =
      (Inr (acc + v * 2 ^ s), rest)"
      using "1.IH" [OF True lt] True sum by (simp add: add.assoc div_greater_zero_iff)
    ultimately show ?thesis
      using True s by (subst put_varint.simps) (simp add: byte_more Let_def)
  next
    case False
    then show ?thesis
      using s "1.prems"(1) by (subst put_varint.simps) (simp add: byte_last Let_def)
  qed
qed


lemma sint_fits:
  "fits_signed 32 x \<Longrightarrow> sint (word_of_int x :: 32 word) = x"
  "fits_signed 64 x \<Longrightarrow> sint (word_of_int x :: 64 word) = x"
  by (simp_all add: signed_of_int signed_take_bit_int_eq_self fits_signed_def)

lemma unat_less: "unat (w :: 32 word) < 2 ^ 32" "unat (v :: 64 word) < 2 ^ 64"
  by (rule order_less_le_trans [OF unsigned_less], simp)+

lemma varint_round_trip [simp]:
  "fits_signed 32 x \<Longrightarrow> varint_decode (varint_encode x @ rest) = (Inr x, rest)"
  using get_put_varint [of 0 "unat (en_zigzag (word_of_int x :: 32 word))" 0 32 rest] unat_less(1)
  by (simp add: varint_decode_def varint_encode_def zigzag_round_trip sint_fits)

lemma long_varint_round_trip [simp]:
  "fits_signed 64 x \<Longrightarrow> long_varint_decode (long_varint_encode x @ rest) = (Inr x, rest)"
  using get_put_varint [of 0 "unat (en_zigzag (word_of_int x :: 64 word))" 0 64 rest] unat_less(2)
  by (simp add: long_varint_decode_def long_varint_encode_def zigzag_round_trip sint_fits)

lemma length_put_varint: "length (put_varint v) = varint_size v"
  by (induction v rule: put_varint.induct) (subst put_varint.simps, subst varint_size.simps, simp)

text \<open>
  A codec writes a value and reads it back from the front of any buffer.  Counted sequences of a
  codec's values are a codec again.
\<close>

locale byte_codec =
  fixes enc :: "'a \<Rightarrow> error + bytes"
    and dec :: "(bytes, 'a) op"
    and good :: "'a \<Rightarrow> bool"
  assumes dec_enc: "good x \<Longrightarrow> enc x = Inr bs \<Longrightarrow> dec (bs @ rest) = (Inr x, rest)"
begin

lemma decode_encode_items:
  "list_all good xs \<Longrightarrow> encode_items enc xs = Inr bs \<Longrightarrow>
   decode_items dec (length xs) (bs @ rest) = (Inr xs, rest)"
proof (induction xs arbitrary: bs)
  case Nil
  then show ?case by simp
next
  case (Cons x xs)
  then obtain b bs' where b: "enc x = Inr b" "encode_items enc xs = Inr bs'" "bs = b @ bs'"
    by (auto split: sum.splits)
  then show ?case
    using Cons.IH [OF _ b(2)] Cons.prems dec_enc [of x b "bs' @ rest"] by simp
qed

lemma sequence_round_trip:
  "list_all good xs \<Longrightarrow> sequence_encode enc xs = Inr bs \<Longrightarrow>
   sequence_decode dec (bs @ rest) = (Inr xs, rest)"
  by (auto simp: sequence_encode_def sequence_decode_def decode_encode_items split: if_splits sum.splits)

end

interpretation octets_codec: byte_codec octets_encode octets_decode "\<lambda>_. True"
proof
  fix x bs rest
  assume "octets_encode x = Inr bs"
  then show "octets_decode (bs @ rest) = (Inr x, rest)"
    by (cases x) (auto simp: octets_encode_def octets_decode_def fits_signed_def split: if_splits)
qed

interpretation header_codec: byte_codec header_encode header_decode "\<lambda>_. True"
proof
  fix x bs rest
  assume "header_encode x = Inr bs"
  then show "header_decode (bs @ rest) = (Inr x, rest)"
    by (auto simp: header_encode_def header_decode_def octets_codec.dec_enc split: sum.splits)
qed

definition record_ranges :: "kafka_record \<Rightarrow> bool" where
  "record_ranges r \<longleftrightarrow> fits_signed 32 (r_length r) \<and> fits_signed 64 (r_timestamp_delta r)
     \<and> fits_signed 32 (r_offset_delta r)"

interpretation record_codec: byte_codec record_encode record_decode record_ranges
proof
  fix r bs rest
  assume "record_ranges r" and "record_encode r = Inr bs"
  then obtain k v h where enc: "octets_encode (r_key r) = Inr k" "octets_encode (r_value r) = Inr v"
    "sequence_encode header_encode (r_headers r) = Inr h"
    and bs: "bs = varint_encode (r_length r) @ r_attributes r # long_varint_encode (r_timestamp_delta r)
              @ varint_encode (r_offset_delta r) @ k @ v @ h"
    by (auto simp: record_encode_def record_body_encode_def split: sum.splits)
  have "sequence_decode header_decode (h @ rest) = (Inr (r_headers r), rest)"
    using header_codec.sequence_round_trip [OF _ enc(3)] by (simp add: list_all_iff)
  then show "record_decode (bs @ rest) = (Inr r, rest)"
    using \<open>record_ranges r\<close> enc
    by (simp add: record_decode_def bs record_ranges_def get_u8_def octets_codec.dec_enc)
qed


section \<open>Control batches\<close>

text \<open>
  \<open>ControlBatch\<close> and \<open>EndTransactionMarker\<close> as bytes, and the end-of-transaction marker batch that
  \<open>Engine::produce_marker\<close> builds from them with the batch builder.
\<close>

definition control_batch_bytes :: "bool \<Rightarrow> bytes" where
  "control_batch_bytes committed = to_be 2 0 @ to_be 2 (if committed then 1 else 0)"

definition end_transaction_marker_bytes :: bytes where
  "end_transaction_marker_bytes = to_be 2 0 @ to_be 4 0"

definition marker_record :: "bool \<Rightarrow> kafka_record" where
  "marker_record committed = \<lparr>r_length = 0, r_attributes = 0, r_timestamp_delta = 0, r_offset_delta = 0,
     r_key = Some (control_batch_bytes committed), r_value = Some end_transaction_marker_bytes, r_headers = []\<rparr>"

definition marker_batch :: "(bytes \<Rightarrow> 32 word) \<Rightarrow> int \<Rightarrow> bool \<Rightarrow> int \<Rightarrow> int \<Rightarrow> error + deflated_batch" where
  "marker_batch crc now committed producer_id producer_epoch =
     (case record_build (marker_record committed) of Inl e \<Rightarrow> Inl e | Inr r \<Rightarrow>
      (case record_encode r of Inl e \<Rightarrow> Inl e | Inr data \<Rightarrow>
        into_batch crc \<lparr>b_base_offset = 0, b_batch_length = 0, b_partition_leader_epoch = -1, b_magic = 2,
          b_crc = 0, b_attributes = batch_attribute_i16 (batch_attribute_default
            \<lparr>attr_control := True, attr_transaction := True\<rparr>),
          b_last_offset_delta = 0, b_base_timestamp = now, b_max_timestamp = now,
          b_producer_id = producer_id, b_producer_epoch = producer_epoch, b_base_sequence = -1,
          b_record_count = 1, b_record_data = data\<rparr>))"

lemma marker_record_data:
  "case record_build (marker_record committed) of Inl _ \<Rightarrow> False
   | Inr r \<Rightarrow> (case record_encode r of Inl _ \<Rightarrow> False | Inr data \<Rightarrow> length data = 17)"
proof (cases committed)
  case True
  then show ?thesis by (simp only:) code_simp
next
  case False
  then show ?thesis by (simp only:) code_simp
qed

lemma marker_batch_fields:
  "\<exists>b. marker_batch crc now committed pid e = Inr b \<and> b_attributes b = 48 \<and> b_last_offset_delta b = 0
     \<and> b_producer_id b = pid \<and> b_producer_epoch b = e \<and> b_base_sequence b = -1 \<and> b_max_timestamp b = now"
proof -
  obtain r data where r: "record_build (marker_record committed) = Inr r" "record_encode r = Inr data"
    "length data = 17"
    using marker_record_data [of committed] by (auto split: sum.splits)
  have "batch_attribute_i16 (batch_attribute_default\<lparr>attr_control := True, attr_transaction := True\<rparr>) = 48"
    by code_simp
  with r show ?thesis
    by (simp add: marker_batch_def into_batch_def FIXED_BATCH_LENGTH_def fits_signed_def)
qed

section \<open>The codecs are lossless\<close>

text \<open>C22: A record whose integer fields are in the range of their types is read back exactly from its
  encoding, headers, null keys and values included, and the decoder leaves the buffer at the first
  byte after it; so a run of records is read back in order.\<close>

theorem records_round_trip:
  assumes "list_all record_ranges rs" and "encode_items record_encode rs = Inr bs"
  shows "decode_items record_decode (length rs) (bs @ rest) = (Inr rs, rest)"
  using assms by (rule record_codec.decode_encode_items)

theorem records_round_trip_witness:
  "\<exists>bs. encode_items record_encode [marker_record True, marker_record False] = Inr bs
     \<and> decode_items record_decode (length [marker_record True, marker_record False]) (bs @ [7]) = (Inr [marker_record True, marker_record False], [7])"
proof -
  have ok: "list_all record_ranges [marker_record True, marker_record False]" by code_simp
  have "case encode_items record_encode [marker_record True, marker_record False] of Inl _ \<Rightarrow> False | Inr _ \<Rightarrow> True"
    by code_simp
  then obtain bs where bs: "encode_items record_encode [marker_record True, marker_record False] = Inr bs"
    by (auto split: sum.splits)
  from records_round_trip [OF ok bs, of "[7]"] bs show ?thesis
    by blast
qed

text \<open>A length prefix that promises more bytes than there are makes the decoder panic.\<close>

lemma octets_decode_panics: "octets_decode [2] = (Inl Panic, [])"
proof -
  have "get_varint 32 0 0 [2] = (Inr 2, [])" by (simp add: Let_def)
  moreover have "sint (de_zigzag (2 :: 32 word)) = 1" by (simp add: de_zigzag_def)
  ultimately show ?thesis by (simp add: octets_decode_def varint_decode_def)
qed

end
