(* ===== verification/Engine_Core.thy ===== *)
theory Engine_Core
  imports Snap_Doc Record_Codec
begin

text \<open>
  The engine of \<open>tansu-storage/src/nvme/mod.rs\<close>: its state, its environment, the durable WAL append
  and the produce path.  Every handler is a definition on the whole state, with each early return of
  the source a branch of it.

  The environment is a parameter: the checksum, the schema registry, clock and identifier sources,
  the size of a serialised WAL record, and the outcome of every I/O operation.  The \<open>n\<close>-th I/O
  operation of a run has outcome \<open>env_io n\<close>: it is done, or refused after some bytes reached the
  file, or everything reached the file but the durability ack failed.  No assumption is made about
  the outcomes, so the theorems hold for every pattern of failures.
\<close>

datatype io_outcome = Done | Refused error nat | Unacked error

datatype fsync_mode = Always | Interval nat

text \<open>Durations are in milliseconds, sizes in bytes.\<close>

record config =
  cfg_fsync :: fsync_mode
  cfg_fetch_max_block :: nat
  cfg_segment_bytes :: nat
  cfg_snapshot_wal_bytes :: nat
  cfg_tail_cache_bytes :: nat
  cfg_disk_budget :: "64 word"
  cfg_tier :: "string option"
  cfg_tier_interval :: nat
  cfg_segment_age :: nat

definition config_default :: config where
  "config_default = \<lparr>cfg_fsync = Always, cfg_fetch_max_block = 250, cfg_segment_bytes = 256 * 1024 * 1024,
     cfg_snapshot_wal_bytes = 64 * 1024 * 1024, cfg_tail_cache_bytes = 8 * 1024 * 1024,
     cfg_disk_budget = 0, cfg_tier = None, cfg_tier_interval = 5000, cfg_segment_age = 300000\<rparr>"

record env =
  env_cluster :: string
  env_node :: int
  env_host :: "string option"
  env_port :: "int option"
  env_config :: config
  env_crc :: crc
  env_schemas :: "(string \<Rightarrow> deflated_batch \<Rightarrow> error option) option"
  env_io :: "nat \<Rightarrow> io_outcome"
  env_now :: "nat \<Rightarrow> system_time"
  env_uuid :: "nat \<Rightarrow> uuid"
  env_uuid_string :: "uuid \<Rightarrow> string"
  env_wal_size :: "wal_record \<Rightarrow> nat"

text \<open>
  \<open>eng_wal\<close> holds the records of the current WAL file, \<open>eng_retired\<close> the files of earlier sequences
  still on disk, \<open>eng_usage\<close> the 64-bit byte counter of the disk budget, \<open>eng_ticks\<close> the number of
  I/O operations so far.
\<close>

record engine =
  eng_coord :: coord_state
  eng_partitions :: "(topition, partition_inner) fmap"
  eng_groups :: "(string, group_detail \<times> version) fmap"
  eng_offsets :: "(string \<times> topition, offset_commit_request) fmap"
  eng_wal_seq :: nat
  eng_wal :: "wal_record list"
  eng_wal_bytes :: nat
  eng_retired :: "(nat, wal_record list) fmap"
  eng_snapshots :: "(nat, snapshot_doc) fmap"
  eng_usage :: "64 word"
  eng_ticks :: nat

type_synonym 'a eop = "(engine, 'a) op"

text \<open>Perform one I/O operation: its outcome, and the clock advanced.\<close>

definition tick :: "engine \<Rightarrow> engine" where
  "tick e = e\<lparr>eng_ticks := Suc (eng_ticks e)\<rparr>"

definition io :: "env \<Rightarrow> engine \<Rightarrow> io_outcome" where
  "io env e = env_io env (eng_ticks e)"

definition log_record :: "env \<Rightarrow> wal_record \<Rightarrow> engine \<Rightarrow> engine" where
  "log_record env r e = e\<lparr>eng_wal := eng_wal e @ [r],
     eng_wal_bytes := eng_wal_bytes e + env_wal_size env r,
     eng_usage := eng_usage e + word_of_nat (env_wal_size env r)\<rparr>"

definition wal_append :: "env \<Rightarrow> wal_record \<Rightarrow> unit eop" where
  "wal_append env r e =
     (case io env e of
        Refused err n \<Rightarrow> (Inl err, tick e)
      | Unacked err \<Rightarrow> (Inl err, log_record env r (tick e))
      | Done \<Rightarrow> (Inr (), log_record env r (tick e)))"

definition set_partition :: "topition \<Rightarrow> partition_inner \<Rightarrow> engine \<Rightarrow> engine" where
  "set_partition tp s e = e\<lparr>eng_partitions := fmupd tp s (eng_partitions e)\<rparr>"

text \<open>\<open>Engine::partition\<close>: the partition's state, created (with its directory) on demand.\<close>

definition ensure_partition :: "env \<Rightarrow> topition \<Rightarrow> partition_inner eop" where
  "ensure_partition env tp e =
     (case fmlookup (eng_partitions e) tp of
        Some s \<Rightarrow> (Inr s, e)
      | None \<Rightarrow>
          (case io env e of
             Refused err n \<Rightarrow> (Inl err, tick e)
           | _ \<Rightarrow> (Inr partition_new, set_partition tp partition_new (tick e))))"

definition partition_if_exists :: "topition \<Rightarrow> engine \<Rightarrow> partition_inner option" where
  "partition_if_exists tp e = fmlookup (eng_partitions e) tp"

section \<open>Produce\<close>

text \<open>The coordination checks of \<open>produce\<close>, under the coordination lock.\<close>

definition produce_coordination ::
    "string option \<Rightarrow> topition \<Rightarrow> deflated_batch \<Rightarrow> batch_attribute \<Rightarrow> (coord_state, unit) op" where
  "produce_coordination tid tp b attrs =
     and_then
       (if is_idempotent b
        then validate_sequence (b_producer_id b) (b_producer_epoch b) (b_base_sequence b)
               (b_last_offset_delta b) (topic tp) (partition tp)
        else ok ())
       (\<lambda>_ c.
          case tid of
            None \<Rightarrow> (Inr (), c)
          | Some tid \<Rightarrow>
              if attr_transaction attrs \<and> \<not> attr_control attrs then
                (case txn_detail_of c tid (b_producer_epoch b) of
                   None \<Rightarrow> (Inr (), c)
                 | Some d \<Rightarrow> if txn_status d \<noteq> Some Begin then (Inl (Api InvalidTxnState), c) else (Inr (), c))
              else (Inr (), c))"

text \<open>Everything \<open>produce\<close> does before it takes the partition's lock.\<close>

definition produce_guard ::
    "env \<Rightarrow> string option \<Rightarrow> topition \<Rightarrow> deflated_batch \<Rightarrow> batch_attribute eop" where
  "produce_guard env tid tp b e =
     (case batch_attribute_try_from (b_attributes b) of
        Inl err \<Rightarrow> (Inl err, e)
      | Inr attrs \<Rightarrow>
          if cfg_disk_budget (env_config env) > 0 \<and> eng_usage e \<ge> cfg_disk_budget (env_config env)
          then (Inl (Api KafkaStorageError), e)
          else
            (case (if is_idempotent b \<or> (tid \<noteq> None \<and> attr_transaction attrs)
                   then produce_coordination tid tp b attrs (eng_coord e) else (Inr (), eng_coord e)) of
               (Inl err, c) \<Rightarrow> (Inl err, e\<lparr>eng_coord := c\<rparr>)
             | (Inr _, c) \<Rightarrow>
                 let e = e\<lparr>eng_coord := c\<rparr> in
                 (case env_schemas env of
                    None \<Rightarrow> (Inr attrs, e)
                  | Some validate \<Rightarrow>
                      if attr_control attrs then (Inr attrs, e)
                      else (case validate (topic tp) b of
                              None \<Rightarrow> (Inr attrs, e)
                            | Some err \<Rightarrow> (Inl err, e)))))"

text \<open>
  The section under the partition's lock, on the partition alone.  First the active segment:
  created on the first produce, rotated at the size threshold.  The outcome of creating the file is
  \<open>out\<close>.  An error leaves the sealed writer dropped and the next offset already moved.
\<close>

definition needs_segment :: "config \<Rightarrow> partition_inner \<Rightarrow> bool" where
  "needs_segment cfg s \<longleftrightarrow>
     (case seg_writer s of None \<Rightarrow> True | Some w \<Rightarrow> writer_position w \<ge> cfg_segment_bytes cfg)"

definition retire_writer :: "partition_inner \<Rightarrow> partition_inner" where
  "retire_writer s =
     (case seg_writer s of
        None \<Rightarrow> s
      | Some old \<Rightarrow> s\<lparr>seg_writer := None, read_files := finsert (writer_base old) (read_files s)\<rparr>)"

definition roll_segment :: "io_outcome \<Rightarrow> int \<Rightarrow> int \<Rightarrow> (partition_inner, unit) op" where
  "roll_segment out now offset s =
     (let s = retire_writer s in
      case out of
        Refused err n \<Rightarrow> (Inl err, s)
      | _ \<Rightarrow> (case segment_create now offset (files s) of
          Inl err \<Rightarrow> (Inl err, s)
        | Inr (w, dir) \<Rightarrow> (Inr (), s\<lparr>seg_writer := Some w, files := dir\<rparr>)))"

text \<open>The write of the frame to the active segment's file.\<close>

definition write_frame :: "io_outcome \<Rightarrow> bytes \<Rightarrow> (partition_inner, int \<times> nat) op" where
  "write_frame out framed s =
     (case seg_writer s of
        None \<Rightarrow> (Inl Panic, s)
      | Some w \<Rightarrow>
          (case segment_append (case out of Refused err n \<Rightarrow> Some n | _ \<Rightarrow> None) framed
                  (w, entry_or [] (files s) (writer_base w)) of
             (res, w', file) \<Rightarrow>
               (case res of
                  Inl err \<Rightarrow> (Inl err, s\<lparr>files := fmupd (writer_base w) file (files s)\<rparr>)
                | Inr pos \<Rightarrow> (Inr (writer_base w, pos),
                    s\<lparr>seg_writer := Some w', files := fmupd (writer_base w) file (files s)\<rparr>))))"

definition batch_entry_of ::
    "deflated_batch \<Rightarrow> batch_attribute \<Rightarrow> int \<Rightarrow> nat \<Rightarrow> nat \<Rightarrow> batch_entry" where
  "batch_entry_of b attrs seg pos len =
     \<lparr>entry_segment = seg, entry_position = pos, entry_len = len, entry_tiered = False,
      entry_cached = Some (batch_bytes b), entry_delta = b_last_offset_delta b,
      entry_max_timestamp = b_max_timestamp b, entry_control = attr_control attrs,
      entry_transactional = attr_transaction attrs, entry_producer = b_producer_id b,
      entry_epoch = b_producer_epoch b, entry_sequence = b_base_sequence b\<rparr>"

definition open_txn :: "string option \<Rightarrow> batch_attribute \<Rightarrow> int \<Rightarrow> int \<Rightarrow> int \<Rightarrow> partition_inner \<Rightarrow> partition_inner" where
  "open_txn tid attrs pid epoch offset s =
     (case tid of
        None \<Rightarrow> s
      | Some tid \<Rightarrow>
          if attr_transaction attrs \<and> \<not> attr_control attrs
          then s\<lparr>open_txns := fmupd (tid, pid, epoch) (entry_or offset (open_txns s) (tid, pid, epoch)) (open_txns s)\<rparr>
          else s)"

text \<open>The three I/O outcomes of the section: creating a segment, writing the frame, queueing the sync.\<close>

definition append_batch ::
    "env \<Rightarrow> string option \<Rightarrow> deflated_batch \<Rightarrow> batch_attribute \<Rightarrow> int \<Rightarrow>
     io_outcome \<Rightarrow> io_outcome \<Rightarrow> io_outcome \<Rightarrow> (partition_inner, int \<times> nat) op" where
  "append_batch env tid b attrs now create_out write_out sync_out s =
     (let offset = next_offset s;
          s = s\<lparr>next_offset := offset + b_last_offset_delta b + 1\<rparr>;
          framed = encode_batch (env_crc env) offset (batch_bytes b)
      in and_then
           (if needs_segment (env_config env) s then roll_segment create_out now offset else ok ()) (\<lambda>_.
         and_then (write_frame write_out framed) (\<lambda>(seg, pos) s.
           case sync_out of
             Refused err n \<Rightarrow> (Inl err, s)
           | _ \<Rightarrow> (Inr (offset, length framed),
               open_txn tid attrs (b_producer_id b) (b_producer_epoch b) offset
                 (index_batch offset (batch_entry_of b attrs seg pos (length framed))
                   (cfg_tail_cache_bytes (env_config env)) s)))) s)"

definition produce_append ::
    "env \<Rightarrow> string option \<Rightarrow> topition \<Rightarrow> deflated_batch \<Rightarrow> batch_attribute \<Rightarrow> int eop" where
  "produce_append env tid tp b attrs e =
     (let t = eng_ticks e;
          s = entry_or partition_new (eng_partitions e) tp;
          (res, s') = append_batch env tid b attrs (env_now env t) (env_io env t) (env_io env (t + 1))
                        (env_io env (t + 2)) s;
          e' = set_partition tp s' (e\<lparr>eng_ticks := t + 3\<rparr>)
      in case res of
           Inl err \<Rightarrow> (Inl err, e')
         | Inr (offset, n) \<Rightarrow> (Inr offset, e'\<lparr>eng_usage := eng_usage e' + word_of_nat n\<rparr>))"

text \<open>After the group-commit ack: the high watermark moves, then the transaction records the range.\<close>

definition publish :: "topition \<Rightarrow> int \<Rightarrow> engine \<Rightarrow> engine" where
  "publish tp fin e =
     (let s = entry_or partition_new (eng_partitions e) tp
      in set_partition tp (s\<lparr>durable_offset := max (durable_offset s) fin\<rparr>) e)"

definition produce_complete ::
    "env \<Rightarrow> string option \<Rightarrow> topition \<Rightarrow> deflated_batch \<Rightarrow> batch_attribute \<Rightarrow> int \<Rightarrow> int eop" where
  "produce_complete env tid tp b attrs offset e =
     (case io env e of
        Refused err n \<Rightarrow> (Inl err, tick e)
      | Unacked err \<Rightarrow> (Inl err, tick e)
      | Done \<Rightarrow>
          let fin = offset + b_last_offset_delta b;
              e = publish tp (fin + 1) (tick e)
          in (case tid of
                None \<Rightarrow> (Inr offset, e)
              | Some tid \<Rightarrow>
                  if attr_transaction attrs then
                    (case record_txn_produce tid (b_producer_epoch b) (topic tp) (partition tp) offset fin
                            (attr_control attrs) (eng_coord e) of
                       (Inl err, c) \<Rightarrow> (Inl err, e\<lparr>eng_coord := c\<rparr>)
                     | (Inr _, c) \<Rightarrow> (Inr offset, e\<lparr>eng_coord := c\<rparr>))
                  else (Inr offset, e)))"

definition produce :: "env \<Rightarrow> string option \<Rightarrow> topition \<Rightarrow> deflated_batch \<Rightarrow> int eop" where
  "produce env tid tp b =
     and_then (produce_guard env tid tp b) (\<lambda>attrs.
     and_then (ensure_partition env tp) (\<lambda>_.
     and_then (produce_append env tid tp b attrs) (\<lambda>offset.
     produce_complete env tid tp b attrs offset)))"

definition produce_marker :: "env \<Rightarrow> string \<Rightarrow> int \<Rightarrow> int \<Rightarrow> bool \<Rightarrow> topition \<Rightarrow> int eop" where
  "produce_marker env tid pid epoch committed tp e =
     (case marker_batch (env_crc env) (env_now env (eng_ticks e)) committed pid epoch of
        Inl err \<Rightarrow> (Inl err, e)
      | Inr b \<Rightarrow> produce env (Some tid) tp b e)"

section \<open>The produce path keeps the partition invariant\<close>

section \<open>The section under the partition lock\<close>

lemma part_inv_next: "part_inv s \<Longrightarrow> next_offset s \<le> n \<Longrightarrow> part_inv (s\<lparr>next_offset := n\<rparr>)"
  by (fastforce simp: part_inv_defs)

lemma part_inv_retire [simp]: "part_inv (retire_writer s) = part_inv s"
  by (simp add: retire_writer_def part_inv_frame split: option.splits)

lemma roll_segment_inv: "roll_segment out now offset s = (res, s') \<Longrightarrow> part_inv s' = part_inv s"
  by (auto simp: roll_segment_def Let_def part_inv_frame split: io_outcome.splits sum.splits prod.splits)

lemma write_frame_inv: "write_frame out framed s = (res, s') \<Longrightarrow> part_inv s' = part_inv s"
  by (auto simp: write_frame_def part_inv_frame split: option.splits sum.splits prod.splits)

lemma roll_segment_fields:
  assumes "roll_segment out now offset s = (res, s')"
  shows "next_offset s' = next_offset s \<and> durable_offset s' = durable_offset s \<and> log_start s' = log_start s
    \<and> batches s' = batches s \<and> open_txns s' = open_txns s \<and> aborted s' = aborted s"
  using assms
  by (auto simp: roll_segment_def retire_writer_def Let_def split: io_outcome.splits sum.splits prod.splits option.splits)

lemma write_frame_fields:
  assumes "write_frame out framed s = (res, s')"
  shows "next_offset s' = next_offset s \<and> durable_offset s' = durable_offset s \<and> log_start s' = log_start s
    \<and> batches s' = batches s \<and> open_txns s' = open_txns s \<and> aborted s' = aborted s"
  using assms by (auto simp: write_frame_def split: option.splits sum.splits prod.splits)


lemma open_txn_fields [simp]:
  "next_offset (open_txn tid attrs pid epoch offset s) = next_offset s"
  "durable_offset (open_txn tid attrs pid epoch offset s) = durable_offset s"
  "log_start (open_txn tid attrs pid epoch offset s) = log_start s"
  "batches (open_txn tid attrs pid epoch offset s) = batches s"
  "aborted (open_txn tid attrs pid epoch offset s) = aborted s"
  "files (open_txn tid attrs pid epoch offset s) = files s"
  "seg_writer (open_txn tid attrs pid epoch offset s) = seg_writer s"
  "read_files (open_txn tid attrs pid epoch offset s) = read_files s"
  by (simp_all add: open_txn_def split: option.splits)

lemma part_inv_open_txn:
  assumes "part_inv s" and "offset < next_offset s"
  shows "part_inv (open_txn tid attrs pid epoch offset s)"
proof -
  have "entry_or offset (open_txns s) k < next_offset s" for k
    using assms by (cases k) (auto simp: part_inv_defs entry_or_def split: option.splits)
  then show ?thesis
    using assms part_inv_open by (auto simp: open_txn_def split: option.splits)
qed

lemma append_batch_cases:
  assumes "append_batch env tid b attrs now o1 o2 o3 s = (res, s')"
  obtains (failed) err where "res = Inl err"
      "next_offset s' = next_offset s + b_last_offset_delta b + 1" "durable_offset s' = durable_offset s"
      "log_start s' = log_start s" "batches s' = batches s" "open_txns s' = open_txns s" "aborted s' = aborted s"
      "part_inv (s\<lparr>next_offset := next_offset s + b_last_offset_delta b + 1\<rparr>) \<longrightarrow> part_inv s'"
  | (appended) seg pos t where
      "res = Inr (next_offset s, length (encode_batch (env_crc env) (next_offset s) (batch_bytes b)))"
      "next_offset t = next_offset s + b_last_offset_delta b + 1" "durable_offset t = durable_offset s"
      "log_start t = log_start s" "batches t = batches s" "open_txns t = open_txns s" "aborted t = aborted s"
      "part_inv (s\<lparr>next_offset := next_offset s + b_last_offset_delta b + 1\<rparr>) \<longrightarrow> part_inv t"
      "s' = open_txn tid attrs (b_producer_id b) (b_producer_epoch b) (next_offset s)
         (index_batch (next_offset s) (batch_entry_of b attrs seg pos
            (length (encode_batch (env_crc env) (next_offset s) (batch_bytes b))))
           (cfg_tail_cache_bytes (env_config env)) t)"
proof -
  define s0 where "s0 = s\<lparr>next_offset := next_offset s + b_last_offset_delta b + 1\<rparr>"
  define framed where "framed = encode_batch (env_crc env) (next_offset s) (batch_bytes b)"
  obtain r1 s1 where roll: "(if needs_segment (env_config env) s0 then roll_segment o1 now (next_offset s) else ok ()) s0 = (r1, s1)"
    by (cases "(if needs_segment (env_config env) s0 then roll_segment o1 now (next_offset s) else ok ()) s0")
  have f1: "next_offset s1 = next_offset s0 \<and> durable_offset s1 = durable_offset s0 \<and> log_start s1 = log_start s0
      \<and> batches s1 = batches s0 \<and> open_txns s1 = open_txns s0 \<and> aborted s1 = aborted s0"
    and i1: "part_inv s1 = part_inv s0"
    using roll roll_segment_fields roll_segment_inv by (auto split: if_splits)
  note unf = assms [unfolded append_batch_def Let_def, folded s0_def framed_def]
  show thesis
  proof (cases r1)
    case (Inl err)
    then have "res = Inl err" "s' = s1"
      using unf roll by (auto simp: and_then_def)
    then show thesis
      using f1 i1 by (intro failed) (auto simp: s0_def)
  next
    case (Inr u)
    obtain r2 s2 where wf: "write_frame o2 framed s1 = (r2, s2)"
      by (cases "write_frame o2 framed s1")
    note f2 = write_frame_fields [OF wf] and i2 = write_frame_inv [OF wf]
    show thesis
    proof (cases r2)
      case (Inl err)
      then have "res = Inl err" "s' = s2"
        using unf roll Inr wf by (auto simp: and_then_def)
      then show thesis
        using f1 i1 f2 i2 by (intro failed) (auto simp: s0_def)
    next
      case r2: (Inr sp)
      obtain seg pos where sp: "sp = (seg, pos)" by (cases sp)
      show thesis
      proof (cases "\<exists>err n. o3 = Refused err n")
        case True
        then obtain err n where "o3 = Refused err n" by blast
        then have "res = Inl err" "s' = s2"
          using unf roll Inr wf r2 sp by (auto simp: and_then_def)
        then show thesis
          using f1 i1 f2 i2 by (intro failed) (auto simp: s0_def)
      next
        case False
        then have "res = Inr (next_offset s, length framed)"
          "s' = open_txn tid attrs (b_producer_id b) (b_producer_epoch b) (next_offset s)
             (index_batch (next_offset s) (batch_entry_of b attrs seg pos (length framed))
               (cfg_tail_cache_bytes (env_config env)) s2)"
          using unf roll Inr wf r2 sp by (auto simp: and_then_def split: io_outcome.splits)
        then show thesis
          using f1 i1 f2 i2 unfolding framed_def by (intro appended) (auto simp: s0_def)
      qed
    qed
  qed
qed

lemma append_batch_inv:
  assumes "append_batch env tid b attrs now o1 o2 o3 s = (res, s')" and "part_inv s"
    and "0 \<le> b_last_offset_delta b"
  shows "part_inv s'"
proof -
  have s0: "part_inv (s\<lparr>next_offset := next_offset s + b_last_offset_delta b + 1\<rparr>)"
    using assms(2,3) by (intro part_inv_next) auto
  from assms(1) show ?thesis
  proof (cases rule: append_batch_cases)
    case (failed err)
    then show ?thesis using s0 by blast
  next
    case (appended seg pos t)
    have "part_inv t" using appended s0 by blast
    moreover have "entry_end b' x < next_offset s" if "fmlookup (batches t) b' = Some x" for b' x
      using that assms(2) appended(5) batches_okD(3) [of s b' x] by (auto simp: part_inv_def)
    ultimately have "part_inv (index_batch (next_offset s) (batch_entry_of b attrs seg pos n)
        (cfg_tail_cache_bytes (env_config env)) t)" for n
      using assms(2,3) appended
      by (intro part_inv_index) (auto simp: batch_entry_of_def entry_end_def part_inv_def offsets_ok_def)
    then show ?thesis
      using appended assms(3) by (auto intro!: part_inv_open_txn)
  qed
qed

end
