(* ===== verification/Produce_Spec.thy ===== *)
theory Produce_Spec
  imports Engine_Core
begin

text \<open>
  What the produce path of \<open>Engine_Core\<close> guarantees: the partition invariant on every branch, the
  store invariant (an indexed batch can be read back from its segment file), the offsets of an
  acknowledged batch, and the state an error leaves.
\<close>

section \<open>The store invariant\<close>

lemma read_batch_at_grow:
  assumes "read_batch_at crc fl pos len = Inr bs"
  shows "read_batch_at crc (fl @ rest) pos len = Inr bs"
proof -
  have "pos + len \<le> length fl"
    using assms by (auto simp: read_batch_at_def split: if_splits)
  then show ?thesis using assms by (simp add: read_batch_at_def)
qed

lemma read_batch_at_written:
  assumes "seg_good (base, b)"
  shows "read_batch_at crc (fl @ encode_batch crc base b) (length fl)
    (length (encode_batch crc base b)) = Inr b"
  using decode_encode_batch [OF assms, of crc "[]"] by (simp add: read_batch_at_def)

text \<open>The active segment's writer knows the length of its file.\<close>

definition writer_ok :: "partition_inner \<Rightarrow> bool" where
  "writer_ok s \<longleftrightarrow>
     (case seg_writer s of None \<Rightarrow> True
      | Some w \<Rightarrow> map_option length (fmlookup (files s) (writer_base w)) = Some (writer_position w))"

text \<open>The batch of an index entry: what its segment file holds at its location, and the tail cache
  with it where it holds it at all.\<close>

definition stored_bytes :: "crc \<Rightarrow> (int, bytes) fmap \<Rightarrow> batch_entry \<Rightarrow> error + bytes" where
  "stored_bytes crc fs e =
     (case fmlookup fs (entry_segment e) of
        None \<Rightarrow> Inl (Message ''nvme open'')
      | Some fl \<Rightarrow> read_batch_at crc fl (entry_position e) (entry_len e))"

definition stored :: "crc \<Rightarrow> (int, bytes) fmap \<Rightarrow> batch_entry \<Rightarrow> bool" where
  "stored crc fs e \<longleftrightarrow> \<not> entry_tiered e \<and>
     (case stored_bytes crc fs e of Inl _ \<Rightarrow> False
      | Inr bs \<Rightarrow> entry_cached e = None \<or> entry_cached e = Some bs)"

definition store_ok :: "crc \<Rightarrow> partition_inner \<Rightarrow> bool" where
  "store_ok crc s \<longleftrightarrow> writer_ok s \<and> fmpred (\<lambda>_. stored crc (files s)) (batches s)"

lemma store_ok_new: "store_ok crc partition_new"
  by (simp add: store_ok_def writer_ok_def partition_new_def)

lemma stored_bytes_grow:
  assumes "stored_bytes crc fs e = Inr bs" and "fmlookup fs base = Some fl"
  shows "stored_bytes crc (fmupd base (fl @ rest) fs) e = Inr bs"
  using assms read_batch_at_grow by (auto simp: stored_bytes_def split: option.splits)

lemma stored_grow:
  "stored crc fs e \<Longrightarrow> fmlookup fs base = Some fl \<Longrightarrow> stored crc (fmupd base (fl @ rest) fs) e"
  using stored_bytes_grow by (fastforce simp: stored_def split: sum.splits)

lemma stored_create: "stored crc fs e \<Longrightarrow> fmlookup fs base = None \<Longrightarrow> stored crc (fmupd base fl fs) e"
  by (auto simp: stored_def stored_bytes_def split: option.splits sum.splits)

lemma stored_uncached: "stored crc fs e \<Longrightarrow> stored crc fs (e\<lparr>entry_cached := None\<rparr>)"
  by (auto simp: stored_def stored_bytes_def split: option.splits sum.splits)

lemma evict_cache_pred:
  assumes "evict_cache budget queue bs held = (queue', bs', held')" and "fmpred P bs"
    and "\<And>b e. P b e \<Longrightarrow> P b (e\<lparr>entry_cached := None\<rparr>)"
  shows "fmpred P bs'"
  using assms
proof (induction budget queue bs held rule: evict_cache.induct)
  case (2 budget oldest queue bs held)
  have "fmpred P (fmupd oldest (e\<lparr>entry_cached := None\<rparr>) bs)" if "fmlookup bs oldest = Some e" for e
    using that 2 by (auto simp: fmpred_iff)
  with 2 show ?case by (auto split: if_splits option.splits)
qed simp

lemma index_batch_store:
  assumes "store_ok crc s" and "stored crc (files s) e"
  shows "store_ok crc (index_batch offset e budget s)"
proof -
  have "fmpred (\<lambda>_. stored crc (files s)) (fmupd offset e (batches s))"
    using assms by (auto simp: store_ok_def fmpred_iff)
  then have "fmpred (\<lambda>_. stored crc (files s)) (batches (index_batch offset e budget s))"
    by (auto simp: index_batch_def Let_def split: prod.splits
        dest!: evict_cache_pred intro: stored_uncached)
  then show ?thesis
    using assms(1) by (simp add: store_ok_def writer_ok_def cong: option.case_cong)
qed

lemma open_txn_store [simp]: "store_ok crc (open_txn tid attrs pid epoch offset s) = store_ok crc s"
  by (simp add: store_ok_def writer_ok_def cong: option.case_cong)

lemma roll_segment_store:
  assumes "roll_segment out now offset s = (res, s')" and "store_ok crc s"
  shows "store_ok crc s'"
proof -
  have r: "store_ok crc (retire_writer s)"
    using assms(2) by (auto simp: retire_writer_def store_ok_def writer_ok_def split: option.splits)
  show ?thesis
  proof (cases "s' = retire_writer s")
    case True
    then show ?thesis using r by simp
  next
    case False
    then have "fmlookup (files (retire_writer s)) offset = None"
      "s' = (retire_writer s)\<lparr>seg_writer := Some \<lparr>writer_base = offset, writer_position = 0, writer_created_at = now\<rparr>,
         files := fmupd offset [] (files (retire_writer s))\<rparr>"
      using assms(1) by (auto simp: roll_segment_def Let_def segment_create_def split: io_outcome.splits if_splits)
    then show ?thesis
      using r by (auto simp: store_ok_def writer_ok_def fmpred_iff intro: stored_create)
  qed
qed

lemma write_frame_cases:
  assumes "write_frame out framed s = (res, s')" and "store_ok crc s"
  obtains (no_writer) "seg_writer s = None" "res = Inl Panic" "s' = s"
  | (short) w fl err n where "out = Refused err n" "seg_writer s = Some w"
      "fmlookup (files s) (writer_base w) = Some fl"
      "s' = s\<lparr>files := fmupd (writer_base w) (fl @ take n framed) (files s)\<rparr>" "\<exists>e. res = Inl e"
  | (written) w fl where "\<And>err n. out \<noteq> Refused err n" "seg_writer s = Some w"
      "fmlookup (files s) (writer_base w) = Some fl" "length fl = writer_position w"
      "res = Inr (writer_base w, length fl)"
      "s' = s\<lparr>seg_writer := Some (w\<lparr>writer_position := writer_position w + length framed\<rparr>),
         files := fmupd (writer_base w) (fl @ framed) (files s)\<rparr>"
proof (cases "seg_writer s")
  case None
  then show thesis using assms(1) by (intro no_writer) (auto simp: write_frame_def)
next
  case (Some w)
  then obtain fl where "fmlookup (files s) (writer_base w) = Some fl" "length fl = writer_position w"
    using assms(2) by (auto simp: store_ok_def writer_ok_def)
  note w = Some this
  show thesis
  proof (cases "\<exists>err n. out = Refused err n")
    case True
    then obtain err n where "out = Refused err n" by blast
    then show thesis
      using w assms(1) by (intro short) (auto simp: write_frame_def segment_append_def entry_or_def)
  next
    case False
    then show thesis
      using w assms(1)
      by (intro written) (auto simp: write_frame_def segment_append_def entry_or_def split: io_outcome.splits)
  qed
qed

lemma write_frame_store:
  assumes "write_frame out framed s = (res, s')" and "store_ok crc s"
  shows "fmpred (\<lambda>_. stored crc (files s')) (batches s')"
    and "(\<And>err n. out \<noteq> Refused err n) \<Longrightarrow> store_ok crc s'"
    and "res = Inr (seg, pos) \<Longrightarrow>
      \<exists>fl. fmlookup (files s') seg = Some (fl @ framed) \<and> length fl = pos"
proof -
  have p: "fmpred (\<lambda>_. stored crc (files s)) (batches s)"
    using assms(2) by (simp add: store_ok_def)
  have all: "fmpred (\<lambda>_. stored crc (files s')) (batches s')
    \<and> ((\<forall>err n. out \<noteq> Refused err n) \<longrightarrow> store_ok crc s')
    \<and> (res = Inr (seg, pos) \<longrightarrow> (\<exists>fl. fmlookup (files s') seg = Some (fl @ framed) \<and> length fl = pos))"
    using assms
  proof (cases rule: write_frame_cases)
    case no_writer
    then show ?thesis using assms(2) p by simp
  next
    case (short w fl err n)
    then show ?thesis using p by (auto simp: fmpred_iff intro!: stored_grow)
  next
    case (written w fl)
    then have "fmpred (\<lambda>_. stored crc (files s')) (batches s')"
      using p by (auto simp: fmpred_iff intro!: stored_grow)
    then show ?thesis using written by (auto simp: store_ok_def writer_ok_def)
  qed
  then show "fmpred (\<lambda>_. stored crc (files s')) (batches s')" by blast
  show "store_ok crc s'" if "\<And>err n. out \<noteq> Refused err n" using all that by blast
  show "\<exists>fl. fmlookup (files s') seg = Some (fl @ framed) \<and> length fl = pos" if "res = Inr (seg, pos)"
    using all that by blast
qed

lemma append_batch_store:
  assumes "append_batch env tid b attrs now o1 o2 o3 s = (res, s')" and "store_ok (env_crc env) s"
    and "\<And>err n. o2 \<noteq> Refused err n" and "seg_good (next_offset s, batch_bytes b)"
  shows "store_ok (env_crc env) s'"
proof -
  define s0 where "s0 = s\<lparr>next_offset := next_offset s + b_last_offset_delta b + 1\<rparr>"
  define framed where "framed = encode_batch (env_crc env) (next_offset s) (batch_bytes b)"
  obtain r1 s1 where roll: "(if needs_segment (env_config env) s0 then roll_segment o1 now (next_offset s) else ok ()) s0 = (r1, s1)"
    by (cases "(if needs_segment (env_config env) s0 then roll_segment o1 now (next_offset s) else ok ()) s0")
  have "store_ok (env_crc env) s0"
    using assms(2) by (simp add: s0_def store_ok_def writer_ok_def cong: option.case_cong)
  then have ok1: "store_ok (env_crc env) s1"
    using roll roll_segment_store by (auto split: if_splits)
  obtain r2 s2 where wf: "write_frame o2 framed s1 = (r2, s2)"
    by (cases "write_frame o2 framed s1")
  have ok2: "store_ok (env_crc env) s2"
    using write_frame_store(2) [OF wf ok1] assms(3) by blast
  have "store_ok (env_crc env) (index_batch (next_offset s) (batch_entry_of b attrs seg pos (length framed)) n s2)"
    if r2: "r2 = Inr (seg, pos)" for seg pos n
  proof (rule index_batch_store [OF ok2])
    obtain fl where "fmlookup (files s2) seg = Some (fl @ framed)" "length fl = pos"
      using write_frame_store(3) [OF wf ok1 r2] by blast
    then show "stored (env_crc env) (files s2) (batch_entry_of b attrs seg pos (length framed))"
      using read_batch_at_written [OF assms(4)]
      by (auto simp: stored_def stored_bytes_def batch_entry_of_def framed_def)
  qed
  then show ?thesis
    using assms(1) [unfolded append_batch_def Let_def, folded s0_def framed_def] roll wf ok1 ok2
    by (auto simp: and_then_def split: sum.splits prod.splits io_outcome.splits)
qed

section \<open>Produce on the engine\<close>

definition eng_inv :: "engine \<Rightarrow> bool" where
  "eng_inv e \<longleftrightarrow> fmpred (\<lambda>_. part_inv) (eng_partitions e)"

definition eng_store :: "crc \<Rightarrow> engine \<Rightarrow> bool" where
  "eng_store crc e \<longleftrightarrow> fmpred (\<lambda>_. store_ok crc) (eng_partitions e)"

abbreviation part_at :: "engine \<Rightarrow> topition \<Rightarrow> partition_inner" where
  "part_at e tp \<equiv> entry_or partition_new (eng_partitions e) tp"

lemma eng_inv_at: "eng_inv e \<Longrightarrow> part_inv (part_at e tp)"
  by (auto simp: eng_inv_def entry_or_def part_inv_new split: option.splits)

lemma eng_store_at: "eng_store crc e \<Longrightarrow> store_ok crc (part_at e tp)"
  by (auto simp: eng_store_def entry_or_def store_ok_new split: option.splits)

lemma eng_inv_set: "eng_inv e \<Longrightarrow> part_inv s \<Longrightarrow> eng_inv (set_partition tp s e)"
  by (auto simp: eng_inv_def set_partition_def)

lemma eng_store_set: "eng_store crc e \<Longrightarrow> store_ok crc s \<Longrightarrow> eng_store crc (set_partition tp s e)"
  by (auto simp: eng_store_def set_partition_def)

lemma tick_fields [simp]:
  "eng_coord (tick e) = eng_coord e" "eng_partitions (tick e) = eng_partitions e"
  "eng_groups (tick e) = eng_groups e" "eng_offsets (tick e) = eng_offsets e"
  "eng_wal_seq (tick e) = eng_wal_seq e" "eng_wal (tick e) = eng_wal e"
  "eng_wal_bytes (tick e) = eng_wal_bytes e" "eng_retired (tick e) = eng_retired e"
  "eng_snapshots (tick e) = eng_snapshots e" "eng_usage (tick e) = eng_usage e"
  by (simp_all add: tick_def)

lemma set_partition_fields [simp]:
  "eng_coord (set_partition tp s e) = eng_coord e"
  "eng_partitions (set_partition tp s e) = fmupd tp s (eng_partitions e)"
  "eng_groups (set_partition tp s e) = eng_groups e" "eng_offsets (set_partition tp s e) = eng_offsets e"
  "eng_wal_seq (set_partition tp s e) = eng_wal_seq e" "eng_wal (set_partition tp s e) = eng_wal e"
  "eng_wal_bytes (set_partition tp s e) = eng_wal_bytes e" "eng_retired (set_partition tp s e) = eng_retired e"
  "eng_snapshots (set_partition tp s e) = eng_snapshots e" "eng_usage (set_partition tp s e) = eng_usage e"
  "eng_ticks (set_partition tp s e) = eng_ticks e"
  by (simp_all add: set_partition_def)

text \<open>The guard of \<open>produce\<close> touches the coordination state only.\<close>

lemma produce_guard_frame:
  "produce_guard env tid tp b e = (res, e') \<Longrightarrow> \<exists>c. e' = e\<lparr>eng_coord := c\<rparr>"
  by (auto simp: produce_guard_def Let_def split: sum.splits if_splits prod.splits option.splits
      intro: exI [of _ "eng_coord e"])

text \<open>The four stages of \<open>produce\<close>, with the state between them.\<close>

lemma produce_stages:
  assumes "produce env tid tp b e = (res, e')"
  obtains (refused) err c where "res = Inl err" "e' = e\<lparr>eng_coord := c\<rparr>"
  | (no_dir) err c where "res = Inl err" "e' = tick (e\<lparr>eng_coord := c\<rparr>)"
  | (append_failed) attrs err e1 e2 where "produce_guard env tid tp b e = (Inr attrs, e1)"
      "ensure_partition env tp e1 = (Inr (part_at e tp), e2)"
      "produce_append env tid tp b attrs e2 = (Inl err, e')" "res = Inl err"
  | (appended) attrs offset e1 e2 e3 where "produce_guard env tid tp b e = (Inr attrs, e1)"
      "ensure_partition env tp e1 = (Inr (part_at e tp), e2)"
      "produce_append env tid tp b attrs e2 = (Inr offset, e3)"
      "produce_complete env tid tp b attrs offset e3 = (res, e')"
proof -
  obtain r1 e1 where g: "produce_guard env tid tp b e = (r1, e1)" by fastforce
  then obtain c where c: "e1 = e\<lparr>eng_coord := c\<rparr>" using produce_guard_frame by blast
  show thesis
  proof (cases r1)
    case (Inl err)
    then show thesis using assms g c by (intro refused) (auto simp: produce_def)
  next
    case (Inr attrs)
    obtain r2 e2 where p: "ensure_partition env tp e1 = (r2, e2)" by fastforce
    show thesis
    proof (cases r2)
      case r2: (Inl err)
      then have "e2 = tick e1"
        using p by (auto simp: ensure_partition_def split: option.splits io_outcome.splits)
      then show thesis using assms g c Inr p r2 by (intro no_dir) (auto simp: produce_def)
    next
      case r2: (Inr s)
      then have s: "s = part_at e tp"
        using p c by (auto simp: ensure_partition_def entry_or_def split: option.splits io_outcome.splits)
      obtain r3 e3 where a: "produce_append env tid tp b attrs e2 = (r3, e3)" by fastforce
      show thesis
      proof (cases r3)
        case r3: (Inl err)
        then show thesis
          using assms g Inr p r2 s a by (intro append_failed) (auto simp: produce_def)
      next
        case r3: (Inr offset)
        then show thesis
          using assms g Inr p r2 s a by (intro appended) (auto simp: produce_def)
      qed
    qed
  qed
qed

lemma ensure_partition_at:
  assumes "ensure_partition env tp e = (Inr s, e')"
  shows "eng_partitions e' = fmupd tp (part_at e tp) (eng_partitions e)"
proof (cases "fmlookup (eng_partitions e) tp")
  case None
  then show ?thesis
    using assms by (auto simp: ensure_partition_def entry_or_def split: io_outcome.splits)
next
  case (Some s)
  then have "fmupd tp s (eng_partitions e) = eng_partitions e" by (intro fmap_ext) auto
  then show ?thesis using assms Some by (simp add: ensure_partition_def entry_or_def)
qed

lemma produce_append_at:
  assumes "produce_append env tid tp b attrs e = (res, e')"
  obtains now o1 o2 o3 r s' where "append_batch env tid b attrs now o1 o2 o3 (part_at e tp) = (r, s')"
    "eng_partitions e' = fmupd tp s' (eng_partitions e)"
    "res = (case r of Inl err \<Rightarrow> Inl err | Inr (offset, _) \<Rightarrow> Inr offset)"
proof -
  define t where "t = eng_ticks e"
  obtain r s' where "append_batch env tid b attrs (env_now env t) (env_io env t) (env_io env (t + 1))
      (env_io env (t + 2)) (part_at e tp) = (r, s')" by fastforce
  with assms that show thesis
    by (auto simp: produce_append_def Let_def t_def split: sum.splits)
qed

text \<open>What \<open>produce\<close> does to the partitions: nothing, or the append of the batch to the one it names,
  followed by the move of the high watermark where the sync was acknowledged.\<close>

definition publish_part :: "int \<Rightarrow> partition_inner \<Rightarrow> partition_inner" where
  "publish_part fin s = s\<lparr>durable_offset := max (durable_offset s) fin\<rparr>"

lemma publish_partitions:
  "eng_partitions (publish tp fin e) = fmupd tp (publish_part fin (part_at e tp)) (eng_partitions e)"
  by (simp add: publish_def publish_part_def Let_def)

lemma produce_complete_at:
  assumes "produce_complete env tid tp b attrs offset e = (res, e')"
  shows "(\<exists>err. res = Inl err) \<and> eng_partitions e' = eng_partitions e
    \<or> (res = Inr offset \<or> (\<exists>err. res = Inl err)) \<and> eng_partitions e' =
        fmupd tp (publish_part (offset + b_last_offset_delta b + 1) (part_at e tp)) (eng_partitions e)"
  using assms
  by (auto simp: produce_complete_def Let_def publish_partitions
      split: io_outcome.splits option.splits if_splits sum.splits prod.splits)

lemma produce_at:
  assumes "produce env tid tp b e = (res, e')"
  obtains (untouched) err where "res = Inl err" "eng_partitions e' = eng_partitions e"
  | (append_failed) attrs now o1 o2 o3 err s' where
      "append_batch env tid b attrs now o1 o2 o3 (part_at e tp) = (Inl err, s')"
      "eng_partitions e' = fmupd tp s' (eng_partitions e)" "res = Inl err"
  | (unacked) attrs now o1 o2 o3 offset n err s' where
      "append_batch env tid b attrs now o1 o2 o3 (part_at e tp) = (Inr (offset, n), s')"
      "eng_partitions e' = fmupd tp s' (eng_partitions e)" "res = Inl err"
  | (acked) attrs now o1 o2 o3 offset n s' where
      "append_batch env tid b attrs now o1 o2 o3 (part_at e tp) = (Inr (offset, n), s')"
      "eng_partitions e' = fmupd tp (publish_part (offset + b_last_offset_delta b + 1) s') (eng_partitions e)"
      "res = Inr offset \<or> (\<exists>err. res = Inl err)"
  using assms
proof (cases rule: produce_stages)
  case (refused err c)
  then show thesis by (intro untouched) auto
next
  case (no_dir err c)
  then show thesis by (intro untouched) auto
next
  case (append_failed attrs err e1 e2)
  obtain c where "e1 = e\<lparr>eng_coord := c\<rparr>" using append_failed(1) produce_guard_frame by blast
  then have e2: "eng_partitions e2 = fmupd tp (part_at e tp) (eng_partitions e)"
    using ensure_partition_at [OF append_failed(2)] by simp
  from append_failed(3) obtain now o1 o2 o3 r s' where
      "append_batch env tid b attrs now o1 o2 o3 (part_at e2 tp) = (r, s')"
      "eng_partitions e' = fmupd tp s' (eng_partitions e2)"
      "Inl err = (case r of Inl err \<Rightarrow> Inl err | Inr (offset, _) \<Rightarrow> Inr offset)"
    by (rule produce_append_at)
  then show thesis
    using e2 append_failed(4) that(2) by (auto split: sum.splits)
next
  case (appended attrs offset e1 e2 e3)
  obtain c where "e1 = e\<lparr>eng_coord := c\<rparr>" using appended(1) produce_guard_frame by blast
  then have e2: "eng_partitions e2 = fmupd tp (part_at e tp) (eng_partitions e)"
    using ensure_partition_at [OF appended(2)] by simp
  from appended(3) obtain now o1 o2 o3 r s' where a:
      "append_batch env tid b attrs now o1 o2 o3 (part_at e2 tp) = (r, s')"
      "eng_partitions e3 = fmupd tp s' (eng_partitions e2)"
      "Inr offset = (case r of Inl err \<Rightarrow> Inl err | Inr (offset, _) \<Rightarrow> Inr offset)"
    by (rule produce_append_at)
  then obtain n where n: "append_batch env tid b attrs now o1 o2 o3 (part_at e tp) = (Inr (offset, n), s')"
    using e2 by (auto split: sum.splits)
  have e3: "eng_partitions e3 = fmupd tp s' (eng_partitions e)" "part_at e3 tp = s'"
    using a(2) e2 by simp_all
  from produce_complete_at [OF appended(4)] show thesis
    using unacked [OF n] acked [OF n] e3 by auto
qed


lemma append_batch_acked:
  assumes "append_batch env tid b attrs now o1 o2 o3 s = (Inr (offset, n), s')"
  shows "offset = next_offset s" "next_offset s' = next_offset s + b_last_offset_delta b + 1"
    "durable_offset s' = durable_offset s" "log_start s' = log_start s" "aborted s' = aborted s"
    "\<exists>seg pos. fmmap uncached (batches s') = fmmap uncached (fmupd (next_offset s)
      (batch_entry_of b attrs seg pos n) (batches s))"
  using assms
  by (cases rule: append_batch_cases; auto simp: index_batch_index)+

lemma append_batch_written:
  assumes "append_batch env tid b attrs now o1 o2 o3 s = (Inr (offset, n), s')"
  shows "o2 \<noteq> Refused err' n'"
proof
  assume "o2 = Refused err' n'"
  then have "\<exists>e. fst (write_frame o2 f t) = Inl e" for f t
    by (auto simp: write_frame_def segment_append_def split: option.splits)
  then show False
    using assms
    by (auto simp: append_batch_def Let_def and_then_def split: sum.splits prod.splits if_splits) (metis fst_conv sum.distinct(1))+
qed

lemma produce_inv:
  assumes "produce env tid tp b e = (res, e')" and "eng_inv e" and "0 \<le> b_last_offset_delta b"
  shows "eng_inv e'"
  using assms(1)
proof (cases rule: produce_at)
  case (untouched err)
  then show ?thesis using assms(2) by (simp add: eng_inv_def)
next
  case (append_failed attrs now o1 o2 o3 err s')
  then show ?thesis
    using append_batch_inv [OF append_failed(1) eng_inv_at [OF assms(2)] assms(3)] assms(2)
    by (auto simp: eng_inv_def)
next
  case (unacked attrs now o1 o2 o3 offset n err s')
  then show ?thesis
    using append_batch_inv [OF unacked(1) eng_inv_at [OF assms(2)] assms(3)] assms(2)
    by (auto simp: eng_inv_def)
next
  case (acked attrs now o1 o2 o3 offset n s')
  have "part_inv s'"
    using append_batch_inv [OF acked(1) eng_inv_at [OF assms(2)] assms(3)] .
  then have "part_inv (publish_part (offset + b_last_offset_delta b + 1) s')"
    using append_batch_acked(1,2) [OF acked(1)] unfolding publish_part_def by (intro part_inv_publish) auto
  then show ?thesis using acked(2) assms(2) by (auto simp: eng_inv_def)
qed


lemma append_batch_readable:
  assumes "append_batch env tid b attrs now o1 o2 o3 s = (Inr (offset, n), s')"
    and "store_ok (env_crc env) s" and "seg_good (next_offset s, batch_bytes b)"
  shows "\<exists>x. fmlookup (batches s') offset = Some x \<and> stored_bytes (env_crc env) (files s') x = Inr (batch_bytes b)
    \<and> (\<exists>seg pos. uncached x = uncached (batch_entry_of b attrs seg pos n))"
proof -
  define s0 where "s0 = s\<lparr>next_offset := next_offset s + b_last_offset_delta b + 1\<rparr>"
  define framed where "framed = encode_batch (env_crc env) (next_offset s) (batch_bytes b)"
  obtain r1 s1 where roll: "(if needs_segment (env_config env) s0 then roll_segment o1 now (next_offset s) else ok ()) s0 = (r1, s1)"
    by (cases "(if needs_segment (env_config env) s0 then roll_segment o1 now (next_offset s) else ok ()) s0")
  have "store_ok (env_crc env) s0"
    using assms(2) by (simp add: s0_def store_ok_def writer_ok_def cong: option.case_cong)
  then have ok1: "store_ok (env_crc env) s1"
    using roll roll_segment_store by (auto split: if_splits)
  obtain r2 s2 where wf: "write_frame o2 framed s1 = (r2, s2)" by fastforce
  obtain seg pos where r2: "r2 = Inr (seg, pos)" and off: "offset = next_offset s" "n = length framed"
    and s': "s' = open_txn tid attrs (b_producer_id b) (b_producer_epoch b) offset
      (index_batch offset (batch_entry_of b attrs seg pos n) (cfg_tail_cache_bytes (env_config env)) s2)"
    using assms(1) [unfolded append_batch_def Let_def, folded s0_def framed_def] roll wf
    by (auto simp: and_then_def split: sum.splits prod.splits io_outcome.splits)
  obtain fl where fl: "fmlookup (files s2) seg = Some (fl @ framed)" "length fl = pos"
    using write_frame_store(3) [OF wf ok1 r2] by blast
  have "fmmap uncached (batches s') = fmmap uncached (fmupd offset (batch_entry_of b attrs seg pos n) (batches s2))"
    unfolding s' by (simp add: index_batch_index)
  then have "fmlookup (fmmap uncached (batches s')) offset = Some (uncached (batch_entry_of b attrs seg pos n))"
    by simp
  then obtain x where x: "fmlookup (batches s') offset = Some x" "uncached x = uncached (batch_entry_of b attrs seg pos n)"
    by auto
  then have "entry_segment x = seg" "entry_position x = pos" "entry_len x = n"
    by (auto simp: uncached_def batch_entry_of_def dest: arg_cong [where f = entry_segment]
        arg_cong [where f = entry_position] arg_cong [where f = entry_len])
  moreover have "read_batch_at (env_crc env) (fl @ framed) pos n = Inr (batch_bytes b)"
    using read_batch_at_written [OF assms(3), of "env_crc env" fl] fl(2) off(2) by (simp add: framed_def)
  ultimately show ?thesis
    using x fl by (auto simp: stored_bytes_def s')
qed

text \<open>The facts of an acknowledged produce, shared by the properties of produce and of fetch.\<close>

lemma produce_acked_at:
  assumes "produce env tid tp b e = (Inr offset, e')" and "eng_inv e" and "eng_store (env_crc env) e"
    and "0 \<le> b_last_offset_delta b" and "seg_good (next_offset (part_at e tp), batch_bytes b)"
  shows "offset = next_offset (part_at e tp)"
    and "next_offset (part_at e' tp) = offset + b_last_offset_delta b + 1"
    and "offset + b_last_offset_delta b < high_watermark (part_at e' tp)"
    and "\<exists>x. fmlookup (batches (part_at e' tp)) offset = Some x \<and> entry_delta x = b_last_offset_delta b
      \<and> stored_bytes (env_crc env) (files (part_at e' tp)) x = Inr (batch_bytes b)"
    and "fmdrop tp (eng_partitions e') = fmdrop tp (eng_partitions e)"
    and "eng_inv e'" and "eng_store (env_crc env) e'"
    and "log_start (part_at e' tp) = log_start (part_at e tp)"
proof -
  from assms(1) obtain attrs now o1 o2 o3 n s' where
    app: "append_batch env tid b attrs now o1 o2 o3 (part_at e tp) = (Inr (offset, n), s')"
    and e': "eng_partitions e' = fmupd tp (publish_part (offset + b_last_offset_delta b + 1) s') (eng_partitions e)"
    by (cases rule: produce_at) auto
  have "store_ok (env_crc env) s'"
    using append_batch_store [OF app eng_store_at [OF assms(3)] append_batch_written [OF app] assms(5)] .
  then have "store_ok (env_crc env) (publish_part (offset + b_last_offset_delta b + 1) s')"
    by (simp add: publish_part_def store_ok_def writer_ok_def cong: option.case_cong)
  then show "eng_store (env_crc env) e'"
    using e' assms(3) by (auto simp: eng_store_def)
  have at: "part_at e' tp = publish_part (offset + b_last_offset_delta b + 1) s'"
    using e' by simp
  show "fmdrop tp (eng_partitions e') = fmdrop tp (eng_partitions e)"
    unfolding e' by (intro fmap_ext) simp
  show "offset = next_offset (part_at e tp)" "next_offset (part_at e' tp) = offset + b_last_offset_delta b + 1"
    "offset + b_last_offset_delta b < high_watermark (part_at e' tp)"
    using append_batch_acked [OF app] by (auto simp: at publish_part_def high_watermark_def)
  show "log_start (part_at e' tp) = log_start (part_at e tp)"
    using app by (cases rule: append_batch_cases) (auto simp: at publish_part_def)
  show "eng_inv e'" by (rule produce_inv [OF assms(1,2,4)])
  obtain x seg pos where x: "fmlookup (batches s') offset = Some x"
    "stored_bytes (env_crc env) (files s') x = Inr (batch_bytes b)" "uncached x = uncached (batch_entry_of b attrs seg pos n)"
    using append_batch_readable [OF app eng_store_at [OF assms(3)] assms(5)] by blast
  from arg_cong [OF x(3), of entry_delta] have "entry_delta x = b_last_offset_delta b"
    by (simp add: uncached_def batch_entry_of_def)
  with x show "\<exists>x. fmlookup (batches (part_at e' tp)) offset = Some x \<and> entry_delta x = b_last_offset_delta b
      \<and> stored_bytes (env_crc env) (files (part_at e' tp)) x = Inr (batch_bytes b)"
    by (auto simp: at publish_part_def)
qed

text \<open>C4: An acknowledged produce is in the log where it says it is.  On an engine whose partitions satisfy
  the partition and the store invariants, whatever the pattern of I/O outcomes: if \<open>produce\<close> returns
  an offset, it is the partition's next offset before the call; the next offset afterwards is one
  past the batch; the high watermark is past the batch; reading the location the index holds for the
  offset gives back exactly the bytes of the batch; no other partition has changed; and both
  invariants still hold.\<close>

theorem produce_acked:
  assumes "produce env tid tp b e = (Inr offset, e')" and "eng_inv e" and "eng_store (env_crc env) e"
    and "0 \<le> b_last_offset_delta b" and "seg_good (next_offset (part_at e tp), batch_bytes b)"
  shows "offset = next_offset (part_at e tp)
    \<and> next_offset (part_at e' tp) = offset + b_last_offset_delta b + 1
    \<and> offset + b_last_offset_delta b < high_watermark (part_at e' tp)
    \<and> Option.bind (fmlookup (batches (part_at e' tp)) offset)
        (\<lambda>x. Some (stored_bytes (env_crc env) (files (part_at e' tp)) x)) = Some (Inr (batch_bytes b))
    \<and> fmdrop tp (eng_partitions e') = fmdrop tp (eng_partitions e)
    \<and> eng_inv e' \<and> eng_store (env_crc env) e'"
  using produce_acked_at [OF assms] by auto

text \<open>An environment in which every operation succeeds, and an engine with no data, for the examples.\<close>

definition plain_env :: env where
  "plain_env = \<lparr>env_cluster = ''c'', env_node = 1, env_host = None, env_port = None,
     env_config = \<lparr>cfg_fsync = Always, cfg_fetch_max_block = 1, cfg_segment_bytes = 100,
       cfg_snapshot_wal_bytes = 1, cfg_tail_cache_bytes = 0, cfg_disk_budget = 0, cfg_tier = None,
       cfg_tier_interval = 1, cfg_segment_age = 1\<rparr>,
     env_crc = (\<lambda>_. 0), env_schemas = None, env_io = (\<lambda>_. Done), env_now = int, env_uuid = word_of_nat,
     env_uuid_string = (\<lambda>_. ''u''), env_wal_size = (\<lambda>_. 1)\<rparr>"

definition blank_engine :: engine where
  "blank_engine = \<lparr>eng_coord = coord_default, eng_partitions = fmempty, eng_groups = fmempty,
     eng_offsets = fmempty, eng_wal_seq = 1, eng_wal = [], eng_wal_bytes = 0, eng_retired = fmempty,
     eng_snapshots = fmempty, eng_usage = 0, eng_ticks = 0\<rparr>"

lemma fst_snd_eq: "fst x = a \<Longrightarrow> x = (a, snd x)"
  by (cases x) simp

theorem produce_acked_witness:
  "next_offset (part_at (snd (produce plain_env None (Topition ''t'' 0) tiny_batch blank_engine)) (Topition ''t'' 0)) = 1"
proof -
  have "fst (produce plain_env None (Topition ''t'' 0) tiny_batch blank_engine) = Inr 0"
    by code_simp
  then have p: "produce plain_env None (Topition ''t'' 0) tiny_batch blank_engine =
      (Inr 0, snd (produce plain_env None (Topition ''t'' 0) tiny_batch blank_engine))"
    by (rule fst_snd_eq)
  have "seg_good (next_offset (part_at blank_engine (Topition ''t'' 0)), batch_bytes tiny_batch)"
    by (simp add: seg_good_def blank_engine_def partition_new_def batch_bytes_def tiny_batch_def fits_signed_def)
  then show ?thesis
    using produce_acked [OF p] by (simp add: eng_inv_def eng_store_def blank_engine_def tiny_batch_def)
qed


text \<open>What an append never undoes.\<close>

definition extends_part :: "partition_inner \<Rightarrow> partition_inner \<Rightarrow> bool" where
  "extends_part s s' \<longleftrightarrow> log_start s' = log_start s \<and> durable_offset s \<le> durable_offset s'
     \<and> next_offset s \<le> next_offset s' \<and> aborted s' = aborted s
     \<and> fmsubset (fmmap uncached (batches s)) (fmmap uncached (batches s'))"

lemma extends_part_refl [simp]: "extends_part s s"
  by (simp add: extends_part_def fmsubset.rep_eq)

lemma extends_part_publish: "extends_part s s' \<Longrightarrow> extends_part s (publish_part fin s')"
  by (auto simp: extends_part_def publish_part_def)

lemma append_batch_extends:
  assumes "append_batch env tid b attrs now o1 o2 o3 s = (res, s')" and "part_inv s" and "0 \<le> b_last_offset_delta b"
  shows "extends_part s s'"
  using assms(1)
proof (cases rule: append_batch_cases)
  case (failed err)
  then show ?thesis using assms(3) by (simp add: extends_part_def fmsubset.rep_eq)
next
  case (appended seg pos t)
  have "next_offset s \<notin> fmdom' (batches s)"
    using part_inv_fresh [OF assms(2)] by (simp add: fmlookup_dom'_iff)
  then show ?thesis
    using appended assms(3)
    by (auto simp: extends_part_def index_batch_index fmsubset.rep_eq map_le_def)
qed



end
