(* ===== verification/Engine_Group.thy ===== *)
theory Engine_Group
  imports Produce_Spec
begin

text \<open>
  Consumer groups and their committed offsets in \<open>tansu-storage/src/nvme/mod.rs\<close>: the offset commit
  and fetch handlers, the group listing, deletion and description, and the optimistic update that
  the group coordinator drives.
\<close>

section \<open>Committed offsets\<close>

definition known_topic :: "engine \<Rightarrow> string \<Rightarrow> bool" where
  "known_topic e t \<longleftrightarrow> fmlookup (topics (eng_coord e)) t \<noteq> None"

definition offset_commit ::
    "env \<Rightarrow> string \<Rightarrow> (topition \<times> offset_commit_request) list \<Rightarrow> (topition \<times> error_code) list eop" where
  "offset_commit env g offsets e =
     (let taken = filter (\<lambda>(tp, _). known_topic e (topic tp)) offsets;
          e' = e\<lparr>eng_offsets := fold (\<lambda>(tp, oc). fmupd (g, tp) oc) taken (eng_offsets e)\<rparr>;
          accepted = map (\<lambda>(tp, oc). (topic tp, partition tp, oc)) taken;
          responses = map (\<lambda>(tp, _). (tp, if known_topic e (topic tp) then NoError else UnknownTopicOrPartition)) offsets
      in and_then (if accepted \<noteq> [] then wal_append env (GroupOffsetCommit g accepted) else ok ())
           (\<lambda>_. ok responses) e')"

definition offset_fetch :: "string option \<Rightarrow> topition list \<Rightarrow> engine \<Rightarrow> (topition, int) fmap" where
  "offset_fetch group_id topitions e =
     (case group_id of
        None \<Rightarrow> fmempty
      | Some g \<Rightarrow> fold (\<lambda>tp. fmupd tp (case fmlookup (eng_offsets e) (g, tp) of None \<Rightarrow> -1
                                       | Some oc \<Rightarrow> commit_offset oc)) topitions fmempty)"

definition committed_offset_topitions :: "string \<Rightarrow> engine \<Rightarrow> (topition, int) fmap" where
  "committed_offset_topitions g e =
     fold (\<lambda>((_, tp), oc). fmupd tp (commit_offset oc))
       (filter (\<lambda>((g', _), _). g' = g) (entries (eng_offsets e))) fmempty"

section \<open>Groups\<close>

record listed_group =
  lg_group_id :: string
  lg_protocol_type :: string
  lg_group_state :: "string option"
  lg_group_type :: "string option"

definition list_groups :: "engine \<Rightarrow> listed_group list" where
  "list_groups e =
     map (\<lambda>g. \<lparr>lg_group_id = g, lg_protocol_type = ''consumer'', lg_group_state = Some ''Unknown'',
            lg_group_type = Some ''classic''\<rparr>)
       (sorted_list_of_fset (fmdom (eng_groups e) |\<union>| fst |`| fmdom (eng_offsets e)))"

text \<open>One turn of the loop of \<open>delete_groups\<close>: whether there was anything to delete, and the state
  without it.\<close>

definition delete_group :: "string \<Rightarrow> engine \<Rightarrow> bool \<times> engine" where
  "delete_group g e =
     (let had_group_state = fmlookup (eng_groups e) g \<noteq> None;
          before = fcard (fmdom (eng_offsets e));
          kept = fmfilter (\<lambda>(g', _). g' \<noteq> g) (eng_offsets e);
          deleted_committed_offsets = (before \<noteq> fcard (fmdom kept))
      in (had_group_state \<or> deleted_committed_offsets,
          e\<lparr>eng_groups := fmdrop g (eng_groups e), eng_offsets := kept\<rparr>))"

fun delete_group_loop :: "string list \<Rightarrow> engine \<Rightarrow> (string \<times> error_code) list \<times> string list \<times> engine" where
  "delete_group_loop [] e = ([], [], e)"
| "delete_group_loop (g # gs) e =
     (let (found, e) = delete_group g e; (results, deleted, e) = delete_group_loop gs e
      in ((g, if found then NoError else GroupIdNotFound) # results,
          if found then g # deleted else deleted, e))"

definition delete_groups :: "env \<Rightarrow> string list option \<Rightarrow> (string \<times> error_code) list eop" where
  "delete_groups env group_ids e =
     (case group_ids of
        None \<Rightarrow> (Inr [], e)
      | Some gs \<Rightarrow>
          let (results, deleted, e) = delete_group_loop gs e
          in and_then (for_each (\<lambda>g. wal_append env (GroupDelete g)) deleted) (\<lambda>_. ok results) e)"

datatype group_detail_response = GroupErrorCode error_code | GroupFound group_detail

record named_group_detail =
  ngd_name :: string
  ngd_response :: group_detail_response

definition describe_groups :: "env \<Rightarrow> string list option \<Rightarrow> engine \<Rightarrow> named_group_detail list" where
  "describe_groups env group_ids e =
     (case group_ids of
        None \<Rightarrow> []
      | Some gs \<Rightarrow> map (\<lambda>g. \<lparr>ngd_name = g, ngd_response = GroupFound (case fmlookup (eng_groups e) g of
            None \<Rightarrow> group_detail_default (env_now env (eng_ticks e)) | Some (detail, _) \<Rightarrow> detail)\<rparr>) gs)"

datatype update_error =
    UpdateError error | MissingEtag | Outdated group_detail version | UpdateSerdeJson | UpdateUuid

definition version_from_uuid :: "env \<Rightarrow> uuid \<Rightarrow> version" where
  "version_from_uuid env u = \<lparr>e_tag = Some (env_uuid_string env u), version_id = None\<rparr>"

text \<open>\<open>update_group\<close>: the in-memory compare and swap, then the WAL record.\<close>

definition swap_group ::
    "string \<Rightarrow> group_detail \<Rightarrow> version option \<Rightarrow> version \<Rightarrow> engine \<Rightarrow> (update_error + version) \<times> engine" where
  "swap_group g detail expected fresh e =
     (case (fmlookup (eng_groups e) g, expected) of
        (None, None) \<Rightarrow> (Inr fresh, e\<lparr>eng_groups := fmupd g (detail, fresh) (eng_groups e)\<rparr>)
      | (None, Some _) \<Rightarrow> (Inl (UpdateError (Message ''group not found'')), e)
      | (Some (current, held), None) \<Rightarrow> (Inl (Outdated current held), e)
      | (Some (current, held), Some v) \<Rightarrow>
          if held = v then (Inr fresh, e\<lparr>eng_groups := fmupd g (detail, fresh) (eng_groups e)\<rparr>)
          else (Inl (Outdated current held), e))"

definition update_group ::
    "env \<Rightarrow> string \<Rightarrow> group_detail \<Rightarrow> version option \<Rightarrow> engine \<Rightarrow> (update_error + version) \<times> engine" where
  "update_group env g detail expected e =
     (case swap_group g detail expected (version_from_uuid env (env_uuid env (eng_ticks e))) e of
        (Inl err, e') \<Rightarrow> (Inl err, e')
      | (Inr updated, e') \<Rightarrow>
          (case wal_append env (GroupUpdate g detail updated) e' of
             (Inl err, e'') \<Rightarrow> (Inl (UpdateError err), e'')
           | (Inr _, e'') \<Rightarrow> (Inr updated, e'')))"

end
