(* ===== verification/Engine_Txn.thy ===== *)
theory Engine_Txn
  imports Engine_Group
begin

text \<open>
  The transaction coordinator of \<open>tansu-storage/src/nvme/mod.rs\<close>: \<open>init_producer\<close>,
  \<open>txn_add_partitions\<close>, \<open>txn_offset_commit\<close>, the three phases of \<open>txn_end\<close>, and the sweep of
  timed-out transactions, \<open>maintain_transactions\<close>.
\<close>

section \<open>Ending a transaction\<close>

text \<open>Phase 1: under the lock, \<open>Begin\<close> becomes prepared and the produced ranges are collected.\<close>

definition prepare_state :: "bool \<Rightarrow> txn_state" where
  "prepare_state committed = (if committed then PrepareCommit else PrepareAbort)"

definition txn_prepare ::
    "env \<Rightarrow> string \<Rightarrow> int \<Rightarrow> int \<Rightarrow> bool \<Rightarrow> (string \<times> int \<times> txn_produce_offset) list eop" where
  "txn_prepare env tid pid epoch committed e =
     (case txn_detail_mut (eng_coord e) tid pid epoch of
        Inl err \<Rightarrow> (Inl err, e)
      | Inr d \<Rightarrow>
          if txn_status d = Some Begin then
            let ranges = produced_ranges d;
                e' = e\<lparr>eng_coord := update_txn_detail tid epoch
                       (\<lambda>d. d\<lparr>txn_status := Some (prepare_state committed)\<rparr>) (eng_coord e)\<rparr>
            in and_then (wal_append env (TxnPrepare tid pid epoch committed ranges)) (\<lambda>_. ok ranges) e'
          else (Inr [], e))"

text \<open>Phase 2: a control marker on every produced partition, through the produce path.\<close>

definition txn_markers ::
    "env \<Rightarrow> string \<Rightarrow> int \<Rightarrow> int \<Rightarrow> bool \<Rightarrow> (string \<times> int \<times> txn_produce_offset) list \<Rightarrow> unit eop" where
  "txn_markers env tid pid epoch committed ranges =
     for_each (\<lambda>(t, p, _). and_then (produce_marker env tid pid epoch committed (Topition t p)) (\<lambda>_. ok ())) ranges"

text \<open>Phase 3: what a resolved transaction leaves to apply.\<close>

record txn_effects =
  eff_transaction :: string
  eff_producer_id :: int
  eff_producer_epoch :: int
  eff_aborting :: bool
  eff_ranges :: "(topition \<times> txn_produce_offset) list"
  eff_offsets :: "(string \<times> topition \<times> txn_commit_offset) list"

definition effect_ranges :: "txn_detail \<Rightarrow> (topition \<times> txn_produce_offset) list" where
  "effect_ranges d = map (\<lambda>(t, p, r). (Topition t p, r)) (produced_ranges d)"

definition effect_offsets :: "txn_detail \<Rightarrow> (string \<times> topition \<times> txn_commit_offset) list" where
  "effect_offsets d =
     concat (map (\<lambda>(g, by_topic). map (\<lambda>(t, p, co). (g, Topition t p, co)) (rows2 by_topic))
       (entries (txn_offsets d)))"

definition terminal_state :: "txn_state option \<Rightarrow> txn_state option" where
  "terminal_state st =
     (case st of None \<Rightarrow> Some Committed | Some PrepareCommit \<Rightarrow> Some Committed
      | Some PrepareAbort \<Rightarrow> Some Aborted | _ \<Rightarrow> None)"

definition finish_detail :: "txn_state \<Rightarrow> txn_detail \<Rightarrow> txn_detail" where
  "finish_detail terminal d =
     d\<lparr>txn_status := Some terminal, produces := fmempty, txn_offsets := fmempty, started_at := None\<rparr>"

fun resolve_refs :: "txn_ref list \<Rightarrow> coord_state \<Rightarrow> txn_effects list \<times> coord_state" where
  "resolve_refs [] c = ([], c)"
| "resolve_refs (r # rs) c =
     (case txn_detail_of c (ref_transaction r) (ref_producer_epoch r) of
        None \<Rightarrow> resolve_refs rs c
      | Some d \<Rightarrow>
          (case terminal_state (txn_status d) of
             None \<Rightarrow> resolve_refs rs c
           | Some terminal \<Rightarrow>
               let effect = \<lparr>eff_transaction = ref_transaction r, eff_producer_id = ref_producer_id r,
                     eff_producer_epoch = ref_producer_epoch r, eff_aborting = (terminal = Aborted),
                     eff_ranges = effect_ranges d,
                     eff_offsets = (if ref_state r = PrepareCommit then effect_offsets d else [])\<rparr>;
                   (effects, c') = resolve_refs rs
                     (update_txn_detail (ref_transaction r) (ref_producer_epoch r) (finish_detail terminal) c)
               in (effect # effects, c')))"

text \<open>\<open>None\<close> is the deferral: an overlapping transaction is still open.\<close>

definition txn_resolve :: "string \<Rightarrow> int \<Rightarrow> int \<Rightarrow> bool \<Rightarrow> (coord_state, txn_effects list option) op" where
  "txn_resolve tid pid epoch committed c =
     (case txn_detail_mut c tid pid epoch of
        Inl err \<Rightarrow> (Inl err, c)
      | Inr _ \<Rightarrow>
          let overlaps = overlapping_transactions c tid pid epoch in
          if \<not> list_all (\<lambda>r. is_prepared (ref_state r)) overlaps then (Inr None, c)
          else
            let (effects, c') = resolve_refs
                  (overlaps @ [\<lparr>ref_transaction = tid, ref_producer_id = pid, ref_producer_epoch = epoch,
                     ref_state = prepare_state committed\<rparr>]) c
            in (Inr (Some effects), c'))"

definition terminal_record :: "txn_effects \<Rightarrow> wal_record" where
  "terminal_record x = TxnTerminal (eff_transaction x) (eff_producer_id x) (eff_producer_epoch x) (\<not> eff_aborting x)
     (if eff_aborting x then map (\<lambda>(tp, r). (topic tp, partition tp, r)) (eff_ranges x) else [])"

text \<open>
  One WAL write per effect, then the wait on the last ack.  A write that is refused returns at once;
  the acks of the earlier ones are not awaited.
\<close>

fun log_terminals :: "env \<Rightarrow> txn_effects list \<Rightarrow> unit eop" where
  "log_terminals env [] e = (Inr (), e)"
| "log_terminals env (x # xs) e =
     (case io env e of
        Refused err n \<Rightarrow> (Inl err, tick e)
      | Unacked err \<Rightarrow>
          if xs = [] then (Inl err, log_record env (terminal_record x) (tick e))
          else log_terminals env xs (log_record env (terminal_record x) (tick e))
      | Done \<Rightarrow> log_terminals env xs (log_record env (terminal_record x) (tick e)))"

definition push_aborted_range :: "aborted_range \<Rightarrow> partition_inner \<Rightarrow> partition_inner" where
  "push_aborted_range a s = (if a \<in> set (aborted s) then s else s\<lparr>aborted := aborted s @ [a]\<rparr>)"

definition release_txn :: "txn_effects \<Rightarrow> txn_produce_offset \<Rightarrow> partition_inner \<Rightarrow> partition_inner" where
  "release_txn x r s =
     (let s = s\<lparr>open_txns := fmdrop (eff_transaction x, eff_producer_id x, eff_producer_epoch x) (open_txns s)\<rparr>
      in if eff_aborting x
         then push_aborted_range \<lparr>aborted_producer = eff_producer_id x, aborted_start = offset_start r,
                aborted_end = offset_end r\<rparr> s
         else s)"

definition apply_effect :: "txn_effects \<Rightarrow> (topition, partition_inner) fmap \<Rightarrow> (topition, partition_inner) fmap" where
  "apply_effect x = fold (\<lambda>(tp, r). adjust tp (release_txn x r)) (eff_ranges x)"

text \<open>Committed transactional offsets become regular group commits, group by group.\<close>

definition by_group ::
    "txn_effects list \<Rightarrow> (string, (topition \<times> offset_commit_request) list) fmap" where
  "by_group effects =
     fold (\<lambda>(g, tp, co) m. fmupd g (entry_or [] m g @ [(tp, offset_commit_default\<lparr>commit_offset := committed_offset co\<rparr>)]) m)
       (concat (map eff_offsets effects)) fmempty"

definition commit_txn_offsets :: "env \<Rightarrow> txn_effects list \<Rightarrow> unit eop" where
  "commit_txn_offsets env effects =
     for_each (\<lambda>(g, offsets). and_then (offset_commit env g offsets) (\<lambda>_. ok ())) (entries (by_group effects))"

definition txn_finish :: "env \<Rightarrow> txn_effects list \<Rightarrow> unit eop" where
  "txn_finish env effects =
     and_then (log_terminals env effects) (\<lambda>_.
     and_then (modify (\<lambda>e. e\<lparr>eng_partitions := fold apply_effect effects (eng_partitions e)\<rparr>)) (\<lambda>_.
     commit_txn_offsets env effects))"

definition txn_end :: "env \<Rightarrow> string \<Rightarrow> int \<Rightarrow> int \<Rightarrow> bool \<Rightarrow> error_code eop" where
  "txn_end env tid pid epoch committed =
     and_then (txn_prepare env tid pid epoch committed) (\<lambda>ranges.
     and_then (txn_markers env tid pid epoch committed ranges) (\<lambda>_ e.
       case txn_resolve tid pid epoch committed (eng_coord e) of
         (Inl err, c) \<Rightarrow> (Inl err, e\<lparr>eng_coord := c\<rparr>)
       | (Inr None, c) \<Rightarrow> (Inr NoError, e\<lparr>eng_coord := c\<rparr>)
       | (Inr (Some effects), c) \<Rightarrow>
           and_then (txn_finish env effects) (\<lambda>_. ok NoError) (e\<lparr>eng_coord := c\<rparr>)))"

section \<open>Producers\<close>

record producer_id_response =
  pid_error :: error_code
  pid_id :: int
  pid_epoch :: int

definition producer_refused :: producer_id_response where
  "producer_refused = \<lparr>pid_error = UnknownServerError, pid_id = -1, pid_epoch = -1\<rparr>"

definition next_producer_id :: "coord_state \<Rightarrow> int" where
  "next_producer_id c = (case last_entry (producers c) of None \<Rightarrow> 1 | Some (k, _) \<Rightarrow> k + 1)"

definition fresh_txn_detail :: "int \<Rightarrow> txn_detail" where
  "fresh_txn_detail timeout = txn_detail_default\<lparr>transaction_timeout_ms := timeout\<rparr>"

datatype init_outcome = Completed producer_id_response "wal_record option" | NeedToRollback int int

text \<open>The decision of \<open>init_producer\<close> under the lock, for a transactional producer.\<close>

definition init_transactional ::
    "string \<Rightarrow> int \<Rightarrow> int option \<Rightarrow> int option \<Rightarrow> coord_state \<Rightarrow> init_outcome \<times> coord_state" where
  "init_transactional tid timeout pid epoch c =
     (if pid = Some (-1) \<and> epoch = Some (-1) then
        (case fmlookup (transactions c) tid of
           None \<Rightarrow>
             let i = next_producer_id c in
             (Completed \<lparr>pid_error = NoError, pid_id = i, pid_epoch = 0\<rparr> (Some (PidAlloc i (Some tid) timeout)),
              c\<lparr>producers := fmupd i \<lparr>sequences = fmupd 0 fmempty fmempty\<rparr> (producers c),
                transactions := fmupd tid \<lparr>producer = i, epochs = fmupd 0 (fresh_txn_detail timeout) fmempty\<rparr>
                  (transactions c)\<rparr>)
         | Some t \<Rightarrow>
             (case last_entry (epochs t) of
                None \<Rightarrow> (Completed producer_refused None, c)
              | Some (current, d) \<Rightarrow>
                  if txn_status d = Some Begin then (NeedToRollback (producer t) current, c)
                  else
                    let next_epoch = wrap_signed 16 (current + 1) in
                    (Completed \<lparr>pid_error = NoError, pid_id = producer t, pid_epoch = next_epoch\<rparr>
                       (Some (EpochBump tid (producer t) next_epoch timeout)),
                     c\<lparr>producers := adjust (producer t)
                         (\<lambda>pd. pd\<lparr>sequences := fmupd next_epoch fmempty (sequences pd)\<rparr>) (producers c),
                       transactions := adjust tid
                         (\<lambda>t. t\<lparr>epochs := fmupd next_epoch (fresh_txn_detail timeout) (epochs t)\<rparr>) (transactions c)\<rparr>)))
      else (Completed producer_refused None, c))"

text \<open>
  The whole handler.  After a roll back it calls itself; \<open>fuel\<close> bounds the depth, and running out of
  it is a value of its own (\<open>None\<close>).
\<close>

fun init_producer_txn ::
    "nat \<Rightarrow> env \<Rightarrow> string \<Rightarrow> int \<Rightarrow> int option \<Rightarrow> int option \<Rightarrow> producer_id_response option eop" where
  "init_producer_txn 0 env tid timeout pid epoch e = (Inr None, e)"
| "init_producer_txn (Suc fuel) env tid timeout pid epoch e =
     (case init_transactional tid timeout pid epoch (eng_coord e) of
        (Completed response record, c) \<Rightarrow>
          and_then (case record of None \<Rightarrow> ok () | Some r \<Rightarrow> wal_append env r) (\<lambda>_. ok (Some response))
            (e\<lparr>eng_coord := c\<rparr>)
      | (NeedToRollback rpid repoch, c) \<Rightarrow>
          and_then (txn_end env tid rpid repoch False) (\<lambda>code.
            if code = NoError then init_producer_txn fuel env tid timeout pid epoch
            else ok (Some producer_refused)) (e\<lparr>eng_coord := c\<rparr>))"

definition init_idempotent :: "env \<Rightarrow> int option \<Rightarrow> int option \<Rightarrow> producer_id_response eop" where
  "init_idempotent env pid epoch e =
     (if pid = Some (-1) \<and> epoch = Some (-1) then
        let i = next_producer_id (eng_coord e);
            c = (eng_coord e)\<lparr>producers := fmupd i \<lparr>sequences = fmupd 0 fmempty fmempty\<rparr> (producers (eng_coord e))\<rparr>
        in and_then (wal_append env (PidAlloc i None 0))
             (\<lambda>_. ok \<lparr>pid_error = NoError, pid_id = i, pid_epoch = 0\<rparr>) (e\<lparr>eng_coord := c\<rparr>)
      else (Inr producer_refused, e))"

definition init_producer ::
    "nat \<Rightarrow> env \<Rightarrow> string option \<Rightarrow> int \<Rightarrow> int option \<Rightarrow> int option \<Rightarrow> producer_id_response option eop" where
  "init_producer fuel env transaction_id timeout pid epoch =
     (case transaction_id of
        Some tid \<Rightarrow> init_producer_txn fuel env tid timeout pid epoch
      | None \<Rightarrow> and_then (init_idempotent env pid epoch) (\<lambda>r. ok (Some r)))"

section \<open>Joining a transaction\<close>

type_synonym add_topics = "(string \<times> int list option) list"

definition requested :: "add_topics \<Rightarrow> (string \<times> int) list" where
  "requested ts = concat (map (\<lambda>(t, ps). map (Pair t) (case ps of None \<Rightarrow> [] | Some l \<Rightarrow> l)) ts)"

definition txn_add_partitions_response ::
    "add_topics \<Rightarrow> error_code \<Rightarrow> (string \<times> (int \<times> error_code) list) list" where
  "txn_add_partitions_response ts code =
     map (\<lambda>(t, ps). (t, map (\<lambda>p. (p, code)) (case ps of None \<Rightarrow> [] | Some l \<Rightarrow> l))) ts"

datatype txn_add_partitions_request =
    VersionZeroToThree string int int add_topics
  | VersionFourPlus

text \<open>The update of the transaction: a terminal one is begun anew.\<close>

definition begin_detail :: "system_time \<Rightarrow> (string \<times> int) list \<Rightarrow> txn_detail \<Rightarrow> txn_detail" where
  "begin_detail now ps d =
     (let d' = (if (case txn_status d of Some st \<Rightarrow> is_terminal st | None \<Rightarrow> False)
                then d\<lparr>produces := fmempty, txn_offsets := fmempty\<rparr> else d)
      in d'\<lparr>produces := fold touch_partition ps (produces d'), started_at := Some now, txn_status := Some Begin\<rparr>)"

definition txn_add_partitions ::
    "env \<Rightarrow> txn_add_partitions_request \<Rightarrow> (string \<times> (int \<times> error_code) list) list eop" where
  "txn_add_partitions env request e =
     (case request of
        VersionFourPlus \<Rightarrow> (Inl (Api UnsupportedVersion), e)
      | VersionZeroToThree tid pid epoch ts \<Rightarrow>
          let now = env_now env (eng_ticks e) in
          (case txn_detail_mut (eng_coord e) tid pid epoch of
             Inl (Api code) \<Rightarrow> (Inr (txn_add_partitions_response ts code), e)
           | Inl err \<Rightarrow> (Inl err, e)
           | Inr _ \<Rightarrow>
               and_then (wal_append env (TxnBegin tid pid epoch now (requested ts)))
                 (\<lambda>_. ok (txn_add_partitions_response ts NoError))
                 (e\<lparr>eng_coord := update_txn_detail tid epoch (begin_detail now (requested ts)) (eng_coord e)\<rparr>)))"

definition txn_add_offsets :: "string \<Rightarrow> int \<Rightarrow> int \<Rightarrow> string \<Rightarrow> error_code eop" where
  "txn_add_offsets tid pid epoch g = ok NoError"

record txn_offset_commit_request =
  toc_transaction_id :: string
  toc_group_id :: string
  toc_producer_id :: int
  toc_producer_epoch :: int
  toc_topics :: "(string \<times> (int \<times> txn_commit_offset) list option) list"

definition toc_rows :: "txn_offset_commit_request \<Rightarrow> (string \<times> int \<times> txn_commit_offset) list" where
  "toc_rows r = concat (map (\<lambda>(t, ps). map (\<lambda>(p, co). (t, p, co)) (case ps of None \<Rightarrow> [] | Some l \<Rightarrow> l)) (toc_topics r))"

definition txn_offset_commit_response ::
    "txn_offset_commit_request \<Rightarrow> error_code \<Rightarrow> (string \<times> (int \<times> error_code) list) list" where
  "txn_offset_commit_response r code =
     map (\<lambda>(t, ps). (t, map (\<lambda>(p, _). (p, code)) (case ps of None \<Rightarrow> [] | Some l \<Rightarrow> l))) (toc_topics r)"

definition txn_offset_commit ::
    "env \<Rightarrow> txn_offset_commit_request \<Rightarrow> (string \<times> (int \<times> error_code) list) list eop" where
  "txn_offset_commit env r e =
     (case txn_detail_mut (eng_coord e) (toc_transaction_id r) (toc_producer_id r) (toc_producer_epoch r) of
        Inl (Api code) \<Rightarrow> (Inr (txn_offset_commit_response r code), e)
      | Inl err \<Rightarrow> (Inl err, e)
      | Inr _ \<Rightarrow>
          and_then (wal_append env (TxnOffsets (toc_transaction_id r) (toc_producer_id r) (toc_producer_epoch r)
              (toc_group_id r) (toc_rows r)))
            (\<lambda>_. ok (txn_offset_commit_response r NoError))
            (e\<lparr>eng_coord := update_txn_detail (toc_transaction_id r) (toc_producer_epoch r)
               (\<lambda>d. d\<lparr>txn_offsets := fold (insert_txn_offset (toc_group_id r)) (toc_rows r) (txn_offsets d)\<rparr>)
               (eng_coord e)\<rparr>))"

section \<open>The sweep\<close>

definition txn_expired :: "system_time \<Rightarrow> txn_detail \<Rightarrow> bool" where
  "txn_expired now d \<longleftrightarrow>
     \<not> (case txn_status d of Some st \<Rightarrow> is_terminal st | None \<Rightarrow> False) \<and>
     (case started_at d of
        None \<Rightarrow> False
      | Some t \<Rightarrow> t \<le> now \<and> now - t > max (transaction_timeout_ms d) 0)"

definition expired_txns :: "system_time \<Rightarrow> coord_state \<Rightarrow> (string \<times> int \<times> int) list" where
  "expired_txns now c =
     concat (map (\<lambda>(tid, t). map (\<lambda>(epoch, _). (tid, producer t, epoch))
         (filter (\<lambda>(_, d). txn_expired now d) (entries (epochs t)))) (entries (transactions c)))"

fun sweep :: "env \<Rightarrow> (string \<times> int \<times> int) list \<Rightarrow> engine \<Rightarrow> engine" where
  "sweep env [] e = e"
| "sweep env ((tid, pid, epoch) # rest) e = sweep env rest (snd (txn_end env tid pid epoch False e))"

definition maintain_transactions :: "env \<Rightarrow> system_time \<Rightarrow> unit eop" where
  "maintain_transactions env now e = (Inr (), sweep env (expired_txns now (eng_coord e)) e)"

end
