(* ===== verification/Engine_Maintain.thy ===== *)
theory Engine_Maintain
  imports Produce_Spec
begin

text \<open>
  The maintenance of \<open>tansu-storage/src/nvme/mod.rs\<close>: \<open>snapshot_now\<close>, which folds the WAL into a
  snapshot and retires its files, \<open>apply_retention\<close>, which deletes old segments, and \<open>maintain\<close>, for
  an engine without a tier.  A file that cannot be removed stays; the failure is only logged.
\<close>

section \<open>Snapshots\<close>

text \<open>The files on disk: the current WAL file and the retired ones.\<close>

definition disk_wals :: "engine \<Rightarrow> (nat, wal_record list) fmap" where
  "disk_wals e = fmupd (eng_wal_seq e) (eng_wal e) (eng_retired e)"

definition wal_file_size :: "env \<Rightarrow> wal_record list \<Rightarrow> nat" where
  "wal_file_size env rs = sum_list (map (env_wal_size env) rs)"

definition rotate_wal :: "engine \<Rightarrow> engine" where
  "rotate_wal e = e\<lparr>eng_retired := fmupd (eng_wal_seq e) (eng_wal e) (eng_retired e),
     eng_wal_seq := Suc (eng_wal_seq e), eng_wal := [], eng_wal_bytes := 0\<rparr>"

definition snap_partitions :: "engine \<Rightarrow> snap_partition list" where
  "snap_partitions e =
     map (\<lambda>(tp, s). \<lparr>spart_topic = topic tp, spart_partition = partition tp, spart_log_start = log_start s,
            spart_aborted = aborted s\<rparr>) (entries (eng_partitions e))"

definition capture :: "nat \<Rightarrow> engine \<Rightarrow> snapshot_doc" where
  "capture retired_seq e =
     from_state retired_seq (eng_coord e) (eng_groups e) (eng_offsets e) (snap_partitions e)"

text \<open>Retiring one WAL file: the bytes are subtracted from the disk usage even where the file stays.\<close>

definition retire_wal :: "env \<Rightarrow> nat \<Rightarrow> engine \<Rightarrow> engine" where
  "retire_wal env sq e =
     (let size = word_of_nat (wal_file_size env (entry_or [] (eng_retired e) sq)) :: 64 word
      in (tick e)\<lparr>eng_retired := (case io env e of Refused _ _ \<Rightarrow> eng_retired e | _ \<Rightarrow> fmdrop sq (eng_retired e)),
            eng_usage := eng_usage e - size\<rparr>)"

definition retire_wals :: "env \<Rightarrow> nat \<Rightarrow> engine \<Rightarrow> engine" where
  "retire_wals env retired_seq e =
     fold (retire_wal env) (filter (\<lambda>sq. sq \<le> retired_seq) (wal_seqs (disk_wals e))) e"

text \<open>An I/O operation whose failure is returned.\<close>

definition do_io :: "env \<Rightarrow> unit eop" where
  "do_io env e = (case io env e of Done \<Rightarrow> (Inr (), tick e) | Refused err _ \<Rightarrow> (Inl err, tick e)
     | Unacked err \<Rightarrow> (Inl err, tick e))"

definition store_snapshot :: "env \<Rightarrow> snapshot_doc \<Rightarrow> unit eop" where
  "store_snapshot env doc = and_then (do_io env)
     (\<lambda>_. modify (\<lambda>e. e\<lparr>eng_snapshots := fmupd (doc_wal_seq doc) doc (eng_snapshots e)\<rparr>))"

text \<open>
  In order: create the next WAL file, rotate, capture under the coordination lock, seal the old
  file, write the snapshot, retire the old WAL files, prune the old snapshots.
\<close>

definition snapshot_now :: "env \<Rightarrow> unit eop" where
  "snapshot_now env e =
     (let retired_seq = eng_wal_seq e in
      and_then (do_io env) (\<lambda>_.
      and_then (modify rotate_wal) (\<lambda>_.
      and_then (gets (capture retired_seq)) (\<lambda>doc.
      and_then (do_io env) (\<lambda>_.
      and_then (store_snapshot env doc) (\<lambda>_.
      and_then (modify (retire_wals env retired_seq)) (\<lambda>_.
      and_then (do_io env) (\<lambda>_.
      modify (\<lambda>e. e\<lparr>eng_snapshots := prune_snapshots (eng_snapshots e)\<rparr>)))))))) e)"

section \<open>Retention\<close>

definition DEFAULT_RETENTION_MS :: int where
  "DEFAULT_RETENTION_MS = 7 * 24 * 60 * 60 * 1000"

text \<open>\<open>str::parse::<i64>\<close>: an optional sign and decimal digits, in range.\<close>

definition digit_of :: "char \<Rightarrow> int option" where
  "digit_of c = (let n = int (of_char c) in if 48 \<le> n \<and> n \<le> 57 then Some (n - 48) else None)"

fun digits_value :: "int \<Rightarrow> string \<Rightarrow> int option" where
  "digits_value acc [] = Some acc"
| "digits_value acc (c # cs) =
     (case digit_of c of None \<Rightarrow> None | Some d \<Rightarrow> digits_value (10 * acc + d) cs)"

definition parse_unsigned :: "string \<Rightarrow> int option" where
  "parse_unsigned cs = (if cs = [] then None else digits_value 0 cs)"

definition parse_i64 :: "string \<Rightarrow> int option" where
  "parse_i64 cs =
     (let v = (case cs of
          CHR ''-'' # rest \<Rightarrow> map_option uminus (parse_unsigned rest)
        | CHR ''+'' # rest \<Rightarrow> parse_unsigned rest
        | _ \<Rightarrow> parse_unsigned cs)
      in case v of None \<Rightarrow> None | Some x \<Rightarrow> if fits_signed 64 x then Some x else None)"

fun retention_config :: "creatable_topic_config list \<Rightarrow> int \<times> int \<Rightarrow> int \<times> int" where
  "retention_config [] limits = limits"
| "retention_config (c # cs) (ms, bytes) =
     retention_config cs
       (case config_value c of
          None \<Rightarrow> (ms, bytes)
        | Some v \<Rightarrow>
            if config_name c = ''retention.ms'' then (case parse_i64 v of None \<Rightarrow> ms | Some x \<Rightarrow> x, bytes)
            else if config_name c = ''retention.bytes'' then (ms, case parse_i64 v of None \<Rightarrow> bytes | Some x \<Rightarrow> x)
            else (ms, bytes))"

definition retention_of :: "topic_metadata \<Rightarrow> int \<times> int" where
  "retention_of m =
     retention_config (case configs (creatable m) of None \<Rightarrow> [] | Some cs \<Rightarrow> cs) (DEFAULT_RETENTION_MS, -1)"

text \<open>Per sealed segment: its newest timestamp, starting from \<open>i64::MIN\<close>, and its bytes.\<close>

definition active_base :: "partition_inner \<Rightarrow> int option" where
  "active_base s = map_option writer_base (seg_writer s)"

definition segment_stats :: "partition_inner \<Rightarrow> (int, int \<times> nat) fmap" where
  "segment_stats s =
     fold (\<lambda>(_, x) m.
         if Some (entry_segment x) = active_base s then m
         else let (ts, n) = entry_or (- (2 ^ 63), 0) m (entry_segment x)
              in fmupd (entry_segment x) (max ts (entry_max_timestamp x), n + entry_len x) m)
       (entries (batches s)) fmempty"

text \<open>The loop over the sealed segments, oldest first, until one is kept.\<close>

fun retention_loop ::
    "int \<Rightarrow> int \<Rightarrow> int \<Rightarrow> int \<Rightarrow> (int \<times> int \<times> nat) list \<Rightarrow> nat \<Rightarrow> int \<Rightarrow> int" where
  "retention_loop ms bytes now tail [] held new_start = new_start"
| "retention_loop ms bytes now tail ((base, max_ts, n) # rest) held new_start =
     (let boundary = (case rest of [] \<Rightarrow> tail | (next_base, _) # _ \<Rightarrow> next_base);
          expired = (ms \<ge> 0 \<and> max_ts \<ge> 0 \<and> max_ts < now - ms);
          oversize = (bytes \<ge> 0 \<and> int held > bytes)
      in if expired \<or> oversize
         then retention_loop ms bytes now tail rest (held - n) (max new_start boundary)
         else new_start)"

definition retention_start :: "int \<Rightarrow> int \<Rightarrow> int \<Rightarrow> partition_inner \<Rightarrow> int" where
  "retention_start ms bytes now s =
     (let segments = entries (segment_stats s);
          held = sum_list (map (\<lambda>(_, _, n). n) segments) + (case seg_writer s of None \<Rightarrow> 0 | Some w \<Rightarrow> writer_position w);
          tail = (case active_base s of None \<Rightarrow> next_offset s | Some a \<Rightarrow> a)
      in retention_loop ms bytes now tail segments held (log_start s))"

definition delete_segment :: "env \<Rightarrow> topition \<Rightarrow> int \<Rightarrow> engine \<Rightarrow> engine" where
  "delete_segment env tp base e =
     (let s = entry_or partition_new (eng_partitions e) tp;
          size = word_of_nat (length (entry_or [] (files s) base)) :: 64 word;
          s' = (case io env e of Refused _ _ \<Rightarrow> s | _ \<Rightarrow> s\<lparr>files := fmdrop base (files s)\<rparr>)
      in (set_partition tp s' (tick e))\<lparr>eng_usage := eng_usage e - size\<rparr>)"

text \<open>The files of the sealed segments below the new start.\<close>

definition doomed_segments :: "int \<Rightarrow> partition_inner \<Rightarrow> int list" where
  "doomed_segments new_start s =
     filter (\<lambda>base. base < new_start \<and> Some base \<noteq> active_base s) (segment_bases (files s))"

definition retain_partition :: "env \<Rightarrow> int \<Rightarrow> int \<Rightarrow> int \<Rightarrow> topition \<Rightarrow> unit eop" where
  "retain_partition env ms bytes now tp e =
     (case fmlookup (eng_partitions e) tp of
        None \<Rightarrow> (Inr (), e)
      | Some s \<Rightarrow>
          if ms < 0 \<and> bytes < 0 then (Inr (), e)
          else
            let new_start = retention_start ms bytes now s in
            if new_start \<le> log_start s then (Inr (), e)
            else (case advance_log_start new_start s of
                None \<Rightarrow> (Inl Panic, e)
              | Some (start, s1) \<Rightarrow>
                  let doomed = doomed_segments new_start s1;
                      e1 = set_partition tp (s1\<lparr>read_files := fold (\<lambda>b fs. fs |-| {|b|}) doomed (read_files s1)\<rparr>) e
                  in if doomed = [] then (Inr (), e1)
                     else wal_append env (LogStartAdvance (topic tp) (partition tp) start)
                            (fold (delete_segment env tp) doomed e1)))"

definition apply_retention :: "env \<Rightarrow> int \<Rightarrow> unit eop" where
  "apply_retention env now e =
     (let limits = fmmap retention_of (topics (eng_coord e)) in
      for_each (\<lambda>tp. case fmlookup limits (topic tp) of
            None \<Rightarrow> ok ()
          | Some (ms, bytes) \<Rightarrow> retain_partition env ms bytes now tp)
        (map fst (entries (eng_partitions e))) e)"

definition maintain :: "env \<Rightarrow> int \<Rightarrow> unit eop" where
  "maintain env now = and_then (apply_retention env now) (\<lambda>_ e.
     if eng_wal_bytes e > 0 then snapshot_now env e else (Inr (), e))"

end
