(* ===== verification/Recovery.thy ===== *)
theory Recovery
  imports Engine_Txn Engine_Maintain
begin

text \<open>
  Boot, \<open>tansu-storage/src/nvme/recovery.rs\<close> and \<open>Engine::open\<close> of \<open>mod.rs\<close>, for an engine without a
  tier: the manifest check, the newest snapshot and the WAL records after it, the scan of every
  partition's segments, the open transactions, and the end of the prepared ones.  The disk is the
  record \<open>disk\<close>: the snapshots and WAL files by their sequence, the manifest file, and the segment
  files of every partition directory.  \<open>serde_json\<close> of the manifest is a pair of parameters.
\<close>

section \<open>Directory names\<close>

text \<open>\<open>PathBuf::from(&Topition)\<close> writes \<open>{topic}-{partition:0>10}\<close>.\<close>

fun nat_digits :: "nat \<Rightarrow> string" where
  "nat_digits n = (if n < 10 then [char_of (48 + n)] else nat_digits (n div 10) @ [char_of (48 + n mod 10)])"

declare nat_digits.simps [simp del]

definition int_text :: "int \<Rightarrow> string" where
  "int_text i = (if i < 0 then CHR ''-'' # nat_digits (nat (- i)) else nat_digits (nat i))"

definition pad_left :: "nat \<Rightarrow> string \<Rightarrow> string" where
  "pad_left n s = replicate (n - length s) (CHR ''0'') @ s"

definition topition_dir :: "topition \<Rightarrow> string" where
  "topition_dir tp = topic tp @ CHR ''-'' # pad_left 10 (int_text (partition tp))"

text \<open>\<open>Topition::try_from(&DirEntry)\<close>: the pattern \<open>^(.+)-(\d{10})$\<close> and an \<open>i32\<close> parse; a dot does not match
  a newline.\<close>

definition topition_of_dir :: "string \<Rightarrow> error + topition" where
  "topition_of_dir name =
     (let k = length name - 11; t = take k name; rest = drop k name in
      if length name < 12 \<or> CHR 0x0A \<in> set t \<or> hd rest \<noteq> CHR ''-'' \<or> list_ex (\<lambda>c. digit_of c = None) (tl rest)
      then Inl (Message ''no captures for'')
      else (case parse_unsigned (tl rest) of
              None \<Rightarrow> Inl (Message ''no captures for'')
            | Some p \<Rightarrow> if fits_signed 32 p then Inr (Topition t p) else Inl (Message ''ParseIntError'')))"

section \<open>The manifest\<close>

definition MANIFEST_FORMAT_VERSION :: nat where "MANIFEST_FORMAT_VERSION = 1"

record manifest =
  mf_format_version :: nat
  mf_cluster_id :: string

definition check_manifest ::
    "crc \<Rightarrow> (manifest \<Rightarrow> bytes) \<Rightarrow> (bytes \<Rightarrow> manifest option) \<Rightarrow> string \<Rightarrow> (bytes option, unit) op" where
  "check_manifest crc to_json of_json cluster stored_file =
     (case stored_file of
        Some bs \<Rightarrow>
          (case decode crc bs of
             Frame f \<Rightarrow>
               if frame_type f = Manifest then
                 (case of_json (payload f) of
                    None \<Rightarrow> (Inl SerdeJson, stored_file)
                  | Some mf \<Rightarrow>
                      if mf_format_version mf \<noteq> MANIFEST_FORMAT_VERSION then (Inl (Message ''nvme MANIFEST format''), stored_file)
                      else if mf_cluster_id mf \<noteq> cluster then (Inl (Message ''nvme data dir belongs to cluster''), stored_file)
                      else (Inr (), stored_file))
               else (Inl (Message ''nvme MANIFEST corrupt''), stored_file)
           | Torn \<Rightarrow> (Inl (Message ''nvme MANIFEST corrupt''), stored_file))
      | None \<Rightarrow>
          (Inr (), Some (encode crc Manifest
             (to_json \<lparr>mf_format_version = MANIFEST_FORMAT_VERSION, mf_cluster_id = cluster\<rparr>))))"

section \<open>The scan of a partition\<close>

definition txn_by_producer :: "coord_state \<Rightarrow> (int, string) fmap" where
  "txn_by_producer c = fold (\<lambda>(tid, t). fmupd (producer t) tid) (entries (transactions c)) fmempty"

text \<open>Idempotent sequences continue from what is on disk.\<close>

definition resume_sequence :: "topition \<Rightarrow> deflated_batch \<Rightarrow> coord_state \<Rightarrow> coord_state" where
  "resume_sequence tp b c =
     (let pd = entry_or \<lparr>sequences = fmempty\<rparr> (producers c) (b_producer_id b);
          by_topic = entry_or fmempty (sequences pd) (b_producer_epoch b);
          held = entry_or 0 (entry_or fmempty by_topic (topic tp)) (partition tp);
          v = max held (wrap_signed 32 (wrap_signed 32 (b_base_sequence b + b_last_offset_delta b) + 1))
      in c\<lparr>producers := fmupd (b_producer_id b)
            (pd\<lparr>sequences := fmupd (b_producer_epoch b) (insert2 (topic tp) (partition tp) v by_topic) (sequences pd)\<rparr>)
            (producers c)\<rparr>)"

definition rejoin_txn ::
    "(int, string) fmap \<Rightarrow> topition \<Rightarrow> deflated_batch \<Rightarrow> int \<Rightarrow> int \<Rightarrow> coord_state \<Rightarrow> coord_state" where
  "rejoin_txn owners tp b offset fin c =
     (case fmlookup owners (b_producer_id b) of
        None \<Rightarrow> c
      | Some tid \<Rightarrow>
          (case fmlookup (transactions c) tid of
             None \<Rightarrow> c
           | Some t \<Rightarrow>
               if producer t = b_producer_id b \<and>
                  map_option txn_status (fmlookup (epochs t) (b_producer_epoch b)) = Some (Some Begin)
               then update_txn_detail tid (b_producer_epoch b) (merge_range tp offset fin) c
               else c))"

definition scanned_entry :: "int \<Rightarrow> scanned_batch \<Rightarrow> deflated_batch \<Rightarrow> batch_attribute \<Rightarrow> batch_entry" where
  "scanned_entry base sb b attrs =
     (batch_entry_of b attrs base (file_position sb) (scanned_len sb))\<lparr>entry_cached := None\<rparr>"

definition scan_batch ::
    "(int, string) fmap \<Rightarrow> topition \<Rightarrow> int \<Rightarrow> scanned_batch \<Rightarrow> (partition_inner \<times> coord_state, unit) op" where
  "scan_batch owners tp base sb = (\<lambda>(s, c).
     case batch_try_from (batch sb) of
       Inl err \<Rightarrow> (Inl (Message ''nvme scan decode''), (s, c))
     | Inr b \<Rightarrow>
         (case batch_attribute_try_from (b_attributes b) of
            Inl err \<Rightarrow> (Inl err, (s, c))
          | Inr attrs \<Rightarrow>
              let offset = base_offset sb;
                  fin = offset + b_last_offset_delta b;
                  s1 = index_batch offset (scanned_entry base sb b attrs) 0 s;
                  s2 = s1\<lparr>next_offset := max (next_offset s1) (fin + 1)\<rparr>;
                  c1 = (if is_idempotent b then resume_sequence tp b c else c);
                  c2 = (if attr_transaction attrs \<and> \<not> attr_control attrs
                        then rejoin_txn owners tp b offset fin c1 else c1)
              in (Inr (), (s2, c2))))"

definition scan_file ::
    "crc \<Rightarrow> (int, string) fmap \<Rightarrow> topition \<Rightarrow> int \<Rightarrow> (partition_inner \<times> coord_state, unit) op" where
  "scan_file crc owners tp base = (\<lambda>(s, c).
     let content = entry_or [] (files s) base;
         (found, valid_len) = scan_segment crc content;
         s1 = (if valid_len < length content
               then s\<lparr>files := fmupd base (truncate_to valid_len content) (files s)\<rparr> else s)
     in for_each (scan_batch owners tp base) found (s1, c))"

definition scan_partition ::
    "crc \<Rightarrow> topition \<Rightarrow> (int, bytes) fmap \<Rightarrow> skeleton \<Rightarrow> coord_state \<Rightarrow> error + partition_inner \<times> coord_state" where
  "scan_partition crc tp dir sk c =
     (let s0 = partition_new\<lparr>files := dir, log_start := sk_log_start sk, aborted := sk_aborted sk\<rparr>
      in case for_each (scan_file crc (txn_by_producer c) tp) (segment_bases dir) (s0, c) of
           (Inl err, _) \<Rightarrow> Inl err
         | (Inr _, (s, c')) \<Rightarrow>
             let n = max (next_offset s) (log_start s);
                 s1 = s\<lparr>next_offset := n, durable_offset := n, log_start := 0\<rparr>
             in (case advance_log_start (log_start s) s1 of
                   None \<Rightarrow> Inl Panic
                 | Some (_, s2) \<Rightarrow> Inr (s2, c')))"

section \<open>Recovery\<close>

record disk =
  disk_snapshots :: "(nat, snapshot_doc) fmap"
  disk_wal_files :: "(nat, wal_record list) fmap"
  disk_dirs :: "(topition, (int, bytes) fmap) fmap"

definition newest_snapshot :: "(nat, snapshot_doc) fmap \<Rightarrow> snapshot_doc option" where
  "newest_snapshot snaps = map_option snd (last_entry snaps)"

text \<open>The newest snapshot, then the records of the WAL files it does not capture, in order.\<close>

definition recover_meta :: "(nat, snapshot_doc) fmap \<Rightarrow> (nat, wal_record list) fmap \<Rightarrow> meta_state" where
  "recover_meta snaps wals =
     (let snap = newest_snapshot snaps;
          snapshot_seq = (case snap of None \<Rightarrow> 0 | Some doc \<Rightarrow> doc_wal_seq doc);
          start = (case snap of None \<Rightarrow> meta_default | Some doc \<Rightarrow> meta_of_doc doc)
      in fold (\<lambda>sq. apply_records (entry_or [] wals sq)) (filter (\<lambda>sq. sq > snapshot_seq) (wal_seqs wals)) start)"

definition next_wal_seq :: "(nat, snapshot_doc) fmap \<Rightarrow> (nat, wal_record list) fmap \<Rightarrow> nat" where
  "next_wal_seq snaps wals =
     max (case last_entry wals of None \<Rightarrow> 0 | Some (sq, _) \<Rightarrow> sq)
         (case newest_snapshot snaps of None \<Rightarrow> 0 | Some doc \<Rightarrow> doc_wal_seq doc) + 1"

fun scan_dirs ::
    "crc \<Rightarrow> (string \<times> int, skeleton) fmap \<Rightarrow> (topition \<times> (int, bytes) fmap) list \<Rightarrow>
     (topition, partition_inner) fmap \<times> coord_state \<Rightarrow> error + (topition, partition_inner) fmap \<times> coord_state" where
  "scan_dirs crc sks [] (ps, c) = Inr (ps, c)"
| "scan_dirs crc sks ((tp, dir) # rest) (ps, c) =
     (case scan_partition crc tp dir (entry_or skeleton_default sks (topic tp, partition tp)) c of
        Inl err \<Rightarrow> Inl err
      | Inr (s, c') \<Rightarrow> scan_dirs crc sks rest (fmupd tp s ps, c'))"

text \<open>Partitions known to the snapshot or the WAL that have no directory.\<close>

definition skeleton_partition :: "skeleton \<Rightarrow> partition_inner" where
  "skeleton_partition sk = partition_new\<lparr>log_start := sk_log_start sk, next_offset := sk_log_start sk,
     durable_offset := sk_log_start sk, aborted := sk_aborted sk\<rparr>"

definition add_skeletons ::
    "(string \<times> int, skeleton) fmap \<Rightarrow> (topition, partition_inner) fmap \<Rightarrow> (topition, partition_inner) fmap" where
  "add_skeletons sks ps =
     fold (\<lambda>((t, p), sk) ps'. if fmlookup ps (Topition t p) = None then fmupd (Topition t p) (skeleton_partition sk) ps' else ps')
       (entries sks) ps"

definition add_topics :: "coord_state \<Rightarrow> (topition, partition_inner) fmap \<Rightarrow> (topition, partition_inner) fmap" where
  "add_topics c ps =
     fold (\<lambda>(_, m) ps. fold (\<lambda>p ps. let tp = Topition (topic_name (creatable m)) p in
            if fmlookup ps tp = None then fmupd tp partition_new ps else ps)
          [0 .. num_partitions (creatable m) - 1] ps) (entries (topics c)) ps"

text \<open>Open transactions pin the last stable offset of every partition they produced to.\<close>

definition open_details :: "coord_state \<Rightarrow> (string \<times> int \<times> int \<times> txn_detail) list" where
  "open_details c =
     concat (map (\<lambda>(tid, t). List.map_filter (\<lambda>(epoch, d).
         if txn_status d = Some Begin \<or> txn_status d = Some PrepareCommit \<or> txn_status d = Some PrepareAbort
         then Some (tid, producer t, epoch, d) else None) (entries (epochs t))) (entries (transactions c)))"

definition pin_txn ::
    "string \<times> int \<times> int \<times> txn_detail \<Rightarrow> (topition, partition_inner) fmap \<Rightarrow> (topition, partition_inner) fmap" where
  "pin_txn = (\<lambda>(tid, pid, epoch, d). fold (\<lambda>(t, p, r). adjust (Topition t p)
       (\<lambda>s. s\<lparr>open_txns := fmupd (tid, pid, epoch) (offset_start r) (open_txns s)\<rparr>)) (produced_ranges d))"

definition in_doubt :: "coord_state \<Rightarrow> (string \<times> int \<times> int \<times> bool) list" where
  "in_doubt c =
     List.map_filter (\<lambda>(tid, pid, epoch, d).
       case txn_status d of
         Some PrepareCommit \<Rightarrow> Some (tid, pid, epoch, True)
       | Some PrepareAbort \<Rightarrow> Some (tid, pid, epoch, False)
       | _ \<Rightarrow> None) (open_details c)"

record recovered =
  rec_meta :: meta_state
  rec_partitions :: "(topition, partition_inner) fmap"
  rec_wal_seq :: nat
  rec_in_doubt :: "(string \<times> int \<times> int \<times> bool) list"

definition recover :: "crc \<Rightarrow> disk \<Rightarrow> error + recovered" where
  "recover crc d =
     (let m = recover_meta (disk_snapshots d) (disk_wal_files d) in
      case scan_dirs crc (skeletons m) (entries (disk_dirs d)) (fmempty, coord m) of
        Inl err \<Rightarrow> Inl err
      | Inr (ps, c) \<Rightarrow>
          let ps1 = add_topics c (add_skeletons (skeletons m) ps);
              ps2 = fold pin_txn (open_details c) ps1
          in Inr \<lparr>rec_meta = m\<lparr>coord := c\<rparr>, rec_partitions = ps2,
                  rec_wal_seq = next_wal_seq (disk_snapshots d) (disk_wal_files d), rec_in_doubt = in_doubt c\<rparr>)"

section \<open>Opening the engine\<close>

definition seed_usage :: "(topition, partition_inner) fmap \<Rightarrow> 64 word" where
  "seed_usage ps = word_of_nat (sum_list (map (\<lambda>(_, s).
     sum_list (map (entry_len \<circ> snd) (filter (\<lambda>(_, x). \<not> entry_tiered x) (entries (batches s))))) (entries ps)))"

definition engine_of :: "disk \<Rightarrow> recovered \<Rightarrow> engine" where
  "engine_of d r = \<lparr>eng_coord = coord (rec_meta r), eng_partitions = rec_partitions r,
     eng_groups = groups (rec_meta r), eng_offsets = group_offsets (rec_meta r), eng_wal_seq = rec_wal_seq r,
     eng_wal = [], eng_wal_bytes = 0, eng_retired = disk_wal_files d, eng_snapshots = disk_snapshots d,
     eng_usage = seed_usage (rec_partitions r), eng_ticks = 0\<rparr>"

text \<open>Whether a partition already holds a marker of the producer at or after the range's start.\<close>

definition marker_present :: "int \<Rightarrow> engine \<Rightarrow> string \<times> int \<times> txn_produce_offset \<Rightarrow> bool" where
  "marker_present pid e = (\<lambda>(t, p, r).
     case partition_if_exists (Topition t p) e of
       None \<Rightarrow> False
     | Some s \<Rightarrow> list_ex (\<lambda>(_, x). entry_control x \<and> entry_producer x = pid)
         (entries (fmfilter (\<lambda>b. b \<ge> offset_start r) (batches s))))"

definition finish_txn :: "env \<Rightarrow> string \<times> int \<times> int \<times> bool \<Rightarrow> unit eop" where
  "finish_txn env = (\<lambda>(tid, pid, epoch, committed) e.
     let missing = filter (\<lambda>x. \<not> marker_present pid e x) (produced (eng_coord e) tid epoch) in
     and_then (for_each (\<lambda>(t, p, _). and_then (produce_marker env tid pid epoch committed (Topition t p)) (\<lambda>_. ok ())) missing)
       (\<lambda>_. and_then (txn_end env tid pid epoch committed) (\<lambda>_. ok ())) e)"

definition finish_boot :: "env \<Rightarrow> (string \<times> int \<times> int \<times> bool) list \<Rightarrow> unit eop" where
  "finish_boot env doubts = and_then (for_each (finish_txn env) doubts) (\<lambda>_. snapshot_now env)"

definition open_engine :: "env \<Rightarrow> disk \<Rightarrow> error + engine" where
  "open_engine env d =
     (case recover (env_crc env) d of
        Inl err \<Rightarrow> Inl err
      | Inr r \<Rightarrow>
          (case finish_boot env (rec_in_doubt r) (engine_of d r) of
             (Inl err, _) \<Rightarrow> Inl err
           | (Inr _, e) \<Rightarrow> Inr e))"

end
