(* ===== verification/Engine_Admin.thy ===== *)
theory Engine_Admin
  imports Produce_Spec
begin

text \<open>
  Topics, configuration, record deletion and credentials in \<open>tansu-storage/src/nvme/mod.rs\<close>, with the
  metadata a client reads back: \<open>create_topic\<close>, \<open>incremental_alter_resource\<close>, \<open>delete_records\<close>,
  \<open>delete_topic\<close>, the SCRAM credentials, \<open>metadata\<close> and the describe handlers.  A protocol response is
  a record of the fields the handler sets.  \<open>human_units\<close> parses of the configuration URL are
  parameters.
\<close>

section \<open>Configuration\<close>

definition strip_prefix :: "string \<Rightarrow> string \<Rightarrow> string option" where
  "strip_prefix p s = (if take (length p) s = p then Some (drop (length p) s) else None)"

definition parse_with :: "(string \<Rightarrow> 'a option) \<Rightarrow> string \<Rightarrow> string \<Rightarrow> ('a \<Rightarrow> config) \<Rightarrow> error + config" where
  "parse_with parse msg v set_field =
     (case parse v of None \<Rightarrow> Inl (Message msg) | Some x \<Rightarrow> Inr (set_field x))"

definition parse_fsync :: "(string \<Rightarrow> nat option) \<Rightarrow> string \<Rightarrow> error + fsync_mode" where
  "parse_fsync parse_duration v =
     (if v = ''always'' then Inr Always
      else (case strip_prefix ''interval:'' v of
              None \<Rightarrow> Inl (Message ''nvme fsync must be `always` or `interval:<duration>`'')
            | Some d \<Rightarrow> (case parse_duration d of None \<Rightarrow> Inl (Message ''nvme fsync interval'')
                         | Some n \<Rightarrow> Inr (Interval n))))"

definition config_pair ::
    "(string \<Rightarrow> nat option) \<Rightarrow> (string \<Rightarrow> 64 word option) \<Rightarrow> string \<Rightarrow> string \<Rightarrow> config \<Rightarrow> error + config" where
  "config_pair parse_duration parse_size k v c =
     (if k = ''fsync'' then (case parse_fsync parse_duration v of Inl err \<Rightarrow> Inl err | Inr m \<Rightarrow> Inr (c\<lparr>cfg_fsync := m\<rparr>))
      else if k = ''fetch_max_block'' then
        parse_with parse_duration ''nvme fetch_max_block'' v (\<lambda>n. c\<lparr>cfg_fetch_max_block := n\<rparr>)
      else if k = ''segment_bytes'' then parse_with parse_size ''nvme segment_bytes'' v (\<lambda>n. c\<lparr>cfg_segment_bytes := unat n\<rparr>)
      else if k = ''snapshot_wal_bytes'' then
        parse_with parse_size ''nvme snapshot_wal_bytes'' v (\<lambda>n. c\<lparr>cfg_snapshot_wal_bytes := unat n\<rparr>)
      else if k = ''tail_cache_bytes'' then
        parse_with parse_size ''nvme tail_cache_bytes'' v (\<lambda>n. c\<lparr>cfg_tail_cache_bytes := unat n\<rparr>)
      else if k = ''disk_budget'' then parse_with parse_size ''nvme disk_budget'' v (\<lambda>n. c\<lparr>cfg_disk_budget := n\<rparr>)
      else if k = ''tier'' then Inr (c\<lparr>cfg_tier := Some v\<rparr>)
      else if k = ''tier_interval'' then
        parse_with parse_duration ''nvme tier_interval'' v (\<lambda>n. c\<lparr>cfg_tier_interval := n\<rparr>)
      else if k = ''segment_age'' then
        parse_with parse_duration ''nvme segment_age'' v (\<lambda>n. c\<lparr>cfg_segment_age := n\<rparr>)
      else Inr c)"

fun config_pairs ::
    "(string \<Rightarrow> nat option) \<Rightarrow> (string \<Rightarrow> 64 word option) \<Rightarrow> (string \<times> string) list \<Rightarrow> config \<Rightarrow> error + config" where
  "config_pairs parse_duration parse_size [] c = Inr c"
| "config_pairs parse_duration parse_size ((k, v) # kvs) c =
     (case config_pair parse_duration parse_size k v c of
        Inl err \<Rightarrow> Inl err
      | Inr c' \<Rightarrow> config_pairs parse_duration parse_size kvs c')"

definition from_url ::
    "(string \<Rightarrow> nat option) \<Rightarrow> (string \<Rightarrow> 64 word option) \<Rightarrow> (string \<times> string) list \<Rightarrow> error + config" where
  "from_url parse_duration parse_size query_pairs = config_pairs parse_duration parse_size query_pairs config_default"

section \<open>Topics\<close>

definition create_topic :: "env \<Rightarrow> creatable_topic \<Rightarrow> uuid eop" where
  "create_topic env t e =
     (if fmlookup (topics (eng_coord e)) (topic_name t) \<noteq> None then (Inl (Api TopicAlreadyExists), e)
      else
        let i = env_uuid env (eng_ticks e);
            e' = e\<lparr>eng_coord := (eng_coord e)\<lparr>topics :=
                   fmupd (topic_name t) \<lparr>topic_uuid = i, creatable = t\<rparr> (topics (eng_coord e))\<rparr>\<rparr>
        in and_then (for_each (\<lambda>p. and_then (ensure_partition env (Topition (topic_name t) p)) (\<lambda>_. ok ()))
                      [0 .. num_partitions t - 1]) (\<lambda>_.
           and_then (wal_append env (TopicCreate i t)) (\<lambda>_. ok i)) e')"

datatype config_resource = GroupResource | ClientMetricResource | BrokerLoggerResource | BrokerResource
  | TopicResource | UnknownResource

definition config_resource_from :: "int \<Rightarrow> config_resource" where
  "config_resource_from v = (if v = 2 then TopicResource else if v = 4 then BrokerResource
     else if v = 8 then BrokerLoggerResource else if v = 16 then ClientMetricResource
     else if v = 32 then GroupResource else UnknownResource)"

fun config_resource_i8 :: "config_resource \<Rightarrow> int" where
  "config_resource_i8 UnknownResource = 0"
| "config_resource_i8 TopicResource = 2"
| "config_resource_i8 BrokerResource = 4"
| "config_resource_i8 BrokerLoggerResource = 8"
| "config_resource_i8 ClientMetricResource = 16"
| "config_resource_i8 GroupResource = 32"

record alter_response =
  ar_error_code :: error_code
  ar_error_message :: "string option"
  ar_resource_type :: int
  ar_resource_name :: string

definition incremental_alter_resource ::
    "env \<Rightarrow> int \<Rightarrow> string \<Rightarrow> alterable_config list option \<Rightarrow> alter_response eop" where
  "incremental_alter_resource env ty name alterations e =
     (let response = \<lparr>ar_error_code = NoError, ar_error_message = Some '''', ar_resource_type = ty,
            ar_resource_name = name\<rparr>
      in if config_resource_from ty = TopicResource then
           let changes = (case alterations of None \<Rightarrow> [] | Some cs \<Rightarrow> cs) in
           (case alter_topic name changes (eng_coord e) of
              (Inl err, c) \<Rightarrow> (Inl err, e\<lparr>eng_coord := c\<rparr>)
            | (Inr _, c) \<Rightarrow> and_then (wal_append env (ConfigAlter name changes)) (\<lambda>_. ok response) (e\<lparr>eng_coord := c\<rparr>))
         else (Inr response, e))"

section \<open>Deleting records\<close>

record delete_records_result =
  dr_partition_index :: int
  dr_low_watermark :: int
  dr_error_code :: error_code

definition delete_partition_records ::
    "env \<Rightarrow> bool \<Rightarrow> string \<Rightarrow> int \<times> int \<Rightarrow> delete_records_result eop" where
  "delete_partition_records env known t = (\<lambda>(p, offset) e.
     let refuse = (\<lambda>code. \<lparr>dr_partition_index = p, dr_low_watermark = -1, dr_error_code = code\<rparr>);
         tp = Topition t p
     in if \<not> known then (Inr (refuse UnknownTopicOrPartition), e)
        else (case partition_if_exists tp e of
          None \<Rightarrow> (Inr (refuse UnknownTopicOrPartition), e)
        | Some s \<Rightarrow>
            let target = (if offset < 0 then high_watermark s else offset) in
            if target > high_watermark s then (Inr (refuse OffsetOutOfRange), e)
            else (case advance_log_start target s of
                    None \<Rightarrow> (Inl Panic, e)
                  | Some (low, s') \<Rightarrow>
                      and_then (wal_append env (LogStartAdvance t p low))
                        (\<lambda>_. ok \<lparr>dr_partition_index = p, dr_low_watermark = low, dr_error_code = NoError\<rparr>)
                        (set_partition tp s' e))))"

fun collect :: "('a \<Rightarrow> ('s, 'b) op) \<Rightarrow> 'a list \<Rightarrow> ('s, 'b list) op" where
  "collect f [] = ok []"
| "collect f (x # xs) = and_then (f x) (\<lambda>y. and_then (collect f xs) (\<lambda>ys. ok (y # ys)))"

definition delete_records ::
    "env \<Rightarrow> (string \<times> (int \<times> int) list option) list \<Rightarrow> (string \<times> delete_records_result list) list eop" where
  "delete_records env ts e =
     (let known = fmdom (topics (eng_coord e)) in
      collect (\<lambda>(t, ps). and_then
          (collect (delete_partition_records env (t |\<in>| known) t) (case ps of None \<Rightarrow> [] | Some l \<Rightarrow> l))
          (\<lambda>results. ok (t, results))) ts e)"

definition local_bytes :: "partition_inner \<Rightarrow> 64 word" where
  "local_bytes s = word_of_nat (sum_list (map (entry_len \<circ> snd) (entries (batches s))))"

text \<open>\<open>delete_topic\<close>.  Removing a partition's directory may fail; the failure is only logged.\<close>

definition drop_topic :: "string \<Rightarrow> engine \<Rightarrow> engine" where
  "drop_topic name e =
     (let removed = filter (\<lambda>(tp, _). topic tp = name) (entries (eng_partitions e))
      in e\<lparr>eng_coord := (eng_coord e)\<lparr>topics := fmdrop name (topics (eng_coord e))\<rparr>,
           eng_partitions := fmfilter (\<lambda>tp. topic tp \<noteq> name) (eng_partitions e),
           eng_usage := fold (\<lambda>(_, s) u. u - local_bytes s) removed (eng_usage e),
           eng_offsets := fmfilter (\<lambda>(_, tp). topic tp \<noteq> name) (eng_offsets e)\<rparr>)"

definition delete_topic :: "env \<Rightarrow> topic_id \<Rightarrow> error_code eop" where
  "delete_topic env t e =
     (case find_topic (eng_coord e) t of
        None \<Rightarrow> (Inr UnknownTopicOrPartition, e)
      | Some m \<Rightarrow>
          let name = topic_name (creatable m)
          in and_then (wal_append env (TopicDelete name)) (\<lambda>_. ok NoError) (drop_topic name e))"

section \<open>Credentials\<close>

definition upsert_user_scram_credential :: "env \<Rightarrow> string \<Rightarrow> string \<Rightarrow> scram_credential \<Rightarrow> unit eop" where
  "upsert_user_scram_credential env user mechanism cr e =
     wal_append env (ScramUpsert user mechanism (salt cr) (iterations cr) (stored_key cr) (server_key cr))
       (e\<lparr>eng_coord := (eng_coord e)\<lparr>scram := fmupd (user, mechanism) cr (scram (eng_coord e))\<rparr>\<rparr>)"

definition delete_user_scram_credential :: "env \<Rightarrow> string \<Rightarrow> string \<Rightarrow> unit eop" where
  "delete_user_scram_credential env user mechanism e =
     wal_append env (ScramDelete user mechanism)
       (e\<lparr>eng_coord := (eng_coord e)\<lparr>scram := fmdrop (user, mechanism) (scram (eng_coord e))\<rparr>\<rparr>)"

definition user_scram_credential :: "string \<Rightarrow> string \<Rightarrow> engine \<Rightarrow> scram_credential option" where
  "user_scram_credential user mechanism e = fmlookup (scram (eng_coord e)) (user, mechanism)"


section \<open>Metadata\<close>

record broker_response =
  br_node :: int
  br_host :: string
  br_port :: int

definition brokers :: "env \<Rightarrow> broker_response list" where
  "brokers env = [\<lparr>br_node = env_node env, br_host = (case env_host env of None \<Rightarrow> ''0.0.0.0'' | Some h \<Rightarrow> h),
     br_port = (case env_port env of None \<Rightarrow> 9092 | Some p \<Rightarrow> p)\<rparr>]"

record partition_response =
  pr_index :: int
  pr_leader :: int
  pr_leader_epoch :: int
  pr_replicas :: "int list"
  pr_isr :: "int list"
  pr_offline :: "int list"

record topic_response =
  tr_error_code :: error_code
  tr_name :: "string option"
  tr_topic_id :: uuid
  tr_is_internal :: bool
  tr_partitions :: "partition_response list"
  tr_authorized_operations :: int

definition topic_partitions :: "env \<Rightarrow> topic_metadata \<Rightarrow> partition_response list" where
  "topic_partitions env m =
     (let replicas = replicate (nat (max (replication_factor (creatable m)) 0)) (env_node env)
      in map (\<lambda>p. \<lparr>pr_index = p, pr_leader = env_node env, pr_leader_epoch = 0, pr_replicas = replicas,
            pr_isr = replicas, pr_offline = []\<rparr>) [0 .. num_partitions (creatable m) - 1])"

definition metadata_response_topic :: "env \<Rightarrow> topic_metadata \<Rightarrow> topic_response" where
  "metadata_response_topic env m = \<lparr>tr_error_code = NoError, tr_name = Some (topic_name (creatable m)),
     tr_topic_id = topic_uuid m, tr_is_internal = False, tr_partitions = topic_partitions env m,
     tr_authorized_operations = -2147483648\<rparr>"

text \<open>\<open>NULL_TOPIC_ID\<close> is sixteen zero bytes.\<close>

definition unknown_topic_response :: "topic_id \<Rightarrow> topic_response" where
  "unknown_topic_response t = \<lparr>tr_error_code = UnknownTopicOrPartition,
     tr_name = (case t of Name n \<Rightarrow> Some n | Id _ \<Rightarrow> None),
     tr_topic_id = (case t of Name _ \<Rightarrow> 0 | Id i \<Rightarrow> i), tr_is_internal = False, tr_partitions = [],
     tr_authorized_operations = -2147483648\<rparr>"

definition topic_response_of :: "env \<Rightarrow> engine \<Rightarrow> topic_id \<Rightarrow> topic_response" where
  "topic_response_of env e t =
     (case find_topic (eng_coord e) t of
        Some m \<Rightarrow> metadata_response_topic env m
      | None \<Rightarrow> unknown_topic_response t)"

record metadata_response =
  mr_cluster :: "string option"
  mr_controller :: "int option"
  mr_brokers :: "broker_response list"
  mr_topics :: "topic_response list"

definition metadata :: "env \<Rightarrow> topic_id list option \<Rightarrow> engine \<Rightarrow> metadata_response" where
  "metadata env ts e =
     \<lparr>mr_cluster = Some (env_cluster env), mr_controller = Some (env_node env), mr_brokers = brokers env,
      mr_topics = (case ts of
          Some (t # ts') \<Rightarrow> map (topic_response_of env e) (t # ts')
        | _ \<Rightarrow> map (metadata_response_topic env \<circ> snd) (entries (topics (eng_coord e))))\<rparr>"

definition describe_topic_partitions :: "env \<Rightarrow> topic_id list option \<Rightarrow> engine \<Rightarrow> topic_response list" where
  "describe_topic_partitions env ts e =
     map (topic_response_of env e) (case ts of None \<Rightarrow> [] | Some l \<Rightarrow> l)"

record config_result =
  cr_name :: string
  cr_value :: "string option"
  cr_read_only :: bool
  cr_is_sensitive :: bool

record describe_configs_result =
  dc_resource_type :: int
  dc_resource_name :: string
  dc_configs :: "config_result list option"

definition describe_config :: "string \<Rightarrow> config_resource \<Rightarrow> engine \<Rightarrow> describe_configs_result" where
  "describe_config name resource e =
     (let base = (\<lambda>cs. \<lparr>dc_resource_type = config_resource_i8 resource, dc_resource_name = name, dc_configs = cs\<rparr>)
      in case (resource, find_topic (eng_coord e) (Name name)) of
           (TopicResource, Some m) \<Rightarrow> base (case configs (creatable m) of
               None \<Rightarrow> Some []
             | Some cs \<Rightarrow> Some (map (\<lambda>c. \<lparr>cr_name = config_name c, cr_value = config_value c,
                 cr_read_only = False, cr_is_sensitive = False\<rparr>) cs))
         | _ \<Rightarrow> base (Some []))"

end
