(* ===== verification/Durable_View.thy ===== *)
theory Durable_View
  imports Recovery Engine_Admin
begin

text \<open>
  What of the engine's state its metadata on disk determines.  The durable view erases what a boot
  rebuilds from the segments instead: idempotence sequences and the ranges of open transactions.  An
  engine is recoverable when the state that \<open>recover_meta\<close> rebuilds from its snapshots and WAL files agrees
  with it in that view.  The locale \<open>logged_update\<close> is the contract of a change of memory that is
  followed by its WAL record; it is interpreted for every record the handlers write.
\<close>

section \<open>The durable part of the coordination state\<close>

definition strip_detail :: "txn_detail \<Rightarrow> txn_detail" where
  "strip_detail d = d\<lparr>produces := fmempty\<rparr>"

definition strip_txn :: "txn \<Rightarrow> txn" where
  "strip_txn t = t\<lparr>epochs := fmmap strip_detail (epochs t)\<rparr>"

definition strip_producer :: "producer_detail \<Rightarrow> producer_detail" where
  "strip_producer pd = pd\<lparr>sequences := fmmap (\<lambda>_. fmempty) (sequences pd)\<rparr>"

definition strip_coord :: "coord_state \<Rightarrow> coord_state" where
  "strip_coord c = c\<lparr>producers := fmmap strip_producer (producers c), transactions := fmmap strip_txn (transactions c)\<rparr>"

lemma strip_coord_eq_iff:
  "strip_coord c = strip_coord c' \<longleftrightarrow>
     fmmap strip_producer (producers c) = fmmap strip_producer (producers c') \<and>
     fmmap strip_txn (transactions c) = fmmap strip_txn (transactions c') \<and>
     topics c = topics c' \<and> scram c = scram c'"
  by (cases c; cases c') (auto simp: strip_coord_def)

lemma fmmap_eqD: "fmmap f m = fmmap f m' \<Longrightarrow> map_option f (fmlookup m k) = map_option f (fmlookup m' k)"
  by (metis fmlookup_map)

lemma fmmap_eqI: "(\<And>k. map_option f (fmlookup m k) = map_option f (fmlookup m' k)) \<Longrightarrow> fmmap f m = fmmap f m'"
  by (intro fmap_ext) simp

lemma strip_txn_eqD:
  assumes "strip_txn t = strip_txn t'"
  shows "producer t = producer t'" "fmmap strip_detail (epochs t) = fmmap strip_detail (epochs t')"
  using assms by (auto simp: strip_txn_def dest: arg_cong [where f = producer] arg_cong [where f = epochs])

lemma adjust_strip:
  assumes "fmmap f m = fmmap f m'" and "\<And>x x'. f x = f x' \<Longrightarrow> f (g x) = f (g' x')"
  shows "fmmap f (adjust k g m) = fmmap f (adjust k g' m')"
proof (rule fmmap_eqI)
  fix k'
  show "map_option f (fmlookup (adjust k g m) k') = map_option f (fmlookup (adjust k g' m') k')"
    using fmmap_eqD [OF assms(1), of k] fmmap_eqD [OF assms(1), of k'] assms(2)
    by (cases "fmlookup m k"; cases "fmlookup m' k") auto
qed

text \<open>An update of a transaction that respects the stripped view, on both sides.\<close>

lemma strip_update_txn:
  assumes "strip_coord c = strip_coord c'" and "\<And>d d'. strip_detail d = strip_detail d' \<Longrightarrow> strip_detail (f d) = strip_detail (f' d')"
  shows "strip_coord (update_txn_detail tid e f c) = strip_coord (update_txn_detail tid e f' c')"
proof -
  have "strip_txn (t\<lparr>epochs := adjust e f (epochs t)\<rparr>) = strip_txn (t'\<lparr>epochs := adjust e f' (epochs t')\<rparr>)"
    if "strip_txn t = strip_txn t'" for t t'
    using strip_txn_eqD [OF that] adjust_strip [of strip_detail "epochs t" "epochs t'" f f' e] assms(2)
    by (simp add: strip_txn_def)
  then show ?thesis
    using assms(1) unfolding strip_coord_eq_iff update_txn_detail_def by (auto intro!: adjust_strip)
qed

lemma strip_update_same:
  assumes "\<And>d. strip_detail (f d) = strip_detail d"
  shows "strip_coord (update_txn_detail tid e f c) = strip_coord c"
proof -
  have a: "fmmap h (adjust k g m) = fmmap h m" if "\<And>x. h (g x) = h x" for h k g and m
    using that by (intro fmmap_eqI) (auto simp: option.map_comp comp_def)
  have "strip_txn (t\<lparr>epochs := adjust e f (epochs t)\<rparr>) = strip_txn t" for t
    using a [of strip_detail f e "epochs t"] assms by (simp add: strip_txn_def)
  then show ?thesis
    by (simp add: strip_coord_eq_iff update_txn_detail_def a)
qed


section \<open>The views of partitions\<close>

definition skel_view :: "skeleton \<Rightarrow> int \<times> aborted_range list" where
  "skel_view sk = (sk_log_start sk, filter (\<lambda>r. aborted_end r \<ge> sk_log_start sk) (sk_aborted sk))"

definition part_view :: "partition_inner \<Rightarrow> int \<times> aborted_range list" where
  "part_view s = (log_start s, filter (\<lambda>r. aborted_end r \<ge> log_start s) (aborted s))"

abbreviation skel_at :: "meta_state \<Rightarrow> topition \<Rightarrow> skeleton" where
  "skel_at m tp \<equiv> entry_or skeleton_default (skeletons m) (topic tp, partition tp)"

definition parts_agree :: "meta_state \<Rightarrow> engine \<Rightarrow> bool" where
  "parts_agree m e \<longleftrightarrow> (\<forall>tp. skel_view (skel_at m tp) = part_view (part_at e tp))"

text \<open>A recovered state agrees with a live engine: the same durable coordination state, groups,
  committed offsets, log starts and aborted ranges.\<close>

definition agrees :: "meta_state \<Rightarrow> engine \<Rightarrow> bool" where
  "agrees m e \<longleftrightarrow> strip_coord (coord m) = strip_coord (eng_coord e) \<and> groups m = eng_groups e
     \<and> group_offsets m = eng_offsets e \<and> parts_agree m e"

section \<open>The disk\<close>

definition wal_order :: "engine \<Rightarrow> bool" where
  "wal_order e \<longleftrightarrow> (\<forall>sq \<in> fmdom' (eng_retired e). sq < eng_wal_seq e)
     \<and> fmpred (\<lambda>sq doc. doc_wal_seq doc = sq \<and> sq < eng_wal_seq e) (eng_snapshots e) \<and> 0 < eng_wal_seq e"

definition disk_meta :: "engine \<Rightarrow> meta_state" where
  "disk_meta e = recover_meta (eng_snapshots e) (disk_wals e)"

definition snapshot_seq :: "engine \<Rightarrow> nat" where
  "snapshot_seq e = (case newest_snapshot (eng_snapshots e) of None \<Rightarrow> 0 | Some doc \<Rightarrow> doc_wal_seq doc)"

definition snapshot_meta :: "engine \<Rightarrow> meta_state" where
  "snapshot_meta e = (case newest_snapshot (eng_snapshots e) of None \<Rightarrow> meta_default | Some doc \<Rightarrow> meta_of_doc doc)"

definition replay_files :: "(nat, wal_record list) fmap \<Rightarrow> nat list \<Rightarrow> meta_state \<Rightarrow> meta_state" where
  "replay_files wals sqs = fold (\<lambda>sq. apply_records (entry_or [] wals sq)) sqs"

lemma snapshot_seq_less: "wal_order e \<Longrightarrow> snapshot_seq e < eng_wal_seq e"
  by (auto simp: wal_order_def snapshot_seq_def newest_snapshot_def last_entry_Some fmpred_iff
      split: option.splits)

lemma replay_files_cong:
  "(\<And>sq. sq \<in> set sqs \<Longrightarrow> fmlookup wals sq = fmlookup wals' sq) \<Longrightarrow> replay_files wals sqs m = replay_files wals' sqs m"
  unfolding replay_files_def by (rule fold_cong) (auto simp: entry_or_def)

lemma disk_meta_alt:
  assumes "wal_order e"
  shows "disk_meta e = apply_records (eng_wal e)
    (replay_files (eng_retired e) (filter (\<lambda>sq. sq > snapshot_seq e) (wal_seqs (eng_retired e))) (snapshot_meta e))"
proof -
  have "entries (disk_wals e) = entries (eng_retired e) @ [(eng_wal_seq e, eng_wal e)]"
    unfolding disk_wals_def using assms by (intro entries_snoc) (auto simp: wal_order_def)
  then have sqs: "wal_seqs (disk_wals e) = wal_seqs (eng_retired e) @ [eng_wal_seq e]"
    by (simp add: wal_seqs_def)
  have "replay_files (disk_wals e) (filter (\<lambda>sq. sq > snapshot_seq e) (wal_seqs (eng_retired e))) m =
      replay_files (eng_retired e) (filter (\<lambda>sq. sq > snapshot_seq e) (wal_seqs (eng_retired e))) m" for m
    using assms by (intro replay_files_cong) (auto simp: disk_wals_def wal_seqs_def wal_order_def)
  then show ?thesis
    using snapshot_seq_less [OF assms] sqs
    by (simp add: disk_meta_def recover_meta_def Let_def snapshot_seq_def [symmetric] snapshot_meta_def [symmetric]
        replay_files_def [symmetric]) (simp add: replay_files_def disk_wals_def)
qed

text \<open>The part of the engine that is on disk as metadata.\<close>

definition disk_part :: "engine \<Rightarrow> nat \<times> wal_record list \<times> (nat, wal_record list) fmap \<times> (nat, snapshot_doc) fmap" where
  "disk_part e = (eng_wal_seq e, eng_wal e, eng_retired e, eng_snapshots e)"

lemma disk_part_meta: "disk_part e' = disk_part e \<Longrightarrow> disk_meta e' = disk_meta e \<and> wal_order e' = wal_order e"
  by (simp add: disk_part_def disk_meta_def disk_wals_def wal_order_def)

lemma disk_part_simps [simp]:
  "disk_part (tick e) = disk_part e"
  "disk_part (set_partition tp s e) = disk_part e"
  "disk_part (e\<lparr>eng_coord := c\<rparr>) = disk_part e"
  "disk_part (e\<lparr>eng_partitions := ps\<rparr>) = disk_part e"
  "disk_part (e\<lparr>eng_groups := gs\<rparr>) = disk_part e"
  "disk_part (e\<lparr>eng_offsets := os\<rparr>) = disk_part e"
  "disk_part (e\<lparr>eng_usage := u\<rparr>) = disk_part e"
  "disk_part (e\<lparr>eng_ticks := n\<rparr>) = disk_part e"
  by (simp_all add: disk_part_def tick_def set_partition_def)

lemma log_record_fields [simp]:
  "eng_coord (log_record env r e) = eng_coord e"
  "eng_partitions (log_record env r e) = eng_partitions e"
  "eng_groups (log_record env r e) = eng_groups e"
  "eng_offsets (log_record env r e) = eng_offsets e"
  "eng_wal (log_record env r e) = eng_wal e @ [r]"
  "eng_wal_seq (log_record env r e) = eng_wal_seq e"
  "eng_retired (log_record env r e) = eng_retired e"
  "eng_snapshots (log_record env r e) = eng_snapshots e"
  by (simp_all add: log_record_def)

lemma wal_order_log [simp]: "wal_order (log_record env r e) = wal_order e"
  by (simp add: wal_order_def)

text \<open>A record appended to the WAL is the last one a boot replays.\<close>

lemma disk_meta_log:
  assumes "wal_order e"
  shows "disk_meta (log_record env r e) = apply_record r (disk_meta e)"
  using assms by (simp add: disk_meta_alt snapshot_seq_def snapshot_meta_def apply_records_def)

section \<open>The recoverable engine\<close>

text \<open>The ranges of every transaction lie on partitions that exist, and topics are filed under their names.\<close>

definition live :: "engine \<Rightarrow> bool" where
  "live e \<longleftrightarrow> topics_named (eng_coord e) \<and>
     (\<forall>tid epoch d t p r. txn_detail_of (eng_coord e) tid epoch = Some d \<and> (t, p, r) \<in> set (produced_ranges d) \<longrightarrow>
        fmlookup (eng_partitions e) (Topition t p) \<noteq> None)"

lemma liveI:
  assumes "topics_named (eng_coord e)"
    and "\<And>tid epoch d t p r. txn_detail_of (eng_coord e) tid epoch = Some d \<Longrightarrow>
      (t, p, r) \<in> set (produced_ranges d) \<Longrightarrow> fmlookup (eng_partitions e) (Topition t p) \<noteq> None"
  shows "live e"
  unfolding live_def using assms by blast

lemma liveD:
  "live e \<Longrightarrow> txn_detail_of (eng_coord e) tid epoch = Some d \<Longrightarrow> (t, p, r) \<in> set (produced_ranges d) \<Longrightarrow>
   fmlookup (eng_partitions e) (Topition t p) \<noteq> None"
  unfolding live_def by blast

lemma live_named: "live e \<Longrightarrow> topics_named (eng_coord e)"
  by (simp add: live_def)

definition recoverable :: "engine \<Rightarrow> bool" where
  "recoverable e \<longleftrightarrow> wal_order e \<and> live e \<and> agrees (disk_meta e) e"

lemma agrees_log [simp]: "agrees m (log_record env r e) = agrees m e"
  by (simp add: agrees_def parts_agree_def)

lemma live_log [simp]: "live (log_record env r e) = live e"
  by (simp add: live_def)

lemma agrees_tick [simp]: "agrees m (tick e) = agrees m e"
  by (simp add: agrees_def parts_agree_def)

lemma live_tick [simp]: "live (tick e) = live e"
  by (simp add: live_def)

lemma recoverable_tick [simp]: "recoverable (tick e) = recoverable e"
  using disk_part_meta [of "tick e" e] by (simp add: recoverable_def)

text \<open>A change of memory with its record: the contract of a logged operation.\<close>

locale logged_update =
  fixes guard :: "engine \<Rightarrow> bool" and update :: "engine \<Rightarrow> engine" and rec :: wal_record
  assumes memory: "disk_part (update e) = disk_part e"
    and keeps_live: "guard e \<Longrightarrow> live e \<Longrightarrow> live (update e)"
    and simulates: "guard e \<Longrightarrow> live e \<Longrightarrow> agrees m e \<Longrightarrow> agrees (apply_record rec m) (update e)"
begin

lemma tick_logged:
  assumes "recoverable e" and "guard e"
  shows "recoverable (log_record env rec (tick (update e)))"
proof -
  have "wal_order (tick (update e))" "disk_meta (tick (update e)) = disk_meta e"
    using assms(1) disk_part_meta [of "tick (update e)" e] memory [of e] by (simp_all add: recoverable_def)
  then show ?thesis
    using assms keeps_live simulates by (simp add: recoverable_def disk_meta_log)
qed

lemma appended:
  assumes "recoverable e" and "guard e" and "wal_append env rec (update e) = (Inr u, e')"
  shows "recoverable e'"
  using assms(3) tick_logged [OF assms(1,2)] by (auto simp: wal_append_def split: io_outcome.splits)

end

lemma wal_append_ok: "wal_append env r e = (Inr u, e') \<Longrightarrow> e' = log_record env r (tick e)"
  by (auto simp: wal_append_def split: io_outcome.splits)

section \<open>The operations on the coordination state\<close>

lemma live_coord:
  "live e \<Longrightarrow> transactions c = transactions (eng_coord e) \<Longrightarrow> topics_named c \<Longrightarrow> live (e\<lparr>eng_coord := c\<rparr>)"
  by (auto simp: live_def txn_detail_of_def)

lemma live_coord_named:
  "live e \<Longrightarrow> transactions c = transactions (eng_coord e) \<Longrightarrow> (topics_named (eng_coord e) \<Longrightarrow> topics_named c) \<Longrightarrow>
   live (e\<lparr>eng_coord := c\<rparr>)"
  by (simp add: live_coord live_named)

lemma live_update_txn:
  assumes "live e" and "\<And>d x. x \<in> set (produced_ranges (f d)) \<Longrightarrow> x \<in> set (produced_ranges d)"
  shows "live (e\<lparr>eng_coord := update_txn_detail tid epoch f (eng_coord e)\<rparr>)"
proof (rule liveI)
  show "topics_named (eng_coord (e\<lparr>eng_coord := update_txn_detail tid epoch f (eng_coord e)\<rparr>))"
    using live_named [OF assms(1)] by (simp add: topics_named_def update_txn_detail_def)
next
  fix tid' epoch' d t p r
  assume d: "txn_detail_of (eng_coord (e\<lparr>eng_coord := update_txn_detail tid epoch f (eng_coord e)\<rparr>)) tid' epoch' = Some d"
    and x: "(t, p, r) \<in> set (produced_ranges d)"
  obtain d' where d': "txn_detail_of (eng_coord e) tid' epoch' = Some d'" "d = f d' \<or> d = d'"
    using d by (auto split: if_splits)
  then have "(t, p, r) \<in> set (produced_ranges d')" using assms(2) x by blast
  then show "fmlookup (eng_partitions (e\<lparr>eng_coord := update_txn_detail tid epoch f (eng_coord e)\<rparr>)) (Topition t p) \<noteq> None"
    using liveD [OF assms(1) d'(1)] by simp
qed

lemma agrees_coord:
  "agrees m e \<Longrightarrow> strip_coord c = strip_coord c' \<Longrightarrow> agrees (m\<lparr>coord := c\<rparr>) (e\<lparr>eng_coord := c'\<rparr>)"
  by (simp add: agrees_def parts_agree_def)

lemma agreesD:
  assumes "agrees m e"
  shows "strip_coord (coord m) = strip_coord (eng_coord e)" "groups m = eng_groups e"
    "group_offsets m = eng_offsets e" "parts_agree m e"
    "topics (coord m) = topics (eng_coord e)" "scram (coord m) = scram (eng_coord e)"
    "fmmap strip_producer (producers (coord m)) = fmmap strip_producer (producers (eng_coord e))"
    "fmmap strip_txn (transactions (coord m)) = fmmap strip_txn (transactions (eng_coord e))"
  using assms by (simp_all add: agrees_def strip_coord_eq_iff)

text \<open>A transaction the engine has is found by the replay too.\<close>

lemma agrees_with_txn_of:
  assumes "agrees m e" and "fmlookup (transactions (eng_coord e)) tid = Some t" "producer t = pid"
    and "\<And>d d'. strip_detail d = strip_detail d' \<Longrightarrow> strip_detail (f d) = strip_detail (f' d')"
  shows "agrees (with_txn tid pid epoch f m) (e\<lparr>eng_coord := update_txn_detail tid epoch f' (eng_coord e)\<rparr>)"
proof -
  obtain t' where "fmlookup (transactions (coord m)) tid = Some t'" "strip_txn t' = strip_txn t"
    using fmmap_eqD [OF agreesD(8) [OF assms(1)], of tid] assms(2) by (cases "fmlookup (transactions (coord m)) tid") auto
  then have "with_txn tid pid epoch f m = m\<lparr>coord := update_txn_detail tid epoch f (coord m)\<rparr>"
    using assms(3) strip_txn_eqD(1) [of t' t] by (simp add: with_txn_def)
  then show ?thesis
    using assms(1,4) agreesD(1) [OF assms(1)] by (simp add: agrees_coord strip_update_txn)
qed

lemma agrees_with_txn:
  assumes "agrees m e" and "txn_detail_mut (eng_coord e) tid pid epoch = Inr d"
    and "\<And>d d'. strip_detail d = strip_detail d' \<Longrightarrow> strip_detail (f d) = strip_detail (f' d')"
  shows "agrees (with_txn tid pid epoch f m) (e\<lparr>eng_coord := update_txn_detail tid epoch f' (eng_coord e)\<rparr>)"
  using assms(2) agrees_with_txn_of [OF assms(1) _ _ assms(3)] by (auto simp: txn_detail_mut_Inr)

text \<open>Topics.\<close>

abbreviation file_topic :: "uuid \<Rightarrow> creatable_topic \<Rightarrow> engine \<Rightarrow> engine" where
  "file_topic i t e \<equiv> e\<lparr>eng_coord := (eng_coord e)\<lparr>topics :=
     fmupd (topic_name t) \<lparr>topic_uuid = i, creatable = t\<rparr> (topics (eng_coord e))\<rparr>\<rparr>"

interpretation topic_create: logged_update "\<lambda>e. True" "file_topic i t" "TopicCreate i t" for i t
proof
  fix e m
  show "disk_part (file_topic i t e) = disk_part e" by simp
  show "live e \<Longrightarrow> live (file_topic i t e)"
    by (rule live_coord_named) (auto simp: topics_named_def)
  show "agrees (apply_record (TopicCreate i t) m) (file_topic i t e)" if "agrees m e"
    using agreesD [OF that] that by (simp add: agrees_coord strip_coord_eq_iff)
qed

abbreviation alter_configuration :: "string \<Rightarrow> alterable_config list \<Rightarrow> engine \<Rightarrow> engine" where
  "alter_configuration name changes e \<equiv> e\<lparr>eng_coord := snd (alter_topic name changes (eng_coord e))\<rparr>"

lemma alter_topic_fields [simp]:
  "producers (snd (alter_topic name changes c)) = producers c"
  "transactions (snd (alter_topic name changes c)) = transactions c"
  "scram (snd (alter_topic name changes c)) = scram c"
  by (simp_all add: alter_topic_def split: option.splits sum.splits)

interpretation config_alter: logged_update "\<lambda>e. True" "alter_configuration name changes" "ConfigAlter name changes"
  for name changes
proof
  fix e m
  show "disk_part (alter_configuration name changes e) = disk_part e" by simp
  show "live e \<Longrightarrow> live (alter_configuration name changes e)"
    by (rule live_coord_named) (auto simp: topics_named_def alter_topic_def split: option.splits sum.splits)
  show "agrees (apply_record (ConfigAlter name changes) m) (alter_configuration name changes e)" if "agrees m e"
  proof -
    have "topics (snd (alter_topic name changes (coord m))) = topics (snd (alter_topic name changes (eng_coord e)))"
      using agreesD(5) [OF that] by (simp add: alter_topic_def split: option.splits sum.splits)
    then show ?thesis
      using agreesD [OF that] that by (simp add: agrees_coord strip_coord_eq_iff)
  qed
qed

text \<open>Credentials.\<close>

abbreviation put_scram :: "string \<Rightarrow> string \<Rightarrow> scram_credential \<Rightarrow> engine \<Rightarrow> engine" where
  "put_scram user mechanism cr e \<equiv>
     e\<lparr>eng_coord := (eng_coord e)\<lparr>scram := fmupd (user, mechanism) cr (scram (eng_coord e))\<rparr>\<rparr>"

abbreviation drop_scram :: "string \<Rightarrow> string \<Rightarrow> engine \<Rightarrow> engine" where
  "drop_scram user mechanism e \<equiv>
     e\<lparr>eng_coord := (eng_coord e)\<lparr>scram := fmdrop (user, mechanism) (scram (eng_coord e))\<rparr>\<rparr>"

interpretation scram_upsert: logged_update "\<lambda>e. True" "put_scram user mechanism cr"
    "ScramUpsert user mechanism (salt cr) (iterations cr) (stored_key cr) (server_key cr)" for user mechanism cr
proof
  fix e m
  show "disk_part (put_scram user mechanism cr e) = disk_part e" by simp
  show "live e \<Longrightarrow> live (put_scram user mechanism cr e)"
    by (rule live_coord_named) (auto simp: topics_named_def)
  show "agrees (apply_record (ScramUpsert user mechanism (salt cr) (iterations cr) (stored_key cr)
      (server_key cr)) m) (put_scram user mechanism cr e)" if "agrees m e"
    using agreesD [OF that] that by (cases cr) (simp add: agrees_coord strip_coord_eq_iff)
qed

interpretation scram_delete: logged_update "\<lambda>e. True" "drop_scram user mechanism" "ScramDelete user mechanism"
  for user mechanism
proof
  fix e m
  show "disk_part (drop_scram user mechanism e) = disk_part e" by simp
  show "live e \<Longrightarrow> live (drop_scram user mechanism e)"
    by (rule live_coord_named) (auto simp: topics_named_def)
  show "agrees (apply_record (ScramDelete user mechanism) m) (drop_scram user mechanism e)" if "agrees m e"
    using agreesD [OF that] that by (simp add: agrees_coord strip_coord_eq_iff)
qed

text \<open>Transactions: joining, offsets, preparing.\<close>

abbreviation with_detail :: "string \<Rightarrow> int \<Rightarrow> (txn_detail \<Rightarrow> txn_detail) \<Rightarrow> engine \<Rightarrow> engine" where
  "with_detail tid epoch f e \<equiv> e\<lparr>eng_coord := update_txn_detail tid epoch f (eng_coord e)\<rparr>"

abbreviation accepted_txn :: "string \<Rightarrow> int \<Rightarrow> int \<Rightarrow> engine \<Rightarrow> bool" where
  "accepted_txn tid pid epoch e \<equiv> \<exists>d. txn_detail_mut (eng_coord e) tid pid epoch = Inr d"

lemma strip_detail_eq_iff:
  "strip_detail d = strip_detail d' \<longleftrightarrow> transaction_timeout_ms d = transaction_timeout_ms d' \<and>
     started_at d = started_at d' \<and> txn_status d = txn_status d' \<and> txn_offsets d = txn_offsets d'"
  by (cases d; cases d') (auto simp: strip_detail_def)

interpretation txn_begin: logged_update "accepted_txn tid pid epoch" "with_detail tid epoch (begin_detail now ps)"
    "TxnBegin tid pid epoch now ps" for tid pid epoch now ps
proof
  fix e m
  show "disk_part (with_detail tid epoch (begin_detail now ps) e) = disk_part e" by simp
  show "live e \<Longrightarrow> live (with_detail tid epoch (begin_detail now ps) e)"
    by (rule live_update_txn) (auto simp: begin_detail_def Let_def lookup2_fold_touch split: option.splits if_splits)
  show "accepted_txn tid pid epoch e \<Longrightarrow> agrees m e \<Longrightarrow>
      agrees (apply_record (TxnBegin tid pid epoch now ps) m) (with_detail tid epoch (begin_detail now ps) e)"
    unfolding apply_record.simps
    by (elim exE, rule agrees_with_txn) (auto simp: strip_detail_eq_iff apply_txn_begin_def begin_detail_def Let_def)
qed

interpretation txn_prepared: logged_update "accepted_txn tid pid epoch"
    "with_detail tid epoch (\<lambda>d. d\<lparr>txn_status := Some (prepare_state committed)\<rparr>)"
    "TxnPrepare tid pid epoch committed ranges" for tid pid epoch committed ranges
proof
  fix e m
  let ?u = "with_detail tid epoch (\<lambda>d. d\<lparr>txn_status := Some (prepare_state committed)\<rparr>)"
  show "disk_part (?u e) = disk_part e" by simp
  show "live e \<Longrightarrow> live (?u e)"
    by (rule live_update_txn) auto
  show "accepted_txn tid pid epoch e \<Longrightarrow> agrees m e \<Longrightarrow>
      agrees (apply_record (TxnPrepare tid pid epoch committed ranges) m) (?u e)"
    unfolding apply_record.simps
    by (elim exE, rule agrees_with_txn) (auto simp: strip_detail_eq_iff apply_txn_prepare_def prepare_state_def)
qed

interpretation txn_joined: logged_update "accepted_txn tid pid epoch"
    "with_detail tid epoch (\<lambda>d. d\<lparr>txn_offsets := fold (insert_txn_offset g) rows (txn_offsets d)\<rparr>)"
    "TxnOffsets tid pid epoch g rows" for tid pid epoch g rows
proof
  fix e m
  let ?u = "with_detail tid epoch (\<lambda>d. d\<lparr>txn_offsets := fold (insert_txn_offset g) rows (txn_offsets d)\<rparr>)"
  show "disk_part (?u e) = disk_part e" by simp
  show "live e \<Longrightarrow> live (?u e)"
    by (rule live_update_txn) auto
  show "accepted_txn tid pid epoch e \<Longrightarrow> agrees m e \<Longrightarrow>
      agrees (apply_record (TxnOffsets tid pid epoch g rows) m) (?u e)"
    unfolding apply_record.simps by (elim exE, rule agrees_with_txn) (auto simp: strip_detail_eq_iff)
qed

text \<open>Producers: a fresh identifier, and the fencing of an older instance.\<close>

lemma strip_pid_alloc:
  assumes "strip_coord c = strip_coord c'"
  shows "strip_coord (apply_pid_alloc pid tid timeout c) = strip_coord (apply_pid_alloc pid tid timeout c')"
  using assms by (cases tid) (simp_all add: strip_coord_eq_iff apply_pid_alloc_def fmmap_fmupd)

lemma strip_sequences:
  "strip_producer d = strip_producer d' \<Longrightarrow>
   strip_producer (d\<lparr>sequences := fmupd epoch v (sequences d)\<rparr>) = strip_producer (d'\<lparr>sequences := fmupd epoch v (sequences d')\<rparr>)"
  by (cases d; cases d') (simp add: strip_producer_def fmmap_fmupd)

lemma strip_epochs:
  "strip_txn t = strip_txn t' \<Longrightarrow>
   strip_txn (t\<lparr>epochs := fmupd epoch v (epochs t)\<rparr>) = strip_txn (t'\<lparr>epochs := fmupd epoch v (epochs t')\<rparr>)"
  by (cases t; cases t') (simp add: strip_txn_def fmmap_fmupd)

lemma strip_epoch_bump:
  assumes "strip_coord c = strip_coord c'"
  shows "strip_coord (apply_epoch_bump tid pid epoch timeout c) = strip_coord (apply_epoch_bump tid pid epoch timeout c')"
proof -
  let ?p = "\<lambda>d. d\<lparr>sequences := fmupd epoch fmempty (sequences d)\<rparr>"
  let ?t = "\<lambda>t. t\<lparr>epochs := fmupd epoch (txn_detail_default\<lparr>transaction_timeout_ms := timeout\<rparr>) (epochs t)\<rparr>"
  have c: "fmmap strip_producer (producers c) = fmmap strip_producer (producers c')"
    "fmmap strip_txn (transactions c) = fmmap strip_txn (transactions c')" "topics c = topics c'" "scram c = scram c'"
    using assms by (simp_all add: strip_coord_eq_iff)
  have "fmmap strip_producer (adjust pid ?p (producers c)) = fmmap strip_producer (adjust pid ?p (producers c'))"
    by (rule adjust_strip [OF c(1)]) (rule strip_sequences)
  moreover have "fmmap strip_txn (adjust tid ?t (transactions c)) = fmmap strip_txn (adjust tid ?t (transactions c'))"
    by (rule adjust_strip [OF c(2)]) (rule strip_epochs)
  ultimately show ?thesis
    using c unfolding strip_coord_eq_iff apply_epoch_bump_def by simp
qed

lemma live_fresh:
  assumes "live e" and "topics c = topics (eng_coord e)"
    and "\<And>tid epoch. txn_detail_of c tid epoch = txn_detail_of (eng_coord e) tid epoch \<or>
      (\<forall>d. txn_detail_of c tid epoch = Some d \<longrightarrow> produces d = fmempty)"
  shows "live (e\<lparr>eng_coord := c\<rparr>)"
proof (rule liveI)
  show "topics_named (eng_coord (e\<lparr>eng_coord := c\<rparr>))"
    using live_named [OF assms(1)] assms(2) by (simp add: topics_named_def)
next
  fix tid epoch d t p r
  assume d: "txn_detail_of (eng_coord (e\<lparr>eng_coord := c\<rparr>)) tid epoch = Some d"
    and x: "(t, p, r) \<in> set (produced_ranges d)"
  have "produces d \<noteq> fmempty" using x by auto
  then have "txn_detail_of (eng_coord e) tid epoch = Some d" using assms(3) [of tid epoch] d by auto
  then show "fmlookup (eng_partitions (e\<lparr>eng_coord := c\<rparr>)) (Topition t p) \<noteq> None"
    using liveD [OF assms(1) _ x] by simp
qed

lemma txn_detail_of_alloc:
  "txn_detail_of (apply_pid_alloc pid tid timeout c) tid' epoch =
     (if tid = Some tid' then if epoch = 0 then Some (txn_detail_default\<lparr>transaction_timeout_ms := timeout\<rparr>) else None
      else txn_detail_of c tid' epoch)"
  "topics (apply_pid_alloc pid tid timeout c) = topics c"
  by (cases tid; simp add: apply_pid_alloc_def txn_detail_of_def)+

lemma txn_detail_of_bump:
  "txn_detail_of (apply_epoch_bump tid pid epoch timeout c) tid' epoch' =
     (if tid = tid' \<and> epoch = epoch' \<and> fmlookup (transactions c) tid \<noteq> None
      then Some (txn_detail_default\<lparr>transaction_timeout_ms := timeout\<rparr>) else txn_detail_of c tid' epoch')"
  "topics (apply_epoch_bump tid pid epoch timeout c) = topics c"
  by (auto simp: apply_epoch_bump_def txn_detail_of_def split: option.split)

abbreviation allocate :: "int \<Rightarrow> string option \<Rightarrow> int \<Rightarrow> engine \<Rightarrow> engine" where
  "allocate pid tid timeout e \<equiv> e\<lparr>eng_coord := apply_pid_alloc pid tid timeout (eng_coord e)\<rparr>"

abbreviation bump :: "string \<Rightarrow> int \<Rightarrow> int \<Rightarrow> int \<Rightarrow> engine \<Rightarrow> engine" where
  "bump tid pid epoch timeout e \<equiv> e\<lparr>eng_coord := apply_epoch_bump tid pid epoch timeout (eng_coord e)\<rparr>"

interpretation pid_alloc: logged_update "\<lambda>e. True" "allocate pid tid timeout" "PidAlloc pid tid timeout"
  for pid tid timeout
proof
  fix e m
  show "disk_part (allocate pid tid timeout e) = disk_part e" by simp
  show "live e \<Longrightarrow> live (allocate pid tid timeout e)"
    by (erule live_fresh) (simp_all add: txn_detail_of_alloc txn_detail_default_def)
  show "agrees (apply_record (PidAlloc pid tid timeout) m) (allocate pid tid timeout e)" if a: "agrees m e"
    using agrees_coord [OF a strip_pid_alloc [OF agreesD(1) [OF a]]] by simp
qed

interpretation epoch_bump: logged_update "\<lambda>e. True" "bump tid pid epoch timeout" "EpochBump tid pid epoch timeout"
  for tid pid epoch timeout
proof
  fix e m
  show "disk_part (bump tid pid epoch timeout e) = disk_part e" by simp
  show "live e \<Longrightarrow> live (bump tid pid epoch timeout e)"
    by (erule live_fresh) (simp_all add: txn_detail_of_bump txn_detail_default_def)
  show "agrees (apply_record (EpochBump tid pid epoch timeout) m) (bump tid pid epoch timeout e)" if a: "agrees m e"
    using agrees_coord [OF a strip_epoch_bump [OF agreesD(1) [OF a]]] by simp
qed

section \<open>The operations on groups\<close>

lemma live_memory [simp]:
  "live (e\<lparr>eng_groups := gs\<rparr>) = live e" "live (e\<lparr>eng_offsets := os\<rparr>) = live e"
  "live (e\<lparr>eng_usage := u\<rparr>) = live e" "live (e\<lparr>eng_ticks := n\<rparr>) = live e"
  by (simp_all add: live_def)

lemma parts_agree_memory [simp]:
  "parts_agree (m\<lparr>group_offsets := os\<rparr>) e = parts_agree m e"
  "parts_agree (m\<lparr>groups := gs\<rparr>) e = parts_agree m e"
  "parts_agree (m\<lparr>coord := c\<rparr>) e = parts_agree m e"
  "parts_agree m (e\<lparr>eng_groups := gs\<rparr>) = parts_agree m e"
  "parts_agree m (e\<lparr>eng_offsets := os\<rparr>) = parts_agree m e"
  "parts_agree m (e\<lparr>eng_usage := u\<rparr>) = parts_agree m e"
  "parts_agree m (e\<lparr>eng_coord := c'\<rparr>) = parts_agree m e"
  by (simp_all add: parts_agree_def)

abbreviation commit_rows :: "string \<Rightarrow> (topition \<times> offset_commit_request) list \<Rightarrow> engine \<Rightarrow> engine" where
  "commit_rows g rows e \<equiv> e\<lparr>eng_offsets := fold (\<lambda>(tp, oc). fmupd (g, tp) oc) rows (eng_offsets e)\<rparr>"

lemma fold_insert_group_offset:
  "fold (insert_group_offset g) (map (\<lambda>(tp, oc). (topic tp, partition tp, oc)) rows) os =
     fold (\<lambda>(tp, oc). fmupd (g, tp) oc) rows os"
  by (induction rows arbitrary: os) (auto simp: insert_group_offset_def)

interpretation group_commit: logged_update "\<lambda>e. True" "commit_rows g rows"
    "GroupOffsetCommit g (map (\<lambda>(tp, oc). (topic tp, partition tp, oc)) rows)" for g rows
  by unfold_locales (auto simp: agrees_def fold_insert_group_offset)

abbreviation put_group :: "string \<Rightarrow> group_detail \<Rightarrow> version \<Rightarrow> engine \<Rightarrow> engine" where
  "put_group g detail ver e \<equiv> e\<lparr>eng_groups := fmupd g (detail, ver) (eng_groups e)\<rparr>"

interpretation group_update: logged_update "\<lambda>e. True" "put_group g detail ver" "GroupUpdate g detail ver"
  for g detail ver
  by unfold_locales (auto simp: agrees_def)

abbreviation forget_group :: "string \<Rightarrow> engine \<Rightarrow> engine" where
  "forget_group g e \<equiv> e\<lparr>eng_groups := fmdrop g (eng_groups e),
     eng_offsets := fmfilter (\<lambda>(g', _). g' \<noteq> g) (eng_offsets e)\<rparr>"

interpretation group_delete: logged_update "\<lambda>e. True" "forget_group g" "GroupDelete g" for g
  by unfold_locales (auto simp: agrees_def)

section \<open>The operations on partitions\<close>

lemma advance_log_start_view:
  assumes "advance_log_start target s = Some (low, s')" and "skel_view sk = part_view s"
  shows "skel_view (sk\<lparr>sk_log_start := low\<rparr>) = part_view s'"
proof -
  have low: "log_start s \<le> low" "log_start s' = low"
    "aborted s' = filter (\<lambda>r. aborted_end r \<ge> low) (aborted s)"
    using assms(1) by (auto simp: advance_log_start_def Let_def split: if_splits)
  have view: "filter (\<lambda>r. aborted_end r \<ge> log_start s) (sk_aborted sk) = filter (\<lambda>r. aborted_end r \<ge> log_start s) (aborted s)"
    using assms(2) by (auto simp: skel_view_def part_view_def)
  have "filter (\<lambda>r. aborted_end r \<ge> low) xs = filter (\<lambda>r. aborted_end r \<ge> low) (filter (\<lambda>r. aborted_end r \<ge> log_start s) xs)" for xs
    using low(1) by (auto intro: filter_cong)
  then have "filter (\<lambda>r. aborted_end r \<ge> low) (sk_aborted sk) = filter (\<lambda>r. aborted_end r \<ge> low) (aborted s)"
    using view by metis
  then show ?thesis using low by (simp add: skel_view_def part_view_def)
qed

lemma parts_agreeD:
  "parts_agree m e \<Longrightarrow> skel_view (entry_or skeleton_default (skeletons m) (t, p)) = part_view (part_at e (Topition t p))"
  unfolding parts_agree_def by (drule spec [of _ "Topition t p"]) simp

lemma default_view: "skel_view skeleton_default = part_view partition_new"
  by (simp add: skel_view_def part_view_def skeleton_default_def partition_new_def)

lemma live_set_partition: "live e \<Longrightarrow> live (set_partition tp s e)"
  unfolding live_def by (simp add: set_partition_def)

interpretation log_start: logged_update
    "\<lambda>e. \<exists>target. advance_log_start target (part_at e (Topition t p)) = Some (low, s')"
    "set_partition (Topition t p) s'" "LogStartAdvance t p low" for t p low s'
proof
  fix e m
  show "disk_part (set_partition (Topition t p) s' e) = disk_part e" by simp
  show "live e \<Longrightarrow> live (set_partition (Topition t p) s' e)" by (rule live_set_partition)
  show "agrees (apply_record (LogStartAdvance t p low) m) (set_partition (Topition t p) s' e)"
    if g: "\<exists>target. advance_log_start target (part_at e (Topition t p)) = Some (low, s')" and a: "agrees m e"
  proof -
    obtain target where "advance_log_start target (part_at e (Topition t p)) = Some (low, s')"
      using g by blast
    then have "skel_view ((entry_or skeleton_default (skeletons m) (t, p))\<lparr>sk_log_start := low\<rparr>) = part_view s'"
      by (rule advance_log_start_view) (rule parts_agreeD [OF agreesD(4) [OF a]])
    then have "skel_view (skel_at (apply_record (LogStartAdvance t p low) m) tp) =
        part_view (part_at (set_partition (Topition t p) s' e) tp)" for tp
      using agreesD(4) [OF a] by (cases tp) (auto simp: parts_agreeD)
    then have "parts_agree (apply_record (LogStartAdvance t p low) m) (set_partition (Topition t p) s' e)"
      by (simp add: parts_agree_def)
    then show ?thesis using a by (simp add: agrees_def)
  qed
qed

text \<open>Deleting a topic that no transaction has produced to.\<close>

definition unproduced :: "string \<Rightarrow> engine \<Rightarrow> bool" where
  "unproduced name e \<longleftrightarrow>
     (\<forall>tid epoch d t p r. txn_detail_of (eng_coord e) tid epoch = Some d \<and> (t, p, r) \<in> set (produced_ranges d) \<longrightarrow> t \<noteq> name)"

interpretation topic_delete: logged_update "unproduced name" "drop_topic name" "TopicDelete name" for name
proof
  fix e m
  show "disk_part (drop_topic name e) = disk_part e" by (simp add: drop_topic_def Let_def disk_part_def)
  show "live (drop_topic name e)" if u: "unproduced name e" and l: "live e"
  proof -
    have "topics_named (eng_coord (drop_topic name e))"
      using live_named [OF l] by (simp add: drop_topic_def Let_def topics_named_def)
    then show ?thesis
      using u l unfolding live_def unproduced_def
      by (simp add: drop_topic_def Let_def txn_detail_of_def) blast
  qed
  show "agrees (apply_record (TopicDelete name) m) (drop_topic name e)" if a: "agrees m e"
  proof -
    have "parts_agree (apply_record (TopicDelete name) m) (drop_topic name e)"
      unfolding parts_agree_def
    proof
      fix tp
      show "skel_view (skel_at (apply_record (TopicDelete name) m) tp) = part_view (part_at (drop_topic name e) tp)"
        using agreesD(4) [OF a]
        by (cases "topic tp = name") (simp_all add: parts_agree_def drop_topic_def Let_def entry_or_def default_view)
    qed
    then show ?thesis
      using agreesD [OF a] by (simp add: agrees_def drop_topic_def Let_def strip_coord_eq_iff)
  qed
qed

end
