(* ===== verification/Durable_Ops.thy ===== *)
theory Durable_Ops
  imports Durable_View
begin

text \<open>
  Every handler of the engine keeps it recoverable when it succeeds; a produce and a snapshot keep
  it recoverable whatever their outcome.
\<close>

lemma triple_collect [op_intros]:
  "(\<And>x. triple P (f x) (\<lambda>_. P) E) \<Longrightarrow> triple P (collect f xs) (\<lambda>_. P) E"
proof (induction xs)
  case Nil
  then show ?case by (simp add: triple_def)
next
  case (Cons x xs)
  then show ?case by (auto intro!: op_intros)
qed

lemma recoverableD:
  assumes "recoverable e" shows "wal_order e" "live e" "agrees (disk_meta e) e"
  using assms by (simp_all add: recoverable_def)

lemma recoverable_coord:
  assumes "recoverable e" and "strip_coord c = strip_coord (eng_coord e)" and "live (e\<lparr>eng_coord := c\<rparr>)"
  shows "recoverable (e\<lparr>eng_coord := c\<rparr>)"
  using assms disk_part_meta [of "e\<lparr>eng_coord := c\<rparr>" e]
  by (simp add: recoverable_def agrees_def)

lemma recoverable_memory [simp]:
  "recoverable (e\<lparr>eng_usage := u\<rparr>) = recoverable e" "recoverable (e\<lparr>eng_ticks := n\<rparr>) = recoverable e"
  using disk_part_meta [of "e\<lparr>eng_usage := u\<rparr>" e] disk_part_meta [of "e\<lparr>eng_ticks := n\<rparr>" e]
  by (simp_all add: recoverable_def agrees_def parts_agree_def)

lemma recoverable_part:
  assumes "recoverable e" and "part_view s = part_view (part_at e tp)"
  shows "recoverable (set_partition tp s e)"
proof -
  have "agrees (disk_meta e) (set_partition tp s e)"
    using recoverableD(3) [OF assms(1)] assms(2) by (simp add: agrees_def parts_agree_def)
  then show ?thesis
    using assms(1) live_set_partition disk_part_meta [of "set_partition tp s e" e] by (simp add: recoverable_def)
qed

lemma recoverable_ensure:
  assumes "ensure_partition env tp e = (res, e')" and "recoverable e"
  shows "recoverable e'"
proof -
  have "recoverable (set_partition tp partition_new (tick e))" if "fmlookup (eng_partitions e) tp = None"
    using assms(2) that by (intro recoverable_part) (simp_all add: entry_or_def)
  then show ?thesis
    using assms by (auto simp: ensure_partition_def split: option.splits io_outcome.splits)
qed

section \<open>Produce\<close>

lemma validate_sequence_strip:
  assumes "validate_sequence pid epoch base delta t p c = (res, c')"
  shows "strip_coord c' = strip_coord c \<and> transactions c' = transactions c \<and> topics c' = topics c"
proof -
  have "fmmap strip_producer (fmupd pid (pd\<lparr>sequences := fmupd cur m (sequences pd)\<rparr>) (producers c)) = fmmap strip_producer (producers c)"
    if "fmlookup (producers c) pid = Some pd" "fmlookup (sequences pd) cur = Some m'" for pd cur m m'
  proof -
    have "strip_producer (pd\<lparr>sequences := fmupd cur m (sequences pd)\<rparr>) = strip_producer pd"
      using that(2) by (cases pd) (auto simp: strip_producer_def intro!: fmap_ext)
    then show ?thesis using that(1) by (intro fmap_ext) auto
  qed
  then show ?thesis
    using assms
    by (auto simp: validate_sequence_def strip_coord_eq_iff Let_def last_entry_Some split: option.splits if_splits)
qed

lemma produce_coordination_strip:
  assumes "produce_coordination tid tp b attrs c = (res, c')"
  shows "strip_coord c' = strip_coord c \<and> transactions c' = transactions c \<and> topics c' = topics c"
proof -
  have "\<exists>r. validate_sequence (b_producer_id b) (b_producer_epoch b) (b_base_sequence b)
      (b_last_offset_delta b) (topic tp) (partition tp) c = (r, c') \<or> c' = c"
    using assms by (auto simp: produce_coordination_def and_then_def split: if_splits sum.splits prod.splits option.splits)
  then show ?thesis using validate_sequence_strip by blast
qed

lemma produce_guard_recoverable:
  assumes "produce_guard env tid tp b e = (res, e')" and "recoverable e"
  shows "recoverable e'"
proof -
  obtain c where c: "e' = e\<lparr>eng_coord := c\<rparr>" "strip_coord c = strip_coord (eng_coord e)"
      "transactions c = transactions (eng_coord e)" "topics c = topics (eng_coord e)"
  proof -
    have "\<exists>c. e' = e\<lparr>eng_coord := c\<rparr> \<and> (c = eng_coord e \<or> (\<exists>attrs r. produce_coordination tid tp b attrs (eng_coord e) = (r, c)))"
      using assms(1) by (auto simp: produce_guard_def Let_def split: sum.splits if_splits prod.splits option.splits
          intro: exI [of _ "eng_coord e"])
    then show thesis using produce_coordination_strip that by blast
  qed
  then have "live (e\<lparr>eng_coord := c\<rparr>)"
    using recoverableD(2) [OF assms(2)] by (intro live_coord_named) (auto simp: topics_named_def)
  then show ?thesis using recoverable_coord assms(2) c by blast
qed

lemma append_batch_view:
  "append_batch env tid b attrs now o1 o2 o3 s = (res, s') \<Longrightarrow> part_view s' = part_view s"
  by (erule append_batch_cases) (simp_all add: part_view_def)

lemma produce_append_recoverable:
  assumes "produce_append env tid tp b attrs e = (res, e')" and "recoverable e"
  shows "recoverable e' \<and> fmlookup (eng_partitions e') tp \<noteq> None"
proof -
  define t where "t = eng_ticks e"
  obtain r s' where a: "append_batch env tid b attrs (env_now env t) (env_io env t) (env_io env (t + 1))
      (env_io env (t + 2)) (part_at e tp) = (r, s')" by fastforce
  have "recoverable (set_partition tp s' (e\<lparr>eng_ticks := t + 3\<rparr>))"
    using assms(2) append_batch_view [OF a] by (intro recoverable_part) simp_all
  then show ?thesis
    using assms(1) a by (auto simp: produce_append_def Let_def t_def split: sum.splits)
qed

lemma record_txn_produce_recoverable:
  assumes "record_txn_produce tid epoch (topic tp) (partition tp) start fin control (eng_coord e) = (res, c)"
    and "recoverable e" and "fmlookup (eng_partitions e) tp \<noteq> None"
  shows "recoverable (e\<lparr>eng_coord := c\<rparr>)"
proof -
  define f where "f = (\<lambda>d :: txn_detail. d\<lparr>produces := insert2 (topic tp) (partition tp)
    (extend_range start fin (lookup2 (produces d) (topic tp) (partition tp))) (produces d)\<rparr>)"
  have "strip_coord (update_txn_detail tid epoch f (eng_coord e)) = strip_coord (eng_coord e)"
    by (rule strip_update_same) (simp add: f_def strip_detail_def)
  moreover have "live (e\<lparr>eng_coord := update_txn_detail tid epoch f (eng_coord e)\<rparr>)"
  proof (rule liveI)
    show "topics_named (eng_coord (e\<lparr>eng_coord := update_txn_detail tid epoch f (eng_coord e)\<rparr>))"
      using live_named [OF recoverableD(2) [OF assms(2)]] by (simp add: topics_named_def update_txn_detail_def)
  next
    fix tid' epoch' d t p r
    assume d: "txn_detail_of (eng_coord (e\<lparr>eng_coord := update_txn_detail tid epoch f (eng_coord e)\<rparr>)) tid' epoch' = Some d"
      and x: "(t, p, r) \<in> set (produced_ranges d)"
    obtain d' where d': "txn_detail_of (eng_coord e) tid' epoch' = Some d'" "d = f d' \<or> d = d'"
      using d by (auto split: if_splits)
    have "tp = Topition t p \<or> (t, p, r) \<in> set (produced_ranges d')"
      using d'(2) x by (cases tp) (auto simp: f_def split: if_splits)
    then show "fmlookup (eng_partitions (e\<lparr>eng_coord := update_txn_detail tid epoch f (eng_coord e)\<rparr>)) (Topition t p) \<noteq> None"
      using assms(3) liveD [OF recoverableD(2) [OF assms(2)] d'(1)] by auto
  qed
  ultimately have "recoverable (e\<lparr>eng_coord := update_txn_detail tid epoch f (eng_coord e)\<rparr>)"
    by (rule recoverable_coord [OF assms(2)])
  moreover have "e\<lparr>eng_coord := eng_coord e\<rparr> = e" by simp
  ultimately show ?thesis
    using assms(1,2) by (auto simp: record_txn_produce_def f_def split: option.splits if_splits)
qed

lemma produce_complete_recoverable:
  assumes "produce_complete env tid tp b attrs offset e = (res, e')" and "recoverable e"
    and "fmlookup (eng_partitions e) tp \<noteq> None"
  shows "recoverable e'"
proof -
  define e1 where "e1 = publish tp (offset + b_last_offset_delta b + 1) (tick e)"
  have e1: "recoverable e1"
    unfolding e1_def publish_def Let_def using assms(2) by (intro recoverable_part) (simp_all add: part_view_def)
  have p1: "fmlookup (eng_partitions e1) tp \<noteq> None"
    by (simp add: e1_def publish_def Let_def)
  have c: "recoverable (e1\<lparr>eng_coord := c\<rparr>)"
    if "record_txn_produce tid' epoch (topic tp) (partition tp) start fin control (eng_coord e1) = (r, c)"
    for tid' epoch start fin control r c
    using record_txn_produce_recoverable [OF that e1 p1] .
  show ?thesis
    using assms(1,2) e1 c
    by (auto simp: produce_complete_def Let_def e1_def [symmetric] split: io_outcome.splits option.splits if_splits sum.splits prod.splits)
qed

lemma produce_recoverable [op_intros]: "triple recoverable (produce env tid tp b) (\<lambda>_. recoverable) recoverable"
  unfolding produce_def
proof (rule triple_and_then)
  show "triple recoverable (produce_guard env tid tp b) (\<lambda>_. recoverable) recoverable"
    by (rule tripleI) (auto intro: produce_guard_recoverable)
next
  fix attrs
  have "triple recoverable (produce_append env tid tp b attrs)
      (\<lambda>_ e. recoverable e \<and> fmlookup (eng_partitions e) tp \<noteq> None) recoverable"
    by (rule tripleI) (use produce_append_recoverable in blast)+
  moreover have "triple (\<lambda>e. recoverable e \<and> fmlookup (eng_partitions e) tp \<noteq> None)
      (produce_complete env tid tp b attrs offset) (\<lambda>_. recoverable) recoverable" for offset
    by (rule tripleI) (use produce_complete_recoverable in blast)+
  moreover have "triple recoverable (ensure_partition env tp) (\<lambda>_. recoverable) recoverable"
    by (rule tripleI) (auto intro: recoverable_ensure)
  ultimately show "triple recoverable (and_then (ensure_partition env tp) (\<lambda>_. and_then (produce_append env tid tp b attrs)
      (produce_complete env tid tp b attrs))) (\<lambda>_. recoverable) recoverable"
    by (blast intro: triple_and_then)
qed

section \<open>The handlers\<close>

lemma upholdsI:
  assumes "\<And>e v e'. recoverable e \<Longrightarrow> f e = (Inr v, e') \<Longrightarrow> recoverable e'"
  shows "upholds recoverable f"
  using assms by (intro tripleI) auto

text \<open>What creating the partitions of a topic leaves: new, empty partitions.\<close>

definition ensured :: "engine \<Rightarrow> engine \<Rightarrow> bool" where
  "ensured e e' \<longleftrightarrow> e' = e\<lparr>eng_partitions := eng_partitions e', eng_ticks := eng_ticks e'\<rparr> \<and>
     (\<forall>tp. part_at e' tp = part_at e tp \<and> (fmlookup (eng_partitions e) tp \<noteq> None \<longrightarrow> fmlookup (eng_partitions e') tp \<noteq> None))"

lemma ensured_refl: "ensured e e"
  by (simp add: ensured_def)

lemma ensured_trans:
  assumes "ensured e e1" and "ensured e1 e2"
  shows "ensured e e2"
proof -
  have "e1 = e\<lparr>eng_partitions := eng_partitions e1, eng_ticks := eng_ticks e1\<rparr>"
    "e2 = e1\<lparr>eng_partitions := eng_partitions e2, eng_ticks := eng_ticks e2\<rparr>"
    using assms by (simp_all add: ensured_def)
  then have "e2 = e\<lparr>eng_partitions := eng_partitions e2, eng_ticks := eng_ticks e2\<rparr>"
    by (cases e; cases e1; cases e2) simp
  then show ?thesis using assms by (simp add: ensured_def)
qed

lemma ensure_ensured:
  assumes "ensure_partition env tp e = (res, e')"
  shows "ensured e e'"
proof (cases "fmlookup (eng_partitions e) tp")
  case None
  then have "part_at e tp = partition_new" by (simp add: entry_or_def)
  then show ?thesis
    using assms None by (auto simp: ensured_def ensure_partition_def tick_def set_partition_def split: io_outcome.splits)
next
  case (Some s)
  then show ?thesis using assms by (simp add: ensure_partition_def ensured_refl)
qed

lemma for_each_ensured:
  "for_each (\<lambda>p. and_then (ensure_partition env (Topition t p)) (\<lambda>_. ok ())) ps e = (Inr u, e') \<Longrightarrow> ensured e e'"
proof (induction ps arbitrary: e)
  case Nil
  then show ?case by (simp add: ensured_refl)
next
  case (Cons p ps)
  then obtain e1 x where "ensure_partition env (Topition t p) e = (Inr x, e1)"
      "for_each (\<lambda>p. and_then (ensure_partition env (Topition t p)) (\<lambda>_. ok ())) ps e1 = (Inr u, e')"
    unfolding for_each_Cons by (fastforce simp: and_then_Inr)
  then show ?case using Cons.IH ensured_trans ensure_ensured by blast
qed

lemma ensured_recoverable:
  assumes "ensured e e'" and "recoverable e"
  shows "recoverable e'"
proof -
  have e': "e' = e\<lparr>eng_partitions := eng_partitions e', eng_ticks := eng_ticks e'\<rparr>"
    and ps: "\<And>tp. part_at e' tp = part_at e tp"
      "\<And>tp. fmlookup (eng_partitions e) tp \<noteq> None \<Longrightarrow> fmlookup (eng_partitions e') tp \<noteq> None"
    using assms(1) unfolding ensured_def by blast+
  have same: "eng_coord e' = eng_coord e" "eng_groups e' = eng_groups e" "eng_offsets e' = eng_offsets e"
    "disk_part e' = disk_part e"
    by (subst e', simp)+
  have "agrees (disk_meta e) e'"
    using recoverableD(3) [OF assms(2)] ps(1) by (simp add: agrees_def parts_agree_def same)
  moreover have "live e'"
  proof (rule liveI)
    show "topics_named (eng_coord e')" using live_named [OF recoverableD(2) [OF assms(2)]] by (simp add: same)
    fix tid epoch d t p r
    assume "txn_detail_of (eng_coord e') tid epoch = Some d" "(t, p, r) \<in> set (produced_ranges d)"
    then show "fmlookup (eng_partitions e') (Topition t p) \<noteq> None"
      using liveD [OF recoverableD(2) [OF assms(2)]] ps(2) unfolding same by blast
  qed
  ultimately show ?thesis
    using recoverableD(1) [OF assms(2)] disk_part_meta [OF same(4)] by (simp add: recoverable_def)
qed

lemma create_topic_upholds [op_intros]: "upholds recoverable (create_topic env t)"
proof (rule upholdsI)
  fix e i e' assume r: "recoverable e" and c: "create_topic env t e = (Inr i, e')"
  define u where "u = env_uuid env (eng_ticks e)"
  obtain e1 where e1: "for_each (\<lambda>p. and_then (ensure_partition env (Topition (topic_name t) p)) (\<lambda>_. ok ()))
      [0 .. num_partitions t - 1] (file_topic u t e) = (Inr (), e1)"
    "wal_append env (TopicCreate u t) e1 = (Inr (), e')"
    using c by (auto simp: create_topic_def Let_def u_def and_then_Inr split: if_splits)
  define e2 where "e2 = e\<lparr>eng_partitions := eng_partitions e1, eng_ticks := eng_ticks e1\<rparr>"
  have "ensured (file_topic u t e) e1" by (rule for_each_ensured [OF e1(1)])
  then have "e1 = file_topic u t e2" and "ensured e e2"
    by (cases e; cases e1; simp add: ensured_def e2_def)+
  then show "recoverable e'"
    using topic_create.appended [OF ensured_recoverable [OF _ r], of e2] e1(2) by simp
qed

lemma delete_topic_upholds:
  assumes "recoverable e" and "delete_topic env t e = (Inr code, e')"
    and "\<And>m. find_topic (eng_coord e) t = Some m \<Longrightarrow> unproduced (topic_name (creatable m)) e"
  shows "recoverable e'"
  using assms(1,2) topic_delete.appended [OF assms(1) assms(3)]
  by (auto simp: delete_topic_def Let_def dest!: and_then_ok_Inr split: option.splits)

lemma incremental_alter_upholds [op_intros]: "upholds recoverable (incremental_alter_resource env ty name alterations)"
proof (rule upholdsI)
  fix e v e' assume r: "recoverable e" and c: "incremental_alter_resource env ty name alterations e = (Inr v, e')"
  define changes where "changes = (case alterations of None \<Rightarrow> [] | Some cs \<Rightarrow> cs)"
  have "e' = e \<or> wal_append env (ConfigAlter name changes) (alter_configuration name changes e) = (Inr (), e')"
    using c by (auto simp: incremental_alter_resource_def Let_def changes_def [symmetric] dest!: and_then_ok_Inr
        split: if_splits sum.splits prod.splits)
  then show "recoverable e'" using r config_alter.appended [OF r] by blast
qed

lemma delete_partition_records_upholds: "upholds recoverable (delete_partition_records env known t po)"
proof (rule upholdsI)
  fix e v e' assume r: "recoverable e" and c: "delete_partition_records env known t po e = (Inr v, e')"
  obtain p offset where po: "po = (p, offset)" by fastforce
  have "e' = e \<or> (\<exists>target low s'. advance_log_start target (part_at e (Topition t p)) = Some (low, s') \<and>
      wal_append env (LogStartAdvance t p low) (set_partition (Topition t p) s' e) = (Inr (), e'))"
    using c by (auto simp: delete_partition_records_def po Let_def partition_if_exists_def entry_or_def
        dest!: and_then_ok_Inr split: if_splits option.splits)
  then show "recoverable e'" using r log_start.appended [OF r] by blast
qed

lemma delete_records_upholds [op_intros]: "upholds recoverable (delete_records env ts)"
proof (rule upholdsI)
  fix e v e' assume r: "recoverable e" and c: "delete_records env ts e = (Inr v, e')"
  define known where "known = fmdom (topics (eng_coord e))"
  have "upholds recoverable (collect (\<lambda>(t, ps). and_then
      (collect (delete_partition_records env (t |\<in>| known) t) (case ps of None \<Rightarrow> [] | Some l \<Rightarrow> l))
      (\<lambda>results. ok (t, results))) ts)"
    unfolding case_prod_beta by (intro op_intros delete_partition_records_upholds)
  moreover have "collect (\<lambda>(t, ps). and_then
      (collect (delete_partition_records env (t |\<in>| known) t) (case ps of None \<Rightarrow> [] | Some l \<Rightarrow> l))
      (\<lambda>results. ok (t, results))) ts e = (Inr v, e')"
    using c by (simp add: delete_records_def known_def Let_def)
  ultimately show "recoverable e'"
    using r by (rule tripleD)
qed

lemma scram_upholds [op_intros]:
  "upholds recoverable (upsert_user_scram_credential env user mechanism cr)"
  "upholds recoverable (delete_user_scram_credential env user mechanism)"
proof -
  show "upholds recoverable (upsert_user_scram_credential env user mechanism cr)"
    unfolding upsert_user_scram_credential_def by (intro upholdsI, erule scram_upsert.appended) simp_all
  show "upholds recoverable (delete_user_scram_credential env user mechanism)"
    unfolding delete_user_scram_credential_def by (intro upholdsI, erule scram_delete.appended) simp_all
qed

lemma offset_commit_upholds [op_intros]: "upholds recoverable (offset_commit env g offsets)"
proof (rule upholdsI)
  fix e v e' assume r: "recoverable e" and c: "offset_commit env g offsets e = (Inr v, e')"
  define taken where "taken = filter (\<lambda>(tp, _). known_topic e (topic tp)) offsets"
  have "e' = e \<or> wal_append env (GroupOffsetCommit g (map (\<lambda>(tp, oc). (topic tp, partition tp, oc)) taken))
      (commit_rows g taken e) = (Inr (), e')"
    using c by (auto simp: offset_commit_def Let_def taken_def [symmetric] dest!: and_then_ok_Inr split: if_splits)
  then show "recoverable e'" using r group_commit.appended [OF r] by blast
qed

lemma update_group_upholds:
  assumes "recoverable e" and "update_group env g detail expected e = (Inr v, e')"
  shows "recoverable e'"
proof -
  have "wal_append env (GroupUpdate g detail v) (put_group g detail v e) = (Inr (), e')"
    using assms(2) by (auto simp: update_group_def swap_group_def split: sum.splits prod.splits option.splits if_splits)
  then show ?thesis using group_update.appended [OF assms(1)] by simp
qed

lemma txn_add_partitions_upholds [op_intros]: "upholds recoverable (txn_add_partitions env request)"
proof (rule upholdsI)
  fix e v e' assume r: "recoverable e" and c: "txn_add_partitions env request e = (Inr v, e')"
  show "recoverable e'"
  proof (cases request)
    case (VersionZeroToThree tid pid epoch ts)
    define now where "now = env_now env (eng_ticks e)"
    have "e' = e \<or> accepted_txn tid pid epoch e \<and> wal_append env (TxnBegin tid pid epoch now (requested ts))
        (with_detail tid epoch (begin_detail now (requested ts)) e) = (Inr (), e')"
      using c by (auto simp: txn_add_partitions_def VersionZeroToThree now_def Let_def dest!: and_then_ok_Inr
          split: sum.splits error.splits)
    then show ?thesis using r txn_begin.appended [OF r] by blast
  qed (use c in \<open>auto simp: txn_add_partitions_def\<close>)
qed

lemma txn_offset_commit_upholds [op_intros]: "upholds recoverable (txn_offset_commit env rq)"
proof (rule upholdsI)
  fix e v e' assume r: "recoverable e" and c: "txn_offset_commit env rq e = (Inr v, e')"
  have "e' = e \<or> accepted_txn (toc_transaction_id rq) (toc_producer_id rq) (toc_producer_epoch rq) e \<and>
      wal_append env (TxnOffsets (toc_transaction_id rq) (toc_producer_id rq) (toc_producer_epoch rq) (toc_group_id rq) (toc_rows rq))
        (with_detail (toc_transaction_id rq) (toc_producer_epoch rq)
          (\<lambda>d. d\<lparr>txn_offsets := fold (insert_txn_offset (toc_group_id rq)) (toc_rows rq) (txn_offsets d)\<rparr>) e) = (Inr (), e')"
    using c by (auto simp: txn_offset_commit_def dest!: and_then_ok_Inr split: sum.splits error.splits)
  then show "recoverable e'" using r txn_joined.appended [OF r] by blast
qed

section \<open>Several records\<close>

definition log_all :: "env \<Rightarrow> wal_record list \<Rightarrow> engine \<Rightarrow> engine" where
  "log_all env rs e = fold (\<lambda>r e. log_record env r (tick e)) rs e"

lemma log_all_Cons: "log_all env (r # rs) e = log_all env rs (log_record env r (tick e))"
  by (simp add: log_all_def)

lemma log_all_Nil [simp]: "log_all env [] e = e"
  by (simp add: log_all_def)

lemma log_all_memory [simp]:
  "agrees m (log_all env rs e) = agrees m e" "live (log_all env rs e) = live e"
  "eng_partitions (log_all env rs e) = eng_partitions e"
  by (induction rs arbitrary: e) (simp_all add: log_all_Cons)

lemma log_all_disk:
  "wal_order e \<Longrightarrow> wal_order (log_all env rs e) \<and> disk_meta (log_all env rs e) = fold apply_record rs (disk_meta e)"
proof (induction rs arbitrary: e)
  case (Cons r rs)
  have "wal_order (tick e)" "disk_meta (tick e) = disk_meta e"
    using Cons.prems disk_part_meta [of "tick e" e] by simp_all
  then show ?case
    using Cons.IH [of "log_record env r (tick e)"] by (simp add: log_all_Cons disk_meta_log)
qed simp

lemma log_all_recoverable:
  assumes "wal_order e" and "live e" and "agrees (fold apply_record rs (disk_meta e)) e"
  shows "recoverable (log_all env rs e)"
  using assms by (simp add: recoverable_def log_all_disk)

lemma log_all_partitions: "(log_all env rs e)\<lparr>eng_partitions := ps\<rparr> = log_all env rs (e\<lparr>eng_partitions := ps\<rparr>)"
proof (induction rs arbitrary: e)
  case (Cons r rs)
  have "(log_record env r (tick e))\<lparr>eng_partitions := ps\<rparr> = log_record env r (tick (e\<lparr>eng_partitions := ps\<rparr>))"
    by (cases e) (simp add: log_record_def tick_def)
  then show ?case using Cons.IH by (simp add: log_all_Cons)
qed simp

lemma for_each_wal_append:
  "for_each (\<lambda>x. wal_append env (r x)) xs e = (Inr u, e') \<Longrightarrow> e' = log_all env (map r xs) e"
proof (induction xs arbitrary: e)
  case (Cons x xs)
  then have "for_each (\<lambda>x. wal_append env (r x)) xs (log_record env (r x) (tick e)) = (Inr u, e')"
    unfolding for_each_Cons by (auto simp: and_then_Inr dest: wal_append_ok)
  then show ?case using Cons.IH by (simp add: log_all_Cons)
qed simp

lemma log_terminals_all: "log_terminals env xs e = (Inr u, e') \<Longrightarrow> e' = log_all env (map terminal_record xs) e"
  by (induction env xs e rule: log_terminals.induct)
    (auto simp: log_all_Cons split: io_outcome.splits if_splits)

text \<open>Deleting groups.\<close>

lemma delete_group_forget: "delete_group g e = (found, e1) \<Longrightarrow> e1 = forget_group g e \<and> (\<not> found \<longrightarrow> e1 = e)"
proof -
  assume a: "delete_group g e = (found, e1)"
  have "fmfilter (\<lambda>(g', _). g' \<noteq> g) (eng_offsets e) = eng_offsets e"
    if "fcard (fmdom (eng_offsets e)) = fcard (fmdom (fmfilter (\<lambda>(g', _). g' \<noteq> g) (eng_offsets e)))"
  proof -
    have "fmdom (fmfilter (\<lambda>(g', _). g' \<noteq> g) (eng_offsets e)) = fmdom (eng_offsets e)"
      using that by (intro fcard_seteq) auto
    then show ?thesis by (intro fmap_ext) (metis fmdom_notD fmdom_notI fmlookup_filter)
  qed
  moreover have "fmdrop g (eng_groups e) = eng_groups e" if "fmlookup (eng_groups e) g = None"
    using that by (intro fmap_ext) auto
  ultimately show "e1 = forget_group g e \<and> (\<not> found \<longrightarrow> e1 = e)"
    using a by (cases "fmlookup (eng_groups e) g") (auto simp: delete_group_def Let_def)
qed

lemma delete_group_loop_forget:
  assumes "delete_group_loop gs e = (results, deleted, e')" and "live e" and "agrees m e"
  shows "live e' \<and> disk_part e' = disk_part e \<and> agrees (fold apply_record (map GroupDelete deleted) m) e'"
  using assms
proof (induction gs arbitrary: e m results deleted)
  case Nil
  then show ?case by simp
next
  case (Cons g gs)
  obtain found e1 where g: "delete_group g e = (found, e1)" by fastforce
  obtain results1 deleted1 where l: "delete_group_loop gs e1 = (results1, deleted1, e')"
    "deleted = (if found then g # deleted1 else deleted1)"
    using Cons.prems(1) g by (auto split: prod.splits)
  note e1 = delete_group_forget [OF g]
  have "live e1" "disk_part e1 = disk_part e" "agrees (if found then apply_record (GroupDelete g) m else m) e1"
    using e1 Cons.prems(2,3) group_delete.simulates [of e m g] by auto
  then show ?case using Cons.IH [OF l(1), of "if found then apply_record (GroupDelete g) m else m"] l(2) by auto
qed

lemma delete_groups_upholds [op_intros]: "upholds recoverable (delete_groups env gs)"
proof (rule upholdsI)
  fix e v e' assume r: "recoverable e" and c: "delete_groups env gs e = (Inr v, e')"
  show "recoverable e'"
  proof (cases gs)
    case (Some l)
    obtain results deleted e1 where d: "delete_group_loop l e = (results, deleted, e1)" by (cases "delete_group_loop l e") auto
    have "e' = log_all env (map GroupDelete deleted) e1"
      using c d by (auto simp: delete_groups_def Some dest!: and_then_ok_Inr for_each_wal_append)
    moreover have "live e1 \<and> disk_part e1 = disk_part e \<and> agrees (fold apply_record (map GroupDelete deleted) (disk_meta e)) e1"
      by (rule delete_group_loop_forget [OF d recoverableD(2) [OF r] recoverableD(3) [OF r]])
    ultimately show ?thesis
      using recoverableD(1) [OF r] disk_part_meta [of e1 e] by (simp add: log_all_recoverable)
  qed (use c r in \<open>simp add: delete_groups_def\<close>)
qed

section \<open>Ending a transaction\<close>

lemma push_view:
  assumes "skel_view sk = part_view s"
  shows "skel_view (push_aborted pid r sk) =
    part_view (push_aborted_range \<lparr>aborted_producer = pid, aborted_start = offset_start r, aborted_end = offset_end r\<rparr> s)"
proof -
  have ls: "sk_log_start sk = log_start s"
    "filter (\<lambda>r. aborted_end r \<ge> log_start s) (sk_aborted sk) = filter (\<lambda>r. aborted_end r \<ge> log_start s) (aborted s)"
    using assms by (auto simp: skel_view_def part_view_def)
  have "a \<in> set (sk_aborted sk) \<longleftrightarrow> a \<in> set (aborted s)" if "aborted_end a \<ge> log_start s" for a
    using arg_cong [OF ls(2), of "\<lambda>xs. a \<in> set xs"] that by simp
  then show ?thesis
    using ls by (auto simp: push_aborted_def push_aborted_range_def Let_def skel_view_def part_view_def)
qed

lemma release_view:
  assumes "skel_view sk = part_view s"
  shows "part_view (release_txn x r s) = (if eff_aborting x then skel_view (push_aborted (eff_producer_id x) r sk) else skel_view sk)"
proof -
  have v: "part_view (s\<lparr>open_txns := os\<rparr>) = part_view s" for os by (simp add: part_view_def)
  then show ?thesis
    using assms push_view [of sk "s\<lparr>open_txns := fmdrop (eff_transaction x, eff_producer_id x, eff_producer_epoch x) (open_txns s)\<rparr>"]
    by (simp add: release_txn_def Let_def)
qed

definition views_agree :: "(string \<times> int, skeleton) fmap \<Rightarrow> (topition, partition_inner) fmap \<Rightarrow> bool" where
  "views_agree sks ps \<longleftrightarrow> (\<forall>t p. skel_view (entry_or skeleton_default sks (t, p)) = part_view (entry_or partition_new ps (Topition t p)))"

lemma parts_agree_views: "parts_agree m e = views_agree (skeletons m) (eng_partitions e)"
  unfolding parts_agree_def views_agree_def by (metis topition.collapse topition.sel)

lemma apply_effect_views:
  assumes "views_agree sks ps" and "\<And>tp r. (tp, r) \<in> set ranges \<Longrightarrow> fmlookup ps tp \<noteq> None"
  shows "views_agree (if eff_aborting x
       then fold (apply_aborted (eff_producer_id x)) (map (\<lambda>(tp, r). (topic tp, partition tp, r)) ranges) sks else sks)
     (fold (\<lambda>(tp, r). adjust tp (release_txn x r)) ranges ps)"
  using assms
proof (induction ranges arbitrary: sks ps)
  case Nil
  then show ?case by simp
next
  case (Cons y ranges)
  obtain t p r where y: "y = (Topition t p, r)" by (metis surj_pair topition.collapse)
  obtain s where s: "fmlookup ps (Topition t p) = Some s" using Cons.prems(2) y by fastforce
  define sks1 where "sks1 = (if eff_aborting x then apply_aborted (eff_producer_id x) (t, p, r) sks else sks)"
  have "skel_view (entry_or skeleton_default sks (t, p)) = part_view s"
    using Cons.prems(1) s unfolding views_agree_def by (simp add: entry_or_def)
  note step = release_view [OF this, of x r]
  have "views_agree sks1 (adjust (Topition t p) (release_txn x r) ps)"
    unfolding views_agree_def
  proof (intro allI)
    fix t' p'
    show "skel_view (entry_or skeleton_default sks1 (t', p')) =
      part_view (entry_or partition_new (adjust (Topition t p) (release_txn x r) ps) (Topition t' p'))"
      using Cons.prems(1) step s unfolding views_agree_def
      by (cases "t = t' \<and> p = p'") (auto simp: sks1_def apply_aborted_def entry_or_def [of partition_new])
  qed
  moreover have "fmlookup (adjust (Topition t p) (release_txn x r) ps) tp \<noteq> None" if "(tp, r') \<in> set ranges" for tp r'
    using Cons.prems(2) [of tp r'] that s by (auto split: if_splits)
  ultimately show ?case
    using Cons.IH [of sks1 "adjust (Topition t p) (release_txn x r) ps"]
    by (simp add: y sks1_def del: not_None_eq split: if_splits)
qed

definition resolvable :: "txn_effects \<Rightarrow> txn_state \<Rightarrow> engine \<Rightarrow> bool" where
  "resolvable x terminal e \<longleftrightarrow>
     (\<exists>t. fmlookup (transactions (eng_coord e)) (eff_transaction x) = Some t \<and> producer t = eff_producer_id x) \<and>
     (\<exists>d. txn_detail_of (eng_coord e) (eff_transaction x) (eff_producer_epoch x) = Some d \<and> eff_ranges x = effect_ranges d) \<and>
     is_terminal terminal \<and> eff_aborting x = (terminal = Aborted)"

definition resolve :: "txn_effects \<Rightarrow> txn_state \<Rightarrow> engine \<Rightarrow> engine" where
  "resolve x terminal e =
     e\<lparr>eng_coord := update_txn_detail (eff_transaction x) (eff_producer_epoch x) (finish_detail terminal) (eng_coord e),
       eng_partitions := apply_effect x (eng_partitions e)\<rparr>"

lemma fmdom_apply_effect: "fmlookup (apply_effect x ps) tp = None \<longleftrightarrow> fmlookup ps tp = None"
proof -
  have step: "fmlookup (adjust k f m) tp = None \<longleftrightarrow> fmlookup m tp = None" for k f and m :: "(topition, partition_inner) fmap"
    by auto
  have "fmlookup (fold (\<lambda>(tp, r). adjust tp (release_txn x r)) ranges ps) tp = None \<longleftrightarrow> fmlookup ps tp = None" for ranges
    by (induction ranges arbitrary: ps) (simp_all add: step case_prod_beta del: fmlookup_adjust)
  then show ?thesis by (simp add: apply_effect_def)
qed

lemma live_partitions:
  assumes "live e" and "\<And>tp. fmlookup (eng_partitions e) tp \<noteq> None \<Longrightarrow> fmlookup ps tp \<noteq> None"
  shows "live (e\<lparr>eng_partitions := ps\<rparr>)"
  using live_named [OF assms(1)] liveD [OF assms(1)] assms(2) by (intro liveI) simp_all

interpretation txn_terminal: logged_update "resolvable x terminal" "resolve x terminal" "terminal_record x"
  for x terminal
proof
  fix e m
  let ?u = "with_detail (eff_transaction x) (eff_producer_epoch x) (finish_detail terminal) e"
  have re: "resolve x terminal e = ?u\<lparr>eng_partitions := apply_effect x (eng_partitions ?u)\<rparr>"
    by (simp add: resolve_def)
  show "disk_part (resolve x terminal e) = disk_part e" by (simp add: re)
  show "live (resolve x terminal e)" if "live e"
  proof -
    have "live ?u" by (rule live_update_txn [OF that]) (auto simp: finish_detail_def)
    then show ?thesis unfolding re by (rule live_partitions) (simp add: fmdom_apply_effect)
  qed
  show "agrees (apply_record (terminal_record x) m) (resolve x terminal e)"
    if r: "resolvable x terminal e" and l: "live e" and a: "agrees m e"
  proof -
    obtain t where t: "fmlookup (transactions (eng_coord e)) (eff_transaction x) = Some t" "producer t = eff_producer_id x"
      using r by (auto simp: resolvable_def)
    obtain d where d: "txn_detail_of (eng_coord e) (eff_transaction x) (eff_producer_epoch x) = Some d"
        "eff_ranges x = effect_ranges d"
      using r by (auto simp: resolvable_def)
    have tm: "terminal = (if \<not> eff_aborting x then Committed else Aborted)"
      using r by (cases terminal) (auto simp: resolvable_def)
    have ag: "agrees (with_txn (eff_transaction x) (eff_producer_id x) (eff_producer_epoch x) (apply_txn_terminal (\<not> eff_aborting x)) m) ?u"
      by (rule agrees_with_txn_of [OF a t]) (simp add: strip_detail_eq_iff apply_txn_terminal_def finish_detail_def tm)
    have dom: "fmlookup (eng_partitions e) tp \<noteq> None" if "(tp, rg) \<in> set (eff_ranges x)" for tp rg
      using that liveD [OF l d(1)] unfolding d(2) effect_ranges_def by auto
    have "views_agree (if eff_aborting x then fold (apply_aborted (eff_producer_id x))
        (map (\<lambda>(tp, r). (topic tp, partition tp, r)) (eff_ranges x)) (skeletons m) else skeletons m)
      (apply_effect x (eng_partitions e))"
      unfolding apply_effect_def
      by (rule apply_effect_views) (use agreesD(4) [OF a] dom in \<open>simp_all add: parts_agree_views\<close>)
    then show ?thesis
      using ag unfolding re terminal_record_def
      by (auto simp: agrees_def parts_agree_views Let_def)
  qed
qed

lemma resolve_refs_agrees:
  assumes "resolve_refs rs (eng_coord e) = (effects, c')" and "live e" and "agrees m e"
    and "\<And>r. r \<in> set rs \<Longrightarrow> \<exists>t. fmlookup (transactions (eng_coord e)) (ref_transaction r) = Some t \<and> producer t = ref_producer_id r"
  shows "let e' = e\<lparr>eng_coord := c', eng_partitions := fold apply_effect effects (eng_partitions e)\<rparr>
    in live e' \<and> agrees (fold apply_record (map terminal_record effects) m) e'"
  using assms
proof (induction rs arbitrary: e m effects)
  case Nil
  then have "effects = []" "c' = eng_coord e" by simp_all
  then show ?case using Nil(2,3) by (simp add: Let_def)
next
  case (Cons r rs)
  show ?case
  proof (cases "\<exists>d terminal. txn_detail_of (eng_coord e) (ref_transaction r) (ref_producer_epoch r) = Some d \<and> terminal_state (txn_status d) = Some terminal")
    case False
    then have "resolve_refs rs (eng_coord e) = (effects, c')"
      using Cons.prems(1) by (auto split: option.splits)
    then show ?thesis using Cons.IH [of e effects m] Cons.prems by simp
  next
    case True
    then obtain d terminal where d: "txn_detail_of (eng_coord e) (ref_transaction r) (ref_producer_epoch r) = Some d"
        "terminal_state (txn_status d) = Some terminal" by blast
    define x where "x = \<lparr>eff_transaction = ref_transaction r, eff_producer_id = ref_producer_id r,
       eff_producer_epoch = ref_producer_epoch r, eff_aborting = (terminal = Aborted), eff_ranges = effect_ranges d,
       eff_offsets = (if ref_state r = PrepareCommit then effect_offsets d else [])\<rparr>"
    obtain effects1 where e1: "resolve_refs rs (eng_coord (resolve x terminal e)) = (effects1, c')" "effects = x # effects1"
      using Cons.prems(1) d by (auto simp: x_def resolve_def Let_def split: prod.splits)
    have g: "resolvable x terminal e"
      using Cons.prems(4) [of r] d by (auto simp: resolvable_def x_def terminal_state_def split: option.splits txn_state.splits)
    have "\<exists>t. fmlookup (transactions (eng_coord (resolve x terminal e))) (ref_transaction r') = Some t \<and> producer t = ref_producer_id r'"
      if "r' \<in> set rs" for r'
      using Cons.prems(4) [of r'] that by (auto simp: resolve_def update_txn_detail_def)
    from Cons.IH [OF e1(1) txn_terminal.keeps_live [OF g Cons.prems(2)] txn_terminal.simulates [OF g Cons.prems(2,3)] this]
    show ?thesis by (simp add: e1(2) Let_def resolve_def)
  qed
qed

lemma overlapping_producer:
  assumes "r \<in> set (overlapping_transactions c tid pid epoch)"
  shows "\<exists>t. fmlookup (transactions c) (ref_transaction r) = Some t \<and> producer t = ref_producer_id r"
  using assms by (fastforce simp: overlapping_transactions_def Let_def set_map_filter_iff)

lemma txn_finish_upholds:
  assumes "recoverable e" and "txn_resolve tid pid epoch committed (eng_coord e) = (Inr (Some effects), c)"
    and "txn_finish env effects (e\<lparr>eng_coord := c\<rparr>) = (Inr u, e')"
  shows "recoverable e'"
proof -
  define e1 where "e1 = e\<lparr>eng_coord := c, eng_partitions := fold apply_effect effects (eng_partitions e)\<rparr>"
  obtain d where d: "txn_detail_mut (eng_coord e) tid pid epoch = Inr d"
    using assms(2) by (auto simp: txn_resolve_def split: sum.splits)
  let ?refs = "overlapping_transactions (eng_coord e) tid pid epoch @ [\<lparr>ref_transaction = tid, ref_producer_id = pid,
      ref_producer_epoch = epoch, ref_state = prepare_state committed\<rparr>]"
  have "resolve_refs ?refs (eng_coord e) = (effects, c)"
    using assms(2) d by (auto simp: txn_resolve_def Let_def split: if_splits prod.splits)
  moreover have "\<exists>t. fmlookup (transactions (eng_coord e)) (ref_transaction r) = Some t \<and> producer t = ref_producer_id r"
    if "r \<in> set ?refs" for r
    using that d overlapping_producer by (auto simp: txn_detail_mut_Inr)
  ultimately have "live e1 \<and> agrees (fold apply_record (map terminal_record effects) (disk_meta e)) e1"
    using resolve_refs_agrees [of ?refs e effects c "disk_meta e"] recoverableD [OF assms(1)] by (simp add: e1_def Let_def)
  then have logged: "recoverable (log_all env (map terminal_record effects) e1)"
    using recoverableD(1) [OF assms(1)] disk_part_meta [of e1 e] by (simp add: log_all_recoverable e1_def)
  have run: "commit_txn_offsets env effects (log_all env (map terminal_record effects) e1) = (Inr u, e')"
    using assms(3) by (auto simp: txn_finish_def and_then_Inr e1_def log_all_partitions dest!: log_terminals_all)
  have "upholds recoverable (commit_txn_offsets env effects)"
    unfolding commit_txn_offsets_def case_prod_beta by (intro op_intros)
  then show ?thesis using run logged by (rule tripleD)
qed

lemma txn_prepare_upholds: "upholds recoverable (txn_prepare env tid pid epoch committed)"
proof (rule upholdsI)
  fix e v e' assume r: "recoverable e" and c: "txn_prepare env tid pid epoch committed e = (Inr v, e')"
  have "e' = e \<or> (\<exists>ranges. accepted_txn tid pid epoch e \<and> wal_append env (TxnPrepare tid pid epoch committed ranges)
      (with_detail tid epoch (\<lambda>d. d\<lparr>txn_status := Some (prepare_state committed)\<rparr>) e) = (Inr (), e'))"
    using c by (auto simp: txn_prepare_def Let_def dest!: and_then_ok_Inr split: sum.splits if_splits)
  then show "recoverable e'" using r txn_prepared.appended [OF r] by blast
qed

lemma produce_marker_recoverable [op_intros]: "upholds recoverable (produce_marker env tid pid epoch committed tp)"
proof (rule upholdsI)
  fix e v e' assume r: "recoverable e" and c: "produce_marker env tid pid epoch committed tp e = (Inr v, e')"
  then obtain b where "produce env (Some tid) tp b e = (Inr v, e')"
    by (auto simp: produce_marker_def split: sum.splits)
  then show "recoverable e'" using r by (rule tripleD [OF produce_recoverable])
qed

lemma txn_end_upholds [op_intros]: "upholds recoverable (txn_end env tid pid epoch committed)"
proof -
  have "upholds recoverable (txn_markers env tid pid epoch committed ranges)" for ranges
    unfolding txn_markers_def case_prod_beta by (intro op_intros)
  moreover have "upholds recoverable (\<lambda>e. case txn_resolve tid pid epoch committed (eng_coord e) of
         (Inl err, c) \<Rightarrow> (Inl err, e\<lparr>eng_coord := c\<rparr>)
       | (Inr None, c) \<Rightarrow> (Inr NoError, e\<lparr>eng_coord := c\<rparr>)
       | (Inr (Some effects), c) \<Rightarrow>
           and_then (txn_finish env effects) (\<lambda>_. ok NoError) (e\<lparr>eng_coord := c\<rparr>))"
  proof (rule upholdsI)
    fix e v e'
    assume r: "recoverable e" and c: "(case txn_resolve tid pid epoch committed (eng_coord e) of
         (Inl err, c) \<Rightarrow> (Inl err, e\<lparr>eng_coord := c\<rparr>)
       | (Inr None, c) \<Rightarrow> (Inr NoError, e\<lparr>eng_coord := c\<rparr>)
       | (Inr (Some effects), c) \<Rightarrow>
           and_then (txn_finish env effects) (\<lambda>_. ok NoError) (e\<lparr>eng_coord := c\<rparr>)) = (Inr v, e')"
    obtain res c1 where t: "txn_resolve tid pid epoch committed (eng_coord e) = (res, c1)" by fastforce
    have "c1 = eng_coord e" if "res = Inr None"
      using t that by (auto simp: txn_resolve_def Let_def split: sum.splits if_splits prod.splits)
    then show "recoverable e'"
      using c t r txn_finish_upholds [OF r, of tid pid epoch committed]
      by (auto dest!: and_then_ok_Inr split: sum.splits option.splits)
  qed
  ultimately show ?thesis
    unfolding txn_end_def by (intro triple_and_then_same txn_prepare_upholds)
qed

lemma init_producer_txn_upholds: "upholds recoverable (init_producer_txn fuel env tid timeout pid epoch)"
proof (induction fuel)
  case 0
  then show ?case by (simp add: triple_def)
next
  case (Suc fuel)
  show ?case
  proof (rule upholdsI)
    fix e v e' assume r: "recoverable e" and c: "init_producer_txn (Suc fuel) env tid timeout pid epoch e = (Inr v, e')"
    obtain out c1 where o: "init_transactional tid timeout pid epoch (eng_coord e) = (out, c1)" by fastforce
    show "recoverable e'"
    proof (cases out)
      case (NeedToRollback rpid repoch)
      have up: "upholds recoverable (and_then (txn_end env tid rpid repoch False) (\<lambda>code.
            if code = NoError then init_producer_txn fuel env tid timeout pid epoch
            else ok (Some producer_refused)))"
        using Suc by (intro op_intros) (auto intro: op_intros)
      have "c1 = eng_coord e"
        using o NeedToRollback by (auto simp: init_transactional_def Let_def split: if_splits option.splits prod.splits)
      then have "and_then (txn_end env tid rpid repoch False) (\<lambda>code.
            if code = NoError then init_producer_txn fuel env tid timeout pid epoch
            else ok (Some producer_refused)) e = (Inr v, e')"
        using c o NeedToRollback by simp
      with up show ?thesis using r by (rule tripleD)
    next
      case (Completed response rec)
      have "rec = None \<and> c1 = eng_coord e \<or>
        (\<exists>i. rec = Some (PidAlloc i (Some tid) timeout) \<and> e\<lparr>eng_coord := c1\<rparr> = allocate i (Some tid) timeout e) \<or>
        (\<exists>p n. rec = Some (EpochBump tid p n timeout) \<and> e\<lparr>eng_coord := c1\<rparr> = bump tid p n timeout e)"
        using o Completed
        by (auto simp: init_transactional_def Let_def apply_pid_alloc_def apply_epoch_bump_def fresh_txn_detail_def
            split: if_splits option.splits prod.splits)
      then show ?thesis
        using c o Completed r pid_alloc.appended [OF r] epoch_bump.appended [OF r]
        by (auto dest!: and_then_ok_Inr)
    qed
  qed
qed

lemma init_producer_upholds [op_intros]: "upholds recoverable (init_producer fuel env transaction_id timeout pid epoch)"
proof -
  have "upholds recoverable (init_idempotent env pid epoch)"
  proof (rule upholdsI)
    fix e v e' assume r: "recoverable e" and c: "init_idempotent env pid epoch e = (Inr v, e')"
    then show "recoverable e'"
      using pid_alloc.appended [OF r, of env "next_producer_id (eng_coord e)" None 0]
      by (auto simp: init_idempotent_def Let_def apply_pid_alloc_def dest!: and_then_ok_Inr split: if_splits)
  qed
  then show ?thesis
    unfolding init_producer_def
    by (cases transaction_id) (auto intro!: op_intros init_producer_txn_upholds)
qed

section \<open>Snapshots\<close>

lemma wal_seqs_alt: "wal_seqs dir = sorted_list_of_fset (fmdom dir)"
  by (simp add: wal_seqs_def map_fst_entries)

lemma wal_seqs_snoc:
  "(\<And>k. k \<in> fmdom' dir \<Longrightarrow> k < sq) \<Longrightarrow> wal_seqs (fmupd sq f dir) = wal_seqs dir @ [sq]"
  by (simp add: wal_seqs_def entries_snoc)

lemma rotate_wal_disk:
  assumes "wal_order e"
  shows "wal_order (rotate_wal e)" "disk_meta (rotate_wal e) = disk_meta e"
proof -
  show w: "wal_order (rotate_wal e)"
    using assms by (auto simp: wal_order_def rotate_wal_def fmpred_iff) fastforce+
  have below: "\<And>sq. sq \<in> fmdom' (eng_retired e) \<Longrightarrow> sq < eng_wal_seq e"
    using assms by (simp add: wal_order_def)
  have fields: "snapshot_seq (rotate_wal e) = snapshot_seq e" "snapshot_meta (rotate_wal e) = snapshot_meta e"
    "eng_wal (rotate_wal e) = []" "eng_retired (rotate_wal e) = fmupd (eng_wal_seq e) (eng_wal e) (eng_retired e)"
    by (simp_all add: rotate_wal_def snapshot_seq_def snapshot_meta_def)
  have "replay_files (eng_retired (rotate_wal e)) (filter (\<lambda>sq. sq > snapshot_seq e) (wal_seqs (eng_retired e))) m =
      replay_files (eng_retired e) (filter (\<lambda>sq. sq > snapshot_seq e) (wal_seqs (eng_retired e))) m" for m
    using below by (intro replay_files_cong) (auto simp: fields wal_seqs_def)
  then show "disk_meta (rotate_wal e) = disk_meta e"
    using snapshot_seq_less [OF assms]
    by (simp add: disk_meta_alt [OF w] disk_meta_alt [OF assms] fields wal_seqs_snoc below apply_records_def [of "[]"])
      (simp add: replay_files_def)
qed

lemma rotate_wal_memory [simp]:
  "agrees m (rotate_wal e) = agrees m e" "live (rotate_wal e) = live e"
  by (simp_all add: rotate_wal_def agrees_def parts_agree_def live_def)

text \<open>The captured document restores to a state that agrees with the engine.\<close>

lemma capture_agrees:
  assumes "live e"
  shows "agrees (meta_of_doc (capture sq e)) e"
proof -
  have g: "unflatten1 (map (\<lambda>(g, d, v). (g, d, v)) (entries (eng_groups e))) = eng_groups e"
    using unflatten1_flatten1 [of "eng_groups e"] by (simp add: flatten_def)
  have o: "fold (\<lambda>(g, t, p, oc). fmupd (g, Topition t p) oc)
      (map (\<lambda>((g, tp), oc). (g, topic tp, partition tp, oc)) (entries (eng_offsets e))) fmempty = eng_offsets e"
  proof -
    have "fold (\<lambda>x. fmupd ((\<lambda>(g, t, p, oc). (g, Topition t p)) x) ((\<lambda>(g, t, p, oc). oc) x))
      (map (\<lambda>((g, tp), oc). (g, topic tp, partition tp, oc)) (entries (eng_offsets e))) fmempty = eng_offsets e"
      by (rule fold_rebuild) auto
    moreover have "(\<lambda>x. fmupd ((\<lambda>(g :: string, t, p, oc). (g, Topition t p)) x) ((\<lambda>(g, t, p, oc). oc) x)) =
        (\<lambda>(g, t, p, oc). fmupd (g, Topition t p) (oc :: offset_commit_request))"
      by (auto simp: fun_eq_iff)
    ultimately show ?thesis by simp
  qed
  have s: "fmlookup (fold (\<lambda>s. fmupd (spart_topic s, spart_partition s)
        \<lparr>sk_log_start = spart_log_start s, sk_aborted = spart_aborted s\<rparr>) (snap_partitions e) fmempty) (topic tp, partition tp) =
      map_option (\<lambda>s. \<lparr>sk_log_start = log_start s, sk_aborted = aborted s\<rparr>) (fmlookup (eng_partitions e) tp)" for tp
  proof -
    let ?k = "\<lambda>(tp, s). ((topic tp, partition tp), \<lparr>sk_log_start = log_start s, sk_aborted = aborted s\<rparr>)"
    have "fold (\<lambda>s. fmupd (spart_topic s, spart_partition s)
        \<lparr>sk_log_start = spart_log_start s, sk_aborted = spart_aborted s\<rparr>) (snap_partitions e) m =
      fold (\<lambda>(k, v). fmupd k v) (map ?k (entries (eng_partitions e))) m" for m
      by (simp add: snap_partitions_def fold_map comp_def case_prod_beta)
    moreover have keys: "distinct (map fst (map ?k (entries (eng_partitions e))))"
    proof -
      have "inj_on (\<lambda>tp. (topic tp, partition tp)) A" for A
        by (auto simp: inj_on_def topition.expand)
      then have "distinct (map (\<lambda>tp. (topic tp, partition tp)) (map fst (entries (eng_partitions e))))"
        unfolding distinct_map [of _ "map fst _"] using distinct_entries by blast
      then show ?thesis by (simp add: comp_def case_prod_beta)
    qed
    moreover have "map_of (map ?k (entries (eng_partitions e))) (topic tp, partition tp) =
      map_option (\<lambda>s. \<lparr>sk_log_start = log_start s, sk_aborted = aborted s\<rparr>) (fmlookup (eng_partitions e) tp)"
    proof (cases "fmlookup (eng_partitions e) tp")
      case None
      then have "(topic tp, partition tp) \<notin> fst ` set (map ?k (entries (eng_partitions e)))"
        by (auto dest!: topition.expand [OF conjI])
      then show ?thesis using None by (simp add: map_of_eq_None_iff)
    next
      case (Some s)
      then have "((topic tp, partition tp), \<lparr>sk_log_start = log_start s, sk_aborted = aborted s\<rparr>) \<in> set (map ?k (entries (eng_partitions e)))"
        by force
      then show ?thesis using Some map_of_is_SomeI [OF keys] by simp
    qed
    ultimately show ?thesis by (simp add: fmlookup_fold_fmupd [OF keys] split: option.splits)
  qed
  have "parts_agree (meta_of_doc (capture sq e)) e"
    unfolding parts_agree_def
    by (auto simp: meta_of_doc_def capture_def from_state_def entry_or_def s skel_view_def part_view_def
        skeleton_default_def partition_new_def split: option.splits)
  moreover have "coord (meta_of_doc (capture sq e)) = eng_coord e"
    using doc_coord_round_trip [OF live_named [OF assms]] by (simp add: meta_of_doc_def capture_def)
  moreover have "groups (meta_of_doc (capture sq e)) = eng_groups e" "group_offsets (meta_of_doc (capture sq e)) = eng_offsets e"
    using g o by (simp_all add: meta_of_doc_def capture_def from_state_def)
  ultimately show ?thesis by (simp add: agrees_def)
qed

text \<open>With the snapshot in place the files it captures are not read any more.\<close>

lemma stored_snapshot:
  assumes "wal_order e" and "doc_wal_seq doc < eng_wal_seq e" and "\<And>sq. sq \<in> fmdom' (eng_snapshots e) \<Longrightarrow> sq < doc_wal_seq doc"
    and "\<And>sq. sq \<in> fmdom' (eng_retired e) \<Longrightarrow> sq \<le> doc_wal_seq doc" and "eng_wal e = []"
  defines "e' \<equiv> e\<lparr>eng_snapshots := fmupd (doc_wal_seq doc) doc (eng_snapshots e)\<rparr>"
  shows "wal_order e'" "snapshot_seq e' = doc_wal_seq doc" "disk_meta e' = meta_of_doc doc"
proof -
  show w: "wal_order e'"
    using assms by (auto simp: wal_order_def fmpred_iff)
  have "last_entry (eng_snapshots e') = Some (doc_wal_seq doc, doc)"
    unfolding e'_def using assms(3) by (auto simp: last_entry_Some fmlookup_dom'_iff less_imp_le)
  then have n: "newest_snapshot (eng_snapshots e') = Some doc"
    by (simp add: newest_snapshot_def)
  then show q: "snapshot_seq e' = doc_wal_seq doc" by (simp add: snapshot_seq_def)
  have "filter (\<lambda>sq. sq > doc_wal_seq doc) (wal_seqs (eng_retired e')) = []"
    using assms(4) by (force simp: filter_empty_conv wal_seqs_alt e'_def fmdom'_alt_def)
  moreover have "eng_wal e' = []" by (simp add: e'_def assms(5))
  ultimately show "disk_meta e' = meta_of_doc doc"
    unfolding disk_meta_alt [OF w] q by (simp add: n snapshot_meta_def replay_files_def apply_records_def)
qed

lemma filter_wal_seqs_drop:
  "\<not> P k \<Longrightarrow> filter P (wal_seqs (fmdrop k dir)) = filter P (wal_seqs dir)"
  by (rule sorted_distinct_set_unique) (auto simp: wal_seqs_def sorted_wrt_filter)

lemma retire_wal_recoverable:
  assumes "recoverable e" and "sq \<le> snapshot_seq e"
  shows "recoverable (retire_wal env sq e) \<and> snapshot_seq (retire_wal env sq e) = snapshot_seq e"
proof -
  define e' where "e' = retire_wal env sq e"
  have fields: "eng_snapshots e' = eng_snapshots e" "eng_wal e' = eng_wal e" "eng_wal_seq e' = eng_wal_seq e"
    "eng_coord e' = eng_coord e" "eng_groups e' = eng_groups e" "eng_offsets e' = eng_offsets e"
    "eng_partitions e' = eng_partitions e"
    "eng_retired e' = eng_retired e \<or> eng_retired e' = fmdrop sq (eng_retired e)"
    by (auto simp: e'_def retire_wal_def Let_def split: io_outcome.splits)
  have w: "wal_order e'"
    using recoverableD(1) [OF assms(1)] fields by (auto simp: wal_order_def)
  have s: "snapshot_seq e' = snapshot_seq e" "snapshot_meta e' = snapshot_meta e"
    by (simp_all add: snapshot_seq_def snapshot_meta_def fields)
  have "replay_files (eng_retired e') (filter (\<lambda>q. q > snapshot_seq e) (wal_seqs (eng_retired e'))) m =
      replay_files (eng_retired e) (filter (\<lambda>q. q > snapshot_seq e) (wal_seqs (eng_retired e))) m" for m
    using fields(8)
  proof
    assume d: "eng_retired e' = fmdrop sq (eng_retired e)"
    have "filter (\<lambda>q. q > snapshot_seq e) (wal_seqs (eng_retired e')) = filter (\<lambda>q. q > snapshot_seq e) (wal_seqs (eng_retired e))"
      unfolding d using assms(2) by (intro filter_wal_seqs_drop) simp
    then show ?thesis
      using assms(2) by (auto simp: d intro!: replay_files_cong)
  qed simp
  then have "disk_meta e' = disk_meta e"
    using s fields by (simp add: disk_meta_alt [OF w] disk_meta_alt [OF recoverableD(1) [OF assms(1)]])
  then show ?thesis
    using w s recoverableD [OF assms(1)] fields
    by (simp add: recoverable_def e'_def [symmetric] agrees_def parts_agree_def live_def)
qed

lemma retire_wals_recoverable:
  assumes "recoverable e" and "sq \<le> snapshot_seq e"
  shows "recoverable (retire_wals env sq e)"
proof -
  have "recoverable (fold (retire_wal env) sqs e) \<and> snapshot_seq (fold (retire_wal env) sqs e) = snapshot_seq e"
    if "\<And>q. q \<in> set sqs \<Longrightarrow> q \<le> snapshot_seq e" for sqs
    using assms(1) that
  proof (induction sqs arbitrary: e)
    case (Cons q sqs)
    then show ?case using retire_wal_recoverable [of e q env] by simp
  qed simp
  from this [of "filter (\<lambda>q. q \<le> sq) (wal_seqs (disk_wals e))"] show ?thesis
    using assms(2) by (simp add: retire_wals_def)
qed

lemma fmlookup_fold_fmdrop: "fmlookup (fold fmdrop ks m) k = (if k \<in> set ks then None else fmlookup m k)"
  by (induction ks arbitrary: m) auto

lemma prune_newest: "last_entry (prune_snapshots dir) = last_entry dir"
proof (cases "dir = fmempty")
  case True
  then show ?thesis by (simp add: prune_snapshots_def)
next
  case False
  define sqs where "sqs = map fst (entries dir)"
  obtain k v where l: "last_entry dir = Some (k, v)" using False by (cases "last_entry dir") auto
  then obtain es where es: "entries dir = es @ [(k, v)]" using last_entry_append by blast
  have "k \<notin> set (take (length sqs - 2) sqs)"
  proof -
    have "distinct sqs" "sqs = map fst es @ [k]" by (simp_all add: sqs_def es [symmetric]) (simp add: es)
    then show ?thesis by (auto dest: in_set_takeD)
  qed
  then have "last_entry (prune_snapshots dir) = Some (k, v)"
    using l unfolding last_entry_Some
    by (auto simp: prune_snapshots_def Let_def sqs_def [symmetric] fmlookup_fold_fmdrop fmlookup_dom'_iff split: if_splits)
  then show ?thesis using l by simp
qed

lemma prune_recoverable:
  assumes "recoverable e"
  shows "recoverable (e\<lparr>eng_snapshots := prune_snapshots (eng_snapshots e)\<rparr>)"
proof -
  let ?e = "e\<lparr>eng_snapshots := prune_snapshots (eng_snapshots e)\<rparr>"
  have "fmlookup (prune_snapshots (eng_snapshots e)) k = Some v \<Longrightarrow> fmlookup (eng_snapshots e) k = Some v" for k v
    by (auto simp: prune_snapshots_def Let_def fmlookup_fold_fmdrop split: if_splits)
  then have "wal_order ?e" using recoverableD(1) [OF assms] by (auto simp: wal_order_def fmpred_iff)
  moreover have "disk_meta ?e = disk_meta e"
    by (simp add: disk_meta_def recover_meta_def newest_snapshot_def prune_newest disk_wals_def)
  ultimately show ?thesis
    using recoverableD [OF assms] by (simp add: recoverable_def agrees_def parts_agree_def live_def)
qed

lemma do_io_triple:
  assumes "\<And>e. P e \<Longrightarrow> P (tick e)" and "\<And>e. P e \<Longrightarrow> E e"
  shows "triple P (do_io env) (\<lambda>_. P) E"
  using assms by (intro tripleI) (auto simp: do_io_def split: io_outcome.splits)

definition rotated :: "nat \<Rightarrow> engine \<Rightarrow> bool" where
  "rotated sq e \<longleftrightarrow> recoverable e \<and> eng_wal_seq e = Suc sq \<and> eng_wal e = [] \<and>
     (\<forall>k \<in> fmdom' (eng_snapshots e). k < sq) \<and> (\<forall>k \<in> fmdom' (eng_retired e). k \<le> sq)"

lemma rotate_wal_rotated:
  assumes "recoverable e"
  shows "rotated (eng_wal_seq e) (rotate_wal e)"
proof -
  have "recoverable (rotate_wal e)"
    using recoverableD [OF assms] rotate_wal_disk by (simp add: recoverable_def)
  moreover have "\<forall>k \<in> fmdom' (eng_snapshots e). k < eng_wal_seq e" "\<forall>k \<in> fmdom' (eng_retired e). k < eng_wal_seq e"
    using recoverableD(1) [OF assms] by (auto simp: wal_order_def fmpred_iff fmlookup_dom'_iff)
  ultimately show ?thesis
    unfolding rotated_def by (auto simp: rotate_wal_def dest: less_imp_le)
qed

text \<open>Whichever I/O operation of a snapshot fails, the metadata on disk is that of the engine.\<close>

lemma snapshot_now_recoverable: "triple recoverable (snapshot_now env) (\<lambda>_. recoverable) recoverable"
proof -
  define body where "body sq =
     and_then (do_io env) (\<lambda>_.
      and_then (modify rotate_wal) (\<lambda>_.
      and_then (gets (capture sq)) (\<lambda>doc.
      and_then (do_io env) (\<lambda>_.
      and_then (store_snapshot env doc) (\<lambda>_.
      and_then (modify (retire_wals env sq)) (\<lambda>_.
      and_then (do_io env) (\<lambda>_.
      modify (\<lambda>e. e\<lparr>eng_snapshots := prune_snapshots (eng_snapshots e)\<rparr>))))))))" for sq
  have now: "snapshot_now env e = body (eng_wal_seq e) e" for e
    by (simp add: snapshot_now_def body_def Let_def)
  have body: "triple (\<lambda>e. recoverable e \<and> eng_wal_seq e = sq) (body sq) (\<lambda>_. recoverable) recoverable" for sq
    unfolding body_def
  proof (intro triple_and_then)
    show "triple (\<lambda>e. recoverable e \<and> eng_wal_seq e = sq) (do_io env) (\<lambda>_ e. recoverable e \<and> eng_wal_seq e = sq) recoverable"
      by (rule do_io_triple) auto
    show "triple (\<lambda>e. recoverable e \<and> eng_wal_seq e = sq) (modify rotate_wal) (\<lambda>_. rotated sq) recoverable"
      by (rule triple_modify) (use rotate_wal_rotated in blast)
    show "triple (rotated sq) (gets (capture sq))
        (\<lambda>doc e. rotated sq e \<and> doc_wal_seq doc = sq \<and> agrees (meta_of_doc doc) e) recoverable"
      by (rule tripleI) (auto simp: rotated_def recoverableD capture_agrees, simp add: capture_def from_state_def)
    show "triple (\<lambda>e. rotated sq e \<and> doc_wal_seq doc = sq \<and> agrees (meta_of_doc doc) e) (do_io env)
        (\<lambda>_ e. rotated sq e \<and> doc_wal_seq doc = sq \<and> agrees (meta_of_doc doc) e) recoverable" for doc
      by (rule do_io_triple) (auto simp: rotated_def)
    show "triple (\<lambda>e. rotated sq e \<and> doc_wal_seq doc = sq \<and> agrees (meta_of_doc doc) e) (store_snapshot env doc)
        (\<lambda>_ e. recoverable e \<and> snapshot_seq e = sq) recoverable" for doc
      unfolding store_snapshot_def
    proof (intro triple_and_then)
      show "triple (\<lambda>e. rotated sq e \<and> doc_wal_seq doc = sq \<and> agrees (meta_of_doc doc) e) (do_io env)
        (\<lambda>_ e. rotated sq e \<and> doc_wal_seq doc = sq \<and> agrees (meta_of_doc doc) e) recoverable"
        by (rule do_io_triple) (auto simp: rotated_def)
      show "triple (\<lambda>e. rotated sq e \<and> doc_wal_seq doc = sq \<and> agrees (meta_of_doc doc) e)
         (modify (\<lambda>e. e\<lparr>eng_snapshots := fmupd (doc_wal_seq doc) doc (eng_snapshots e)\<rparr>))
         (\<lambda>_ e. recoverable e \<and> snapshot_seq e = sq) recoverable"
      proof (rule triple_modify)
        fix e assume "rotated sq e \<and> doc_wal_seq doc = sq \<and> agrees (meta_of_doc doc) e"
        then have r: "rotated sq e" "doc_wal_seq doc = sq" "agrees (meta_of_doc doc) e" "recoverable e"
          by (auto simp: rotated_def)
        let ?e = "e\<lparr>eng_snapshots := fmupd (doc_wal_seq doc) doc (eng_snapshots e)\<rparr>"
        have "wal_order ?e" "snapshot_seq ?e = doc_wal_seq doc" "disk_meta ?e = meta_of_doc doc"
          using stored_snapshot [of e doc] r recoverableD(1) [OF r(4)] by (auto simp: rotated_def)
        then show "recoverable ?e \<and> snapshot_seq ?e = sq"
          using r recoverableD(2) [OF r(4)] by (simp add: recoverable_def agrees_def parts_agree_def live_def)
      qed
    qed
    show "triple (\<lambda>e. recoverable e \<and> snapshot_seq e = sq) (modify (retire_wals env sq)) (\<lambda>_. recoverable) recoverable"
      by (rule triple_modify) (use retire_wals_recoverable in blast)
    show "triple recoverable (do_io env) (\<lambda>_. recoverable) recoverable"
      by (rule do_io_triple) auto
    show "triple recoverable (modify (\<lambda>e. e\<lparr>eng_snapshots := prune_snapshots (eng_snapshots e)\<rparr>)) (\<lambda>_. recoverable) recoverable"
      by (rule triple_modify) (rule prune_recoverable)
  qed
  show ?thesis
    by (rule tripleI) (auto simp: now intro: tripleD [OF body] tripleE [OF body])
qed

end
