(* ===== verification/Boot_Spec.thy ===== *)
theory Boot_Spec
  imports Durable_Ops
begin

text \<open>
  The steps of a running engine as a relation, and what a boot from its disk restores.
\<close>

section \<open>Operations in sequence\<close>

text \<open>A step of the engine: an operation that is acknowledged, a produce or a snapshot with any outcome.\<close>

inductive acked :: "env \<Rightarrow> engine \<Rightarrow> engine \<Rightarrow> bool" for env where
  acked_produce: "produce env tid tp b e = (res, e') \<Longrightarrow> acked env e e'"
| acked_create_topic: "create_topic env t e = (Inr i, e') \<Longrightarrow> acked env e e'"
| acked_delete_topic: "delete_topic env t e = (Inr code, e') \<Longrightarrow>
    (\<And>m. find_topic (eng_coord e) t = Some m \<Longrightarrow> unproduced (topic_name (creatable m)) e) \<Longrightarrow> acked env e e'"
| acked_alter: "incremental_alter_resource env ty name alterations e = (Inr response, e') \<Longrightarrow> acked env e e'"
| acked_delete_records: "delete_records env ts e = (Inr results, e') \<Longrightarrow> acked env e e'"
| acked_upsert: "upsert_user_scram_credential env user mechanism cr e = (Inr u, e') \<Longrightarrow> acked env e e'"
| acked_drop: "delete_user_scram_credential env user mechanism e = (Inr u, e') \<Longrightarrow> acked env e e'"
| acked_offset_commit: "offset_commit env g offsets e = (Inr responses, e') \<Longrightarrow> acked env e e'"
| acked_delete_groups: "delete_groups env gs e = (Inr responses, e') \<Longrightarrow> acked env e e'"
| acked_update_group: "update_group env g detail expected e = (Inr v, e') \<Longrightarrow> acked env e e'"
| acked_init_producer: "init_producer fuel env transaction_id timeout pid epoch e = (Inr p, e') \<Longrightarrow> acked env e e'"
| acked_add_partitions: "txn_add_partitions env request e = (Inr rows, e') \<Longrightarrow> acked env e e'"
| acked_txn_offsets: "txn_offset_commit env rq e = (Inr rows, e') \<Longrightarrow> acked env e e'"
| acked_txn_end: "txn_end env tid pid epoch committed e = (Inr code, e') \<Longrightarrow> acked env e e'"
| acked_snapshot: "snapshot_now env e = (res, e') \<Longrightarrow> acked env e e'"

lemma acked_recoverable:
  assumes "acked env e e'" and "recoverable e"
  shows "recoverable e'"
  using assms
proof (induction rule: acked.induct)
  case (acked_produce tid tp b e res e')
  then show ?case
    using tripleD [OF produce_recoverable] tripleE [OF produce_recoverable] by (cases res) blast+
next
  case (acked_delete_topic t e code e')
  then show ?case using delete_topic_upholds [OF _ acked_delete_topic(1)] by blast
next
  case (acked_update_group g detail expected e v e')
  then show ?case using update_group_upholds by blast
next
  case (acked_snapshot e res e')
  then show ?case
    using tripleD [OF snapshot_now_recoverable] tripleE [OF snapshot_now_recoverable] by (cases res) blast+
qed (erule upholdsD, assumption, intro op_intros)+

lemma reachable_recoverable: "(acked env)\<^sup>*\<^sup>* e e' \<Longrightarrow> recoverable e \<Longrightarrow> recoverable e'"
  by (induction rule: rtranclp_induct) (auto intro: acked_recoverable)

section \<open>Boot\<close>

text \<open>What the scan of the segments leaves of the coordination state.\<close>

definition durable_coord :: "coord_state \<Rightarrow> (string, topic_metadata) fmap \<times> (string \<times> string, scram_credential) fmap \<times> (string, txn) fmap" where
  "durable_coord c = (topics c, scram c, fmmap strip_txn (transactions c))"

lemma durable_coord_strip: "strip_coord c = strip_coord c' \<Longrightarrow> durable_coord c = durable_coord c'"
  by (simp add: durable_coord_def strip_coord_eq_iff)

lemma resume_sequence_durable [simp]: "durable_coord (resume_sequence tp b c) = durable_coord c"
  by (simp add: durable_coord_def resume_sequence_def Let_def)

lemma rejoin_txn_durable [simp]: "durable_coord (rejoin_txn owners tp b offset fin c) = durable_coord c"
proof -
  have "strip_coord (update_txn_detail tid epoch (merge_range tp offset fin) c) = strip_coord c" for tid epoch
    by (rule strip_update_same) (simp add: merge_range_def strip_detail_def)
  then show ?thesis
    by (auto simp: rejoin_txn_def split: option.splits dest: durable_coord_strip)
qed

lemma scan_batch_keeps [op_intros]: "keeps (\<lambda>(s, c). (log_start s, aborted s, durable_coord c)) (scan_batch owners tp base sb)"
  by (auto simp: keeps_def scan_batch_def Let_def split: sum.splits)

lemma scan_file_keeps [op_intros]: "keeps (\<lambda>(s, c). (log_start s, aborted s, durable_coord c)) (scan_file crc owners tp base)"
proof -
  let ?v = "\<lambda>(s, c). (log_start s, aborted s, durable_coord c)"
  have "?v (snd (for_each (scan_batch owners tp base) found s)) = ?v s" for found s
    using keeps_for_each [of ?v "scan_batch owners tp base", OF scan_batch_keeps] unfolding keeps_def by blast
  then show ?thesis
    unfolding keeps_def scan_file_def by (simp add: Let_def case_prod_beta)
qed

lemma scan_partition_view:
  assumes "scan_partition crc tp dir sk c = Inr (s, c')" and "0 \<le> sk_log_start sk"
  shows "part_view s = skel_view sk \<and> durable_coord c' = durable_coord c"
proof -
  define s0 where "s0 = partition_new\<lparr>files := dir, log_start := sk_log_start sk, aborted := sk_aborted sk\<rparr>"
  obtain u s1 where scan: "for_each (scan_file crc (txn_by_producer c) tp) (segment_bases dir) (s0, c) = (Inr u, (s1, c'))"
    and adv: "\<exists>low. advance_log_start (log_start s1) (s1\<lparr>next_offset := max (next_offset s1) (log_start s1),
       durable_offset := max (next_offset s1) (log_start s1), log_start := 0\<rparr>) = Some (low, s)"
    using assms(1) by (auto simp: scan_partition_def Let_def s0_def split: prod.splits sum.splits option.splits)
  have "keeps (\<lambda>(s, c). (log_start s, aborted s, durable_coord c)) (for_each (scan_file crc (txn_by_producer c) tp) (segment_bases dir))"
    by (intro op_intros)
  from keepsD [OF this scan]
  have "log_start s1 = sk_log_start sk" "aborted s1 = sk_aborted sk" "durable_coord c' = durable_coord c"
    by (simp_all add: s0_def)
  then show ?thesis
    using adv assms(2) by (auto simp: advance_log_start_def Let_def high_watermark_def part_view_def skel_view_def split: if_splits)
qed

lemma scan_dirs_view:
  assumes "scan_dirs crc sks dirs (ps, c) = Inr (ps', c')" and "\<And>k. 0 \<le> sk_log_start (entry_or skeleton_default sks k)"
    and "\<And>tp s. fmlookup ps tp = Some s \<Longrightarrow> part_view s = skel_view (entry_or skeleton_default sks (topic tp, partition tp))"
  shows "durable_coord c' = durable_coord c \<and>
    (\<forall>tp s. fmlookup ps' tp = Some s \<longrightarrow> part_view s = skel_view (entry_or skeleton_default sks (topic tp, partition tp)))"
  using assms
proof (induction crc sks dirs "(ps, c)" arbitrary: ps c rule: scan_dirs.induct)
  case (1 crc sks ps c)
  then show ?case by auto
next
  case (2 crc sks tp dir rest ps c)
  obtain s c1 where s: "scan_partition crc tp dir (entry_or skeleton_default sks (topic tp, partition tp)) c = Inr (s, c1)"
    "scan_dirs crc sks rest (fmupd tp s ps, c1) = Inr (ps', c')"
    using "2.prems"(1) by (auto split: sum.splits)
  note v = scan_partition_view [OF s(1) "2.prems"(2)]
  have "part_view x = skel_view (entry_or skeleton_default sks (topic q, partition q))" if "fmlookup (fmupd tp s ps) q = Some x" for q x
    using that v "2.prems"(3) by (auto split: if_splits)
  from "2.hyps" [OF s(1) refl s(2) "2.prems"(2) this] v show ?case by simp
qed

text \<open>Every partition has the view of its skeleton.\<close>

definition skel_views :: "(string \<times> int, skeleton) fmap \<Rightarrow> (topition, partition_inner) fmap \<Rightarrow> bool" where
  "skel_views sks ps \<longleftrightarrow> (\<forall>tp s. fmlookup ps tp = Some s \<longrightarrow>
     part_view s = skel_view (entry_or skeleton_default sks (topic tp, partition tp)))"

lemma skel_views_upd:
  "skel_views sks ps \<Longrightarrow> part_view s = skel_view (entry_or skeleton_default sks (topic tp, partition tp)) \<Longrightarrow>
   skel_views sks (fmupd tp s ps)"
  by (auto simp: skel_views_def)

lemma add_skeletons_views:
  assumes "skel_views sks ps"
  shows "skel_views sks (add_skeletons sks ps)"
proof -
  have "skel_views sks (fold (\<lambda>((t, p), sk) ps'. if fmlookup ps (Topition t p) = None
      then fmupd (Topition t p) (skeleton_partition sk) ps' else ps') es ps')"
    if "set es \<subseteq> set (entries sks)" "skel_views sks ps'" for es ps'
    using that
  proof (induction es arbitrary: ps')
    case (Cons x es)
    obtain t p sk where x: "x = ((t, p), sk)" by (metis surj_pair)
    have "skel_views sks (fmupd (Topition t p) (skeleton_partition sk) ps')"
      using Cons.prems by (intro skel_views_upd) (auto simp: x entry_or_def skeleton_partition_def part_view_def skel_view_def)
    then show ?case using Cons by (simp add: x)
  qed simp
  then show ?thesis using assms by (simp add: add_skeletons_def)
qed


definition covers :: "(string \<times> int, skeleton) fmap \<Rightarrow> (topition, partition_inner) fmap \<Rightarrow> bool" where
  "covers sks ps \<longleftrightarrow> (\<forall>tp. fmlookup ps tp = None \<longrightarrow> fmlookup sks (topic tp, partition tp) = None)"

lemma add_skeletons_covers: "covers sks (add_skeletons sks ps)"
proof -
  let ?f = "\<lambda>((t, p), sk) ps'. if fmlookup ps (Topition t p) = None then fmupd (Topition t p) (skeleton_partition sk) ps' else ps'"
  have keep: "fmlookup (fold ?f es ps') tp \<noteq> None" if "fmlookup ps' tp \<noteq> None" for es ps' tp
  proof (rule fold_invariant [where Q = "\<lambda>_. True" and P = "\<lambda>m. fmlookup m tp \<noteq> None"])
    fix x and s :: "(topition, partition_inner) fmap" assume "fmlookup s tp \<noteq> None"
    then show "fmlookup (?f x s) tp \<noteq> None" by (simp add: case_prod_beta)
  qed (rule TrueI that)+
  have "fmlookup (fold ?f es ps') tp \<noteq> None"
    if mem: "((topic tp, partition tp), sk) \<in> set es" and none: "fmlookup ps tp = None" for es ps' tp sk
  proof -
    obtain as bs where es: "es = as @ ((topic tp, partition tp), sk) # bs" using split_list [OF mem] by blast
    have eq: "fold ?f es ps' = fold ?f bs (fmupd tp (skeleton_partition sk) (fold ?f as ps'))"
      using none by (simp add: es)
    show ?thesis unfolding eq by (rule keep) simp
  qed
  note present = this
  show ?thesis
    unfolding covers_def add_skeletons_def
  proof (intro allI impI)
    fix tp assume none: "fmlookup (fold ?f (entries sks) ps) tp = None"
    then have "fmlookup ps tp = None" using keep by blast
    then have "((topic tp, partition tp), sk) \<notin> set (entries sks)" for sk
      using present none by blast
    then show "fmlookup sks (topic tp, partition tp) = None" by (cases "fmlookup sks (topic tp, partition tp)") auto
  qed
qed

lemma add_topics_views:
  assumes "skel_views sks ps" and "covers sks ps"
  shows "skel_views sks (add_topics c ps)"
proof -
  define ok where "ok ps \<longleftrightarrow> skel_views sks ps \<and> covers sks ps" for ps
  have step: "ok (if fmlookup ps tp = None then fmupd tp partition_new ps else ps)" if "ok ps" for ps tp
  proof -
    have "skel_views sks (fmupd tp partition_new ps)" if "fmlookup ps tp = None"
      using \<open>ok ps\<close> that default_view by (intro skel_views_upd) (auto simp: ok_def covers_def entry_or_def)
    then show ?thesis using that by (auto simp: ok_def covers_def)
  qed
  have inner: "ok (fold (\<lambda>p ps. let tp = Topition (topic_name (creatable m)) p in
      if fmlookup ps tp = None then fmupd tp partition_new ps else ps) is ps)" if "ok ps" for m "is" ps
    unfolding Let_def by (rule fold_invariant [where Q = "\<lambda>_. True"]) (rule TrueI | rule that | erule step)+
  have "ok (add_topics c ps)"
    unfolding add_topics_def
  proof (rule fold_invariant [where Q = "\<lambda>_. True"])
    show "ok ps" using assms by (simp add: ok_def)
    show "ok ((\<lambda>(_, m) ps. fold (\<lambda>p ps. let tp = Topition (topic_name (creatable m)) p in
            if fmlookup ps tp = None then fmupd tp partition_new ps else ps)
          [0 .. num_partitions (creatable m) - 1] ps) x s)" if "ok s" for x s
      using inner [OF that] by (cases x) simp
  qed simp
  then show ?thesis by (simp add: ok_def)
qed

lemma adjust_views: "skel_views sks ps \<Longrightarrow> skel_views sks (adjust tp (\<lambda>s. s\<lparr>open_txns := f s\<rparr>) ps)"
  by (auto simp: skel_views_def part_view_def split: if_splits)

lemma pin_txn_views:
  assumes "skel_views sks ps"
  shows "skel_views sks (pin_txn x ps)"
  unfolding pin_txn_def case_prod_beta
  by (rule fold_invariant [where Q = "\<lambda>_. True"]) (rule TrueI assms | erule adjust_views)+

lemma recover_view:
  assumes "recover crc d = Inr r" and "\<And>k. 0 \<le> sk_log_start (entry_or skeleton_default (skeletons m) k)"
    and m: "m = recover_meta (disk_snapshots d) (disk_wal_files d)"
  shows "durable_coord (coord (rec_meta r)) = durable_coord (coord m)" "groups (rec_meta r) = groups m"
    "group_offsets (rec_meta r) = group_offsets m" "skel_views (skeletons m) (rec_partitions r)"
proof -
  obtain ps c where s: "scan_dirs crc (skeletons m) (entries (disk_dirs d)) (fmempty, coord m) = Inr (ps, c)"
    and r: "r = \<lparr>rec_meta = m\<lparr>coord := c\<rparr>, rec_partitions = fold pin_txn (open_details c) (add_topics c (add_skeletons (skeletons m) ps)),
       rec_wal_seq = next_wal_seq (disk_snapshots d) (disk_wal_files d), rec_in_doubt = in_doubt c\<rparr>"
    using assms(1) by (auto simp: recover_def Let_def m split: sum.splits)
  note v = scan_dirs_view [OF s assms(2)]
  show "durable_coord (coord (rec_meta r)) = durable_coord (coord m)" "groups (rec_meta r) = groups m"
    "group_offsets (rec_meta r) = group_offsets m"
    using v by (simp_all add: r)
  have "skel_views (skeletons m) ps" using v by (simp add: skel_views_def)
  then have "skel_views (skeletons m) (add_topics c (add_skeletons (skeletons m) ps))"
    by (intro add_topics_views add_skeletons_views add_skeletons_covers)
  moreover have "skel_views sks (fold pin_txn xs ps')" if "skel_views sks ps'" for sks xs ps'
    by (rule fold_invariant [where Q = "\<lambda>_. True"]) (auto intro: that pin_txn_views)
  ultimately show "skel_views (skeletons m) (rec_partitions r)" by (simp add: r)
qed

text \<open>The disk of an engine, with the segment files of its partitions.\<close>

definition disk_of :: "engine \<Rightarrow> disk" where
  "disk_of e = \<lparr>disk_snapshots = eng_snapshots e, disk_wal_files = disk_wals e, disk_dirs = fmmap files (eng_partitions e)\<rparr>"

lemma recoverable_blank: "recoverable blank_engine"
proof -
  have w: "wal_order blank_engine" by (simp add: wal_order_def blank_engine_def fmpred_iff)
  have "entries (fmupd 1 [] fmempty) = entries fmempty @ [(1 :: nat, [] :: wal_record list)]"
    by (rule entries_snoc) simp
  then have "disk_meta blank_engine = meta_default"
    by (simp add: disk_meta_def recover_meta_def newest_snapshot_def blank_engine_def disk_wals_def wal_seqs_def
        apply_records_def Let_def)
  then show ?thesis
    using w default_view
    by (simp add: recoverable_def agrees_def parts_agree_def meta_default_def blank_engine_def live_def topics_named_def
        coord_default_def txn_detail_of_def)
qed


text \<open>The witness: a topic, a credential, a batch, and a boot.\<close>

definition demo_topic :: creatable_topic where
  "demo_topic = \<lparr>topic_name = ''t'', num_partitions = 1, replication_factor = 1, assignments = None, configs = None\<rparr>"

definition demo_engine :: engine where
  "demo_engine = snd (produce plain_env None (Topition ''t'' 0) tiny_batch
     (snd (upsert_user_scram_credential plain_env ''u'' ''m'' \<lparr>salt = [], iterations = 1, stored_key = [], server_key = []\<rparr>
       (snd (create_topic plain_env demo_topic blank_engine)))))"

lemma demo_run: "(acked plain_env)\<^sup>*\<^sup>* blank_engine demo_engine"
proof -
  let ?cr = "\<lparr>salt = [], iterations = 1, stored_key = [], server_key = []\<rparr>"
  let ?e1 = "snd (create_topic plain_env demo_topic blank_engine)"
  let ?e2 = "snd (upsert_user_scram_credential plain_env ''u'' ''m'' ?cr ?e1)"
  have "fst (create_topic plain_env demo_topic blank_engine) = Inr 0" by code_simp
  from acked_create_topic [OF fst_snd_eq [OF this]] have 1: "acked plain_env blank_engine ?e1" .
  have "fst (upsert_user_scram_credential plain_env ''u'' ''m'' ?cr ?e1) = Inr ()" by code_simp
  from acked_upsert [OF fst_snd_eq [OF this]] have 2: "acked plain_env ?e1 ?e2" .
  have 3: "acked plain_env ?e2 demo_engine"
    unfolding demo_engine_def by (rule acked_produce [OF surjective_pairing])
  from 1 2 3 show ?thesis by (meson converse_rtranclp_into_rtranclp rtranclp.rtrancl_refl)
qed


end
