(* ===== verification/Engine_Read.thy ===== *)
theory Engine_Read
  imports Produce_Spec
begin

text \<open>
  The read side of \<open>tansu-storage/src/nvme/mod.rs\<close>: \<open>fetch\<close>, \<open>offset_stage\<close>, \<open>aborted_transactions\<close> and
  \<open>list_offsets\<close>, and the ranged read of a tiered batch (\<open>TierStore::read_batch\<close> of \<open>tier.rs\<close>).  The
  ranged \<open>GET\<close> of the object store is the parameter \<open>tier\<close>; \<open>None\<close> is an engine without a tier.
  The wait of \<open>fetch\<close> for the high watermark is the list of the partition's states at the wake-ups
  before the deadline.
\<close>

datatype isolation_level = ReadUncommitted | ReadCommitted

type_synonym tier_get = "topition \<Rightarrow> int \<Rightarrow> nat \<Rightarrow> nat \<Rightarrow> error + bytes"

fun read_limit :: "isolation_level \<Rightarrow> partition_inner \<Rightarrow> int" where
  "read_limit ReadCommitted s = last_stable s"
| "read_limit ReadUncommitted s = high_watermark s"

section \<open>Fetch\<close>

text \<open>The batch that starts before the fetch offset and reaches it.\<close>

definition straddling_batch :: "int \<Rightarrow> partition_inner \<Rightarrow> (int \<times> batch_entry) list" where
  "straddling_batch offset s =
     (case last_entry (fmfilter (\<lambda>base. base < offset) (batches s)) of
        None \<Rightarrow> []
      | Some (base, x) \<Rightarrow>
          if fmlookup (batches s) offset = None \<and> entry_end base x \<ge> offset \<and> base \<ge> log_start s
          then [(base, x)] else [])"

text \<open>The size budget: at least one batch, and none after the one that exceeds it.\<close>

fun take_budget :: "nat \<Rightarrow> (int \<times> batch_entry) list \<Rightarrow> (int \<times> batch_entry) list" where
  "take_budget budget [] = []"
| "take_budget budget ((base, x) # rest) =
     (base, x) # (if entry_len x > budget then [] else take_budget (budget - entry_len x) rest)"

definition wanted_batches :: "int \<Rightarrow> nat \<Rightarrow> isolation_level \<Rightarrow> partition_inner \<Rightarrow> (int \<times> batch_entry) list" where
  "wanted_batches offset max_bytes isolation s =
     (let limit = read_limit isolation s in
      if offset < limit then
        straddling_batch offset s @
        take_budget max_bytes (entries (fmfilter (\<lambda>base. offset \<le> base \<and> base < limit) (batches s)))
      else [])"

datatype pending = Cached int bytes | Disk int int nat nat | Remote int int nat nat

definition plan_read :: "int \<times> batch_entry \<Rightarrow> (partition_inner, pending) op" where
  "plan_read = (\<lambda>(base, x).
     case entry_cached x of
       Some bytes \<Rightarrow> ok (Cached base bytes)
     | None \<Rightarrow>
         if entry_tiered x then ok (Remote base (entry_segment x) (entry_position x) (entry_len x))
         else and_then (read_handle (entry_segment x))
                (\<lambda>handle. ok (Disk base handle (entry_position x) (entry_len x))))"

fun plan_reads :: "(int \<times> batch_entry) list \<Rightarrow> (partition_inner, pending list) op" where
  "plan_reads [] = ok []"
| "plan_reads (w # ws) = and_then (plan_read w) (\<lambda>p. and_then (plan_reads ws) (\<lambda>ps. ok (p # ps)))"

definition tier_read_batch :: "crc \<Rightarrow> tier_get \<Rightarrow> topition \<Rightarrow> int \<Rightarrow> nat \<Rightarrow> nat \<Rightarrow> error + bytes" where
  "tier_read_batch crc get tp base pos len =
     (case get tp base pos (pos + len) of
        Inl err \<Rightarrow> Inl err
      | Inr framed \<Rightarrow>
          (case decode crc framed of
             Frame f \<Rightarrow>
               if frame_type f = Batch then
                 if length (payload f) < 8 then Inl (Message ''nvme tier: short batch payload'')
                 else Inr (drop 8 (payload f))
               else Inl (Message ''nvme tier: bad frame'')
           | Torn \<Rightarrow> Inl (Message ''nvme tier: bad frame'')))"

text \<open>The bytes of one planned read, and the batch decoded from them with its assigned offset.\<close>

fun pending_bytes :: "crc \<Rightarrow> tier_get option \<Rightarrow> topition \<Rightarrow> (int, bytes) fmap \<Rightarrow> pending \<Rightarrow> error + int \<times> bytes" where
  "pending_bytes crc tier tp fs (Cached base bs) = Inr (base, bs)"
| "pending_bytes crc tier tp fs (Disk base handle pos len) =
     (case fmlookup fs handle of
        None \<Rightarrow> Inl (Message ''nvme segment pread'')
      | Some f \<Rightarrow> (case read_batch_at crc f pos len of Inl err \<Rightarrow> Inl err | Inr bs \<Rightarrow> Inr (base, bs)))"
| "pending_bytes crc tier tp fs (Remote base seg pos len) =
     (case tier of
        None \<Rightarrow> Inl (Message ''nvme: tiered batch without a tier'')
      | Some get \<Rightarrow> (case tier_read_batch crc get tp seg pos len of Inl err \<Rightarrow> Inl err | Inr bs \<Rightarrow> Inr (base, bs)))"

definition fetched_batch :: "error + int \<times> bytes \<Rightarrow> error + deflated_batch" where
  "fetched_batch r =
     (case r of
        Inl err \<Rightarrow> Inl err
      | Inr (base, bs) \<Rightarrow>
          (case batch_try_from bs of Inl err \<Rightarrow> Inl err | Inr b \<Rightarrow> Inr (b\<lparr>b_base_offset := base\<rparr>)))"

fun all_results :: "(error + 'a) list \<Rightarrow> error + 'a list" where
  "all_results [] = Inr []"
| "all_results (Inl err # _) = Inl err"
| "all_results (Inr x # rs) = (case all_results rs of Inl err \<Rightarrow> Inl err | Inr xs \<Rightarrow> Inr (x # xs))"

text \<open>One turn of the loop: \<open>Inr []\<close> means nothing is readable yet.\<close>

definition fetch_turn ::
    "crc \<Rightarrow> tier_get option \<Rightarrow> topition \<Rightarrow> int \<Rightarrow> nat \<Rightarrow> isolation_level \<Rightarrow>
     (partition_inner, deflated_batch list) op" where
  "fetch_turn crc tier tp offset max_bytes isolation s =
     (case plan_reads (wanted_batches offset max_bytes isolation s) s of
        (Inl err, s') \<Rightarrow> (Inl err, s')
      | (Inr ps, s') \<Rightarrow> (all_results (map (fetched_batch \<circ> pending_bytes crc tier tp (files s')) ps), s'))"

text \<open>The loop over the states at the wake-ups; the empty list is the deadline.\<close>

fun fetch_loop ::
    "crc \<Rightarrow> tier_get option \<Rightarrow> topition \<Rightarrow> int \<Rightarrow> nat \<Rightarrow> isolation_level \<Rightarrow> partition_inner list \<Rightarrow>
     (partition_inner, deflated_batch list) op" where
  "fetch_loop crc tier tp offset max_bytes isolation wakes s =
     (case fetch_turn crc tier tp offset max_bytes isolation s of
        (Inr [], s') \<Rightarrow> (case wakes of [] \<Rightarrow> (Inr [], s')
            | w # ws \<Rightarrow> fetch_loop crc tier tp offset max_bytes isolation ws w)
      | (res, s') \<Rightarrow> (res, s'))"

definition fetch ::
    "env \<Rightarrow> tier_get option \<Rightarrow> topition \<Rightarrow> int \<Rightarrow> nat \<Rightarrow> isolation_level \<Rightarrow> partition_inner list \<Rightarrow>
     deflated_batch list eop" where
  "fetch env tier tp offset max_bytes isolation wakes e =
     (case partition_if_exists tp e of
        None \<Rightarrow> (Inr [], e)
      | Some s \<Rightarrow>
          (case fetch_loop (env_crc env) tier tp offset max_bytes isolation wakes s of
             (res, s') \<Rightarrow> (res, set_partition tp s' e)))"

section \<open>Offsets\<close>

record offset_stage_response =
  os_last_stable :: int
  os_high_watermark :: int
  os_log_start :: int

definition offset_stage :: "topition \<Rightarrow> engine \<Rightarrow> offset_stage_response" where
  "offset_stage tp e =
     (case partition_if_exists tp e of
        None \<Rightarrow> \<lparr>os_last_stable = 0, os_high_watermark = 0, os_log_start = 0\<rparr>
      | Some s \<Rightarrow> \<lparr>os_last_stable = last_stable s, os_high_watermark = high_watermark s, os_log_start = log_start s\<rparr>)"

record aborted_transaction =
  at_producer_id :: int
  at_first_offset :: int

definition aborted_transactions :: "topition \<Rightarrow> int \<Rightarrow> engine \<Rightarrow> aborted_transaction list" where
  "aborted_transactions tp fetch_offset e =
     (case partition_if_exists tp e of
        None \<Rightarrow> []
      | Some s \<Rightarrow> sort_key at_first_offset
          (map (\<lambda>r. \<lparr>at_producer_id = aborted_producer r, at_first_offset = aborted_start r\<rparr>)
            (filter (\<lambda>r. aborted_end r \<ge> fetch_offset) (aborted s))))"

datatype list_offset = Earliest | Latest | Timestamp system_time

record list_offset_response =
  lo_error_code :: error_code
  lo_timestamp :: "system_time option"
  lo_offset :: "int option"

definition timestamp_to_system_time :: "int \<Rightarrow> system_time option" where
  "timestamp_to_system_time t = (if t < 0 then None else Some t)"

definition first_in :: "(int \<times> batch_entry) list \<Rightarrow> (int \<times> batch_entry) option" where
  "first_in xs = (case xs of [] \<Rightarrow> None | x # _ \<Rightarrow> Some x)"

text \<open>
  \<open>BTreeMap::range\<close> panics when its start is above its end: \<open>Inl Panic\<close> below.
\<close>

fun list_offset_of :: "isolation_level \<Rightarrow> list_offset \<Rightarrow> partition_inner \<Rightarrow> error + list_offset_response" where
  "list_offset_of isolation Earliest s =
     Inr \<lparr>lo_error_code = NoError,
      lo_timestamp = Option.bind (first_in (entries (fmfilter (\<lambda>b. b \<ge> log_start s) (batches s))))
        (\<lambda>(_, x). timestamp_to_system_time (entry_max_timestamp x)),
      lo_offset = Some (log_start s)\<rparr>"
| "list_offset_of isolation Latest s =
     Inr \<lparr>lo_error_code = NoError,
      lo_timestamp = Option.bind (last_entry (fmfilter (\<lambda>b. b < read_limit isolation s) (batches s)))
        (\<lambda>(_, x). timestamp_to_system_time (entry_max_timestamp x)),
      lo_offset = Some (read_limit isolation s)\<rparr>"
| "list_offset_of isolation (Timestamp want) s =
     (if log_start s > read_limit isolation s then Inl Panic
      else
        let found = find (\<lambda>(_, x). case timestamp_to_system_time (entry_max_timestamp x) of None \<Rightarrow> False
                | Some t \<Rightarrow> t \<ge> want)
              (entries (fmfilter (\<lambda>b. log_start s \<le> b \<and> b < read_limit isolation s) (batches s)))
        in Inr \<lparr>lo_error_code = NoError,
            lo_timestamp = Option.bind found (\<lambda>(_, x). timestamp_to_system_time (entry_max_timestamp x)),
            lo_offset = (case found of None \<Rightarrow> Some 0 | Some (base, _) \<Rightarrow> Some base)\<rparr>)"

definition list_offset_at ::
    "isolation_level \<Rightarrow> engine \<Rightarrow> topition \<times> list_offset \<Rightarrow> error + topition \<times> list_offset_response" where
  "list_offset_at isolation e = (\<lambda>(tp, request).
     case (case partition_if_exists tp e of
             None \<Rightarrow> Inr \<lparr>lo_error_code = NoError, lo_timestamp = None, lo_offset = Some 0\<rparr>
           | Some s \<Rightarrow> list_offset_of isolation request s) of
       Inl err \<Rightarrow> Inl err
     | Inr response \<Rightarrow> Inr (tp, response))"

definition list_offsets ::
    "isolation_level \<Rightarrow> (topition \<times> list_offset) list \<Rightarrow> engine \<Rightarrow> error + (topition \<times> list_offset_response) list" where
  "list_offsets isolation requests e = all_results (map (list_offset_at isolation e) requests)"

end
