(* ===== verification/Read_Spec.thy ===== *)
theory Read_Spec
  imports Engine_Read
begin

text \<open>
  What a consumer reads: \<open>fetch\<close> against the log, and a produce followed by a fetch.
\<close>

section \<open>The batches of a fetch\<close>

text \<open>The batches below the limit of the isolation level that reach the offset, in log order.\<close>

definition readable :: "int \<Rightarrow> isolation_level \<Rightarrow> partition_inner \<Rightarrow> (int \<times> batch_entry) list" where
  "readable offset isolation s =
     (if offset < read_limit isolation s
      then filter (\<lambda>(b, x). offset \<le> entry_end b x \<and> b < read_limit isolation s) (entries (batches s)) else [])"

lemma take_budget_prefix: "\<exists>k. take_budget budget xs = take k xs \<and> (xs \<noteq> [] \<longrightarrow> 0 < k)"
proof (induction budget xs rule: take_budget.induct)
  case (2 budget b x rest)
  show ?case
  proof (cases "entry_len x > budget")
    case True
    then show ?thesis by (intro exI [of _ 1]) simp
  next
    case False
    with 2 obtain k where "take_budget (budget - entry_len x) rest = take k rest" by blast
    with False show ?thesis by (intro exI [of _ "Suc k"]) simp
  qed
qed simp

lemma entries_le_split:
  "entries m = entries (fmfilter (\<lambda>k. k < b) m) @ entries (fmfilter (\<lambda>k. b \<le> k) m)" for b :: "'a::linorder"
proof (rule entries_unique)
  show "sorted (map fst (entries (fmfilter (\<lambda>k. k < b) m) @ entries (fmfilter (\<lambda>k. b \<le> k) m)))"
    by (auto simp: sorted_append fmlookup_dom'_iff split: if_splits)
  show "distinct (map fst (entries (fmfilter (\<lambda>k. k < b) m) @ entries (fmfilter (\<lambda>k. b \<le> k) m)))"
    by (auto simp: fmlookup_dom'_iff split: if_splits)
qed auto

text \<open>Below the offset, only the last batch can reach it.\<close>

lemma reaching_below:
  assumes "batches_ok s"
  shows "filter (\<lambda>(b, x). offset \<le> entry_end b x) (entries (fmfilter (\<lambda>b. b < offset) (batches s))) =
    (case last_entry (fmfilter (\<lambda>b. b < offset) (batches s)) of None \<Rightarrow> []
     | Some (b, x) \<Rightarrow> if offset \<le> entry_end b x then [(b, x)] else [])"
proof (cases "last_entry (fmfilter (\<lambda>b. b < offset) (batches s))")
  case None
  then have "fmfilter (\<lambda>b. b < offset) (batches s) = fmempty" by simp
  then show ?thesis using None by simp
next
  case (Some p)
  obtain b x where p: "p = (b, x)" by (cases p)
  from last_entry_append [OF Some] obtain es
    where es: "entries (fmfilter (\<lambda>b. b < offset) (batches s)) = es @ [(b, x)]" unfolding p by blast
  have last: "fmlookup (batches s) b = Some x" "b < offset"
    using Some [unfolded p last_entry_Some] by (auto split: if_splits)
  have "\<not> offset \<le> entry_end b' x'" if "(b', x') \<in> set es" for b' x'
  proof -
    have "(b', x') \<in> set (entries (fmfilter (\<lambda>b. b < offset) (batches s)))" using that es by simp
    then have l': "fmlookup (batches s) b' = Some x'" by (simp split: if_splits)
    have "distinct (map fst (es @ [(b, x)]))" "sorted (map fst (es @ [(b, x)]))"
      using distinct_entries sorted_entries unfolding es [symmetric] by blast+
    then have "b' < b"
      using that by (force simp: sorted_append order_le_less)
    from batches_ok_gap [OF assms l' last(1) this] last(2) show ?thesis by simp
  qed
  then have "filter (\<lambda>(b, x). offset \<le> entry_end b x) es = []"
    by (auto simp: filter_empty_conv)
  then show ?thesis by (simp add: Some p es)
qed

lemma readable_split:
  assumes "batches_ok s" and "offset < read_limit isolation s"
    and "\<And>b x. fmlookup (batches s) b = Some x \<Longrightarrow> offset \<le> entry_end b x \<Longrightarrow> log_start s \<le> b"
  shows "readable offset isolation s = straddling_batch offset s @
    entries (fmfilter (\<lambda>b. offset \<le> b \<and> b < read_limit isolation s) (batches s))"
proof -
  let ?limit = "read_limit isolation s"
  have above: "filter (\<lambda>(b, x). offset \<le> entry_end b x \<and> b < ?limit) (entries (fmfilter (\<lambda>b. offset \<le> b) (batches s))) =
      entries (fmfilter (\<lambda>b. offset \<le> b \<and> b < ?limit) (batches s))"
  proof (rule entries_unique [symmetric])
    fix b x
    show "((b, x) \<in> set (filter (\<lambda>(b, x). offset \<le> entry_end b x \<and> b < ?limit) (entries (fmfilter (\<lambda>b. offset \<le> b) (batches s))))) =
        (fmlookup (fmfilter (\<lambda>b. offset \<le> b \<and> b < ?limit) (batches s)) b = Some x)"
      using batches_okD(4) [OF assms(1), of b x] by auto
  qed (simp_all add: sorted_filter distinct_map_filter)
  have "filter (\<lambda>(b, x). offset \<le> entry_end b x \<and> b < ?limit) (entries (fmfilter (\<lambda>b. b < offset) (batches s))) =
      filter (\<lambda>(b, x). offset \<le> entry_end b x) (entries (fmfilter (\<lambda>b. b < offset) (batches s)))"
    using assms(2) by (intro filter_cong) (auto split: if_splits)
  also have "\<dots> = straddling_batch offset s"
  proof (cases "last_entry (fmfilter (\<lambda>b. b < offset) (batches s))")
    case None
    then show ?thesis by (simp add: reaching_below [OF assms(1)] straddling_batch_def)
  next
    case (Some p)
    obtain b x where p: "p = (b, x)" by (cases p)
    have l: "fmlookup (batches s) b = Some x" "b < offset"
      using Some [unfolded p last_entry_Some] by (auto split: if_splits)
    have "fmlookup (batches s) offset = None" if "offset \<le> entry_end b x"
      using batches_ok_gap [OF assms(1) l(1) _ l(2)] that by (cases "fmlookup (batches s) offset") force+
    then show ?thesis
      using Some p assms(3) [OF l(1)] by (auto simp: reaching_below [OF assms(1)] straddling_batch_def)
  qed
  finally show ?thesis
    using assms(2) above unfolding readable_def by (subst entries_le_split [of _ offset]) simp
qed

lemma wanted_prefix:
  assumes "batches_ok s"
    and "\<And>b x. fmlookup (batches s) b = Some x \<Longrightarrow> offset \<le> entry_end b x \<Longrightarrow> log_start s \<le> b"
  shows "\<exists>k. wanted_batches offset max_bytes isolation s = take k (readable offset isolation s) \<and>
    (readable offset isolation s \<noteq> [] \<longrightarrow> 0 < k)"
proof (cases "offset < read_limit isolation s")
  case True
  let ?above = "entries (fmfilter (\<lambda>b. offset \<le> b \<and> b < read_limit isolation s) (batches s))"
  obtain k where k: "take_budget max_bytes ?above = take k ?above" "?above \<noteq> [] \<longrightarrow> 0 < k"
    using take_budget_prefix by blast
  have "wanted_batches offset max_bytes isolation s =
      take (length (straddling_batch offset s) + k) (readable offset isolation s)"
    using True k(1) by (simp add: wanted_batches_def readable_split [OF assms(1) True assms(2)])
  moreover have "0 < length (straddling_batch offset s) + k" if "readable offset isolation s \<noteq> []"
    using that k(2) by (auto simp: readable_split [OF assms(1) True assms(2)])
  ultimately show ?thesis by blast
next
  case False
  then show ?thesis by (intro exI [of _ 0]) (simp add: wanted_batches_def readable_def)
qed

section \<open>The bytes of a fetch\<close>

definition stored_batch :: "crc \<Rightarrow> (int, bytes) fmap \<Rightarrow> int \<times> batch_entry \<Rightarrow> error + deflated_batch" where
  "stored_batch crc fs = (\<lambda>(b, x). fetched_batch (map_sum id (Pair b) (stored_bytes crc fs x)))"

lemma read_handle_stored:
  assumes "fmlookup (files s) base = Some fl"
  shows "\<exists>r. read_handle base s = (Inr base, s\<lparr>read_files := r\<rparr>)"
proof (cases "(case seg_writer s of Some w \<Rightarrow> writer_base w = base | None \<Rightarrow> False) \<or> base |\<in>| read_files s")
  case True
  then have "read_handle base s = (Inr base, s\<lparr>read_files := read_files s\<rparr>)"
    by (auto simp: read_handle_def)
  then show ?thesis by blast
next
  case False
  then show ?thesis using assms by (auto simp: read_handle_def)
qed

lemma plan_reads_stored:
  assumes "\<And>b x. (b, x) \<in> set ws \<Longrightarrow> stored crc (files s) x"
  shows "\<exists>ps s'. plan_reads ws s = (Inr ps, s') \<and> files s' = files s \<and> (\<exists>r. s' = s\<lparr>read_files := r\<rparr>) \<and>
    map (fetched_batch \<circ> pending_bytes crc tier tp (files s)) ps = map (stored_batch crc (files s)) ws"
  using assms
proof (induction ws arbitrary: s)
  case Nil
  have "s = s\<lparr>read_files := read_files s\<rparr>" by simp
  then show ?case by (auto intro: exI [of _ "read_files s"])
next
  case (Cons w ws)
  obtain b x where w: "w = (b, x)" by (cases w)
  have st: "stored crc (files s) x" using Cons.prems w by auto
  then obtain bs fl where bs: "stored_bytes crc (files s) x = Inr bs" "fmlookup (files s) (entry_segment x) = Some fl"
    "read_batch_at crc fl (entry_position x) (entry_len x) = Inr bs"
    "entry_cached x = None \<or> entry_cached x = Some bs" "\<not> entry_tiered x"
    by (auto simp: stored_def stored_bytes_def split: option.splits sum.splits)
  obtain p s1 where p: "plan_read w s = (Inr p, s1)" "files s1 = files s" "\<exists>r. s1 = s\<lparr>read_files := r\<rparr>"
    "fetched_batch (pending_bytes crc tier tp (files s) p) = stored_batch crc (files s) w"
  proof (cases "entry_cached x")
    case (Some c)
    with bs have "c = bs" by simp
    show ?thesis
      by (rule that [of "Cached b bs" s])
        (use Some bs w \<open>c = bs\<close> in \<open>auto simp: plan_read_def stored_batch_def intro: exI [of _ "read_files s"]\<close>)
  next
    case None
    obtain r where r: "read_handle (entry_segment x) s = (Inr (entry_segment x), s\<lparr>read_files := r\<rparr>)"
      using read_handle_stored [OF bs(2)] by blast
    show ?thesis
      by (rule that [of "Disk b (entry_segment x) (entry_position x) (entry_len x)" "s\<lparr>read_files := r\<rparr>"])
        (use None bs w r in \<open>auto simp: plan_read_def stored_batch_def and_then_def\<close>)
  qed
  have "\<exists>ps s'. plan_reads ws s1 = (Inr ps, s') \<and> files s' = files s1 \<and> (\<exists>r. s' = s1\<lparr>read_files := r\<rparr>) \<and>
      map (fetched_batch \<circ> pending_bytes crc tier tp (files s1)) ps = map (stored_batch crc (files s1)) ws"
    by (rule Cons.IH) (use Cons.prems p(2) in auto)
  then obtain ps s2 where ps: "plan_reads ws s1 = (Inr ps, s2)" "files s2 = files s1"
    "\<exists>r. s2 = s1\<lparr>read_files := r\<rparr>"
    "map (fetched_batch \<circ> pending_bytes crc tier tp (files s1)) ps = map (stored_batch crc (files s1)) ws" by blast
  obtain r1 r2 where "s1 = s\<lparr>read_files := r1\<rparr>" "s2 = s1\<lparr>read_files := r2\<rparr>" using p(3) ps(3) by blast
  then have "s2 = s\<lparr>read_files := r2\<rparr>" by simp
  moreover have "plan_reads (w # ws) s = (Inr (p # ps), s2)" using p(1) ps(1) by (simp add: and_then_def)
  moreover have "map (fetched_batch \<circ> pending_bytes crc tier tp (files s)) (p # ps) = map (stored_batch crc (files s)) (w # ws)"
    using p(2,4) ps(4) by simp
  moreover have "files s2 = files s" using p(2) ps(2) by simp
  ultimately show ?case by blast
qed

lemma fetch_turn_reads:
  assumes "part_inv s" and "store_ok crc s"
    and "\<And>b x. fmlookup (batches s) b = Some x \<Longrightarrow> offset \<le> entry_end b x \<Longrightarrow> log_start s \<le> b"
  shows "\<exists>k r. (readable offset isolation s \<noteq> [] \<longrightarrow> 0 < k) \<and>
    fetch_turn crc tier tp offset max_bytes isolation s =
      (all_results (map (stored_batch crc (files s)) (take k (readable offset isolation s))), s\<lparr>read_files := r\<rparr>)"
proof -
  have bok: "batches_ok s" using assms(1) by (simp add: part_inv_def)
  obtain k where k: "wanted_batches offset max_bytes isolation s = take k (readable offset isolation s)"
    "readable offset isolation s \<noteq> [] \<longrightarrow> 0 < k"
    using wanted_prefix [of s offset max_bytes isolation] bok assms(3) by blast
  have st: "stored crc (files s) x" if "(b, x) \<in> set (wanted_batches offset max_bytes isolation s)" for b x
  proof -
    have "(b, x) \<in> set (readable offset isolation s)" using that k(1) in_set_takeD by metis
    then have "fmlookup (batches s) b = Some x" by (auto simp: readable_def split: if_splits)
    then show ?thesis using assms(2) by (auto simp: store_ok_def fmpred_iff)
  qed
  have "\<exists>ps s'. plan_reads (wanted_batches offset max_bytes isolation s) s = (Inr ps, s') \<and> files s' = files s \<and>
      (\<exists>r. s' = s\<lparr>read_files := r\<rparr>) \<and> map (fetched_batch \<circ> pending_bytes crc tier tp (files s)) ps =
        map (stored_batch crc (files s)) (wanted_batches offset max_bytes isolation s)"
    by (rule plan_reads_stored) (rule st)
  then obtain ps s' r where "plan_reads (wanted_batches offset max_bytes isolation s) s = (Inr ps, s')" "files s' = files s"
    "s' = s\<lparr>read_files := r\<rparr>"
    "map (fetched_batch \<circ> pending_bytes crc tier tp (files s)) ps =
      map (stored_batch crc (files s)) (wanted_batches offset max_bytes isolation s)"
    by blast
  then show ?thesis
    using k by (intro exI [of _ k] exI [of _ r]) (simp add: fetch_turn_def)
qed


definition read_tp :: topition where
  "read_tp = Topition ''t'' 0"

definition read_engine :: engine where
  "read_engine = snd (produce plain_env None read_tp tiny_batch blank_engine)"

lemma read_engine_produced: "produce plain_env None read_tp tiny_batch blank_engine = (Inr 0, read_engine)"
proof -
  have "fst (produce plain_env None read_tp tiny_batch blank_engine) = Inr 0"
    by code_simp
  then show ?thesis unfolding read_engine_def by (rule fst_snd_eq)
qed

lemma blank_engine_ok:
  "eng_inv blank_engine" "eng_store (env_crc plain_env) blank_engine"
  "seg_good (next_offset (part_at blank_engine read_tp), batch_bytes tiny_batch)"
  by (simp_all add: eng_inv_def eng_store_def seg_good_def blank_engine_def partition_new_def batch_bytes_def
      tiny_batch_def fits_signed_def)


text \<open>A batch at the end of the log is the only one that reaches its offset.\<close>

lemma readable_last:
  assumes "batches_ok s" and "fmlookup (batches s) offset = Some x" and "next_offset s = entry_end offset x + 1"
    and "offset < read_limit isolation s"
  shows "readable offset isolation s = [(offset, x)]"
proof -
  have only: "b = offset \<and> y = x" if "fmlookup (batches s) b = Some y" "offset \<le> entry_end b y" for b y
  proof (cases b offset rule: linorder_cases)
    case less
    from batches_ok_gap [OF assms(1) that(1) assms(2) less] that(2) show ?thesis by simp
  next
    case equal
    with that(1) assms(2) show ?thesis by simp
  next
    case greater
    from batches_ok_gap [OF assms(1,2) that(1) greater] batches_okD(5) [OF assms(1) that(1)] assms(3)
    show ?thesis by simp
  qed
  have "entries (fmfilter (\<lambda>b. b = offset) (batches s)) = [(offset, x)]"
    by (rule entries_unique) (use assms(2) in auto)
  moreover have "filter (\<lambda>(b, x). offset \<le> entry_end b x \<and> b < read_limit isolation s) (entries (batches s)) =
      filter (\<lambda>(b, _). b = offset) (entries (batches s))"
  proof (rule filter_cong [OF refl])
    fix p assume "p \<in> set (entries (batches s))"
    moreover obtain b y where p: "p = (b, y)" by (cases p)
    ultimately have l: "fmlookup (batches s) b = Some y" by simp
    show "(case p of (b, x) \<Rightarrow> offset \<le> entry_end b x \<and> b < read_limit isolation s) = (case p of (b, _) \<Rightarrow> b = offset)"
    proof (cases "b = offset")
      case True
      then show ?thesis using batches_okD(4) [OF assms(1) l] assms(4) by (simp add: p)
    next
      case False
      then have "\<not> offset \<le> entry_end b y" using only [OF l] by blast
      with False show ?thesis by (simp add: p)
    qed
  qed
  ultimately show ?thesis
    using assms(4) by (simp add: readable_def entries_fmfilter)
qed

text \<open>C2: A produced batch is fetched.  After a produce of a well-formed batch is acknowledged with an offset, a fetch at that
  offset by a consumer whose isolation level has the offset below its limit (always so for read uncommitted) returns exactly
  that batch, with the offset as its base offset.\<close>

theorem produce_then_fetch:
  assumes "produce env tid tp b e = (Inr offset, e')" and "eng_inv e" and "eng_store (env_crc env) e"
    and "seg_good (next_offset (part_at e tp), batch_bytes b)" and "batch_wf b" and "0 \<le> b_last_offset_delta b"
    and "isolation = ReadUncommitted \<or> offset < last_stable (part_at e' tp)"
  shows "fst (fetch env tier tp offset max_bytes isolation wakes e') = Inr [b\<lparr>b_base_offset := offset\<rparr>]"
proof -
  let ?s = "part_at e' tp"
  note acked = produce_acked_at [OF assms(1,2,3,6,4)]
  from acked(4) obtain x where x: "fmlookup (batches ?s) offset = Some x" "entry_delta x = b_last_offset_delta b"
    "stored_bytes (env_crc env) (files ?s) x = Inr (batch_bytes b)" by blast
  have pinv: "part_inv ?s" and sok: "store_ok (env_crc env) ?s"
    by (rule eng_inv_at [OF acked(6)], rule eng_store_at [OF acked(7)])
  then have bok: "batches_ok ?s" by (simp add: part_inv_def)
  have limit: "offset < read_limit isolation ?s"
    using assms(6,7) acked(3) by (cases isolation) auto
  have last: "next_offset ?s = entry_end offset x + 1"
    using acked(2) x(2) by (simp add: entry_end_def)
  note only = readable_last [OF bok x(1) last limit]
  have "log_start ?s \<le> offset"
    using eng_inv_at [OF assms(2), of tp] acked(1,8) by (simp add: part_inv_defs)
  then have start: "log_start ?s \<le> b'" if "fmlookup (batches ?s) b' = Some x'" "offset \<le> entry_end b' x'" for b' x'
    using batches_ok_gap [OF bok that(1) x(1)] that(2) by fastforce
  have turn: "\<exists>k r. (readable offset isolation ?s \<noteq> [] \<longrightarrow> 0 < k) \<and>
    fetch_turn (env_crc env) tier tp offset max_bytes isolation ?s =
      (all_results (map (stored_batch (env_crc env) (files ?s)) (take k (readable offset isolation ?s))), ?s\<lparr>read_files := r\<rparr>)"
    by (rule fetch_turn_reads [OF pinv sok start])
  then obtain k r where k: "0 < k" and t: "fetch_turn (env_crc env) tier tp offset max_bytes isolation ?s =
      (all_results (map (stored_batch (env_crc env) (files ?s)) (take k [(offset, x)])), ?s\<lparr>read_files := r\<rparr>)"
    unfolding only by blast
  have "batch_try_from (batch_bytes b) = Inr b"
    using batch_try_from_bytes [OF assms(5), of "[]"] by simp
  then have "stored_batch (env_crc env) (files ?s) (offset, x) = Inr (b\<lparr>b_base_offset := offset\<rparr>)"
    using x(3) by (simp add: stored_batch_def fetched_batch_def)
  then have t: "fetch_turn (env_crc env) tier tp offset max_bytes isolation ?s =
      (Inr [b\<lparr>b_base_offset := offset\<rparr>], ?s\<lparr>read_files := r\<rparr>)"
    using t k by (cases k) auto
  have "fmlookup (eng_partitions e') tp \<noteq> None"
    using x(1) by (auto simp: entry_or_def partition_new_def split: option.splits)
  then have "partition_if_exists tp e' = Some ?s"
    by (auto simp: partition_if_exists_def entry_or_def)
  then show ?thesis
    using t by (simp add: fetch_def fetch_loop.simps split: prod.splits)
qed

theorem produce_then_fetch_witness:
  "fst (fetch plain_env None read_tp 0 0 ReadUncommitted [] read_engine) = Inr [tiny_batch]"
proof -
  have "batch_wf tiny_batch" by code_simp
  then show ?thesis
    using produce_then_fetch [OF read_engine_produced blank_engine_ok, of ReadUncommitted None 0 "[]"]
    by (simp add: tiny_batch_def)
qed

end
