(* ===== verification/Txn_Spec.thy ===== *)
theory Txn_Spec
  imports Boot_Spec Read_Spec
begin

text \<open>
  What ending a transaction and starting a producer guarantee: the transaction's hold on the last stable offset
  is released and an abort is indexed on every partition it produced to, and \<open>init_producer\<close> returns after at most one
  roll back.
\<close>

section \<open>What produce does to transactions\<close>

text \<open>Two coordination states with the same transactions, producers and epochs, whose details are related by \<open>R\<close>.\<close>

definition txn_rel :: "(txn_detail \<Rightarrow> txn_detail \<Rightarrow> bool) \<Rightarrow> coord_state \<Rightarrow> coord_state \<Rightarrow> bool" where
  "txn_rel R c c' \<longleftrightarrow>
     (\<forall>tid. map_option producer (fmlookup (transactions c') tid) = map_option producer (fmlookup (transactions c) tid)) \<and>
     (\<forall>tid epoch. rel_option R (txn_detail_of c tid epoch) (txn_detail_of c' tid epoch))"

lemma txn_rel_same: "(\<And>d. R d d) \<Longrightarrow> transactions c' = transactions c \<Longrightarrow> txn_rel R c c'"
  by (auto simp: txn_rel_def txn_detail_of_def option.rel_refl)

lemma txn_rel_trans:
  assumes "transp R" and "txn_rel R c c'" and "txn_rel R c' c''"
  shows "txn_rel R c c''"
proof -
  have "rel_option R (txn_detail_of c tid epoch) (txn_detail_of c'' tid epoch)" for tid epoch
    using assms(2,3) unfolding txn_rel_def
    by (cases "txn_detail_of c tid epoch"; cases "txn_detail_of c' tid epoch"; cases "txn_detail_of c'' tid epoch")
      (metis option.rel_distinct option.rel_inject(2) transpD [OF assms(1)])+
  then show ?thesis using assms(2,3) by (simp add: txn_rel_def)
qed

lemma txn_rel_update:
  assumes "\<And>d. R d d" and "\<And>d. txn_detail_of c tid epoch = Some d \<Longrightarrow> R d (f d)"
  shows "txn_rel R c (update_txn_detail tid epoch f c)"
proof -
  have "rel_option R (txn_detail_of c tid' k) (txn_detail_of (update_txn_detail tid epoch f c) tid' k)" for tid' k
    using assms by (cases "txn_detail_of c tid' k") auto
  then show ?thesis
    by (simp add: txn_rel_def update_txn_detail_def option.map_comp comp_def)
qed

text \<open>The detail \<open>txn_detail_mut\<close> hands out is that of the greatest epoch, so it is related too.\<close>

lemma txn_detail_mut_iff:
  "txn_detail_mut c tid pid epoch = Inr d \<longleftrightarrow>
     map_option producer (fmlookup (transactions c) tid) = Some pid \<and> txn_detail_of c tid epoch = Some d \<and>
     (\<forall>epoch'. txn_detail_of c tid epoch' \<noteq> None \<longrightarrow> epoch' \<le> epoch)"
  by (auto simp: txn_detail_mut_Inr txn_detail_of_def fmlookup_dom'_iff split: option.splits)

lemma txn_detail_mut_rel:
  assumes "txn_rel R c c'" and "txn_detail_mut c tid pid epoch = Inr d"
  obtains d' where "txn_detail_mut c' tid pid epoch = Inr d'" and "R d d'"
proof -
  have rel: "rel_option R (txn_detail_of c tid k) (txn_detail_of c' tid k)" for k
    using assms(1) by (simp add: txn_rel_def)
  have d: "txn_detail_of c tid epoch = Some d" and bound: "txn_detail_of c tid k \<noteq> None \<longrightarrow> k \<le> epoch" for k
    using assms(2) by (auto simp: txn_detail_mut_iff)
  obtain d' where d': "txn_detail_of c' tid epoch = Some d'" "R d d'"
    using rel [of epoch] d by (auto simp: option_rel_Some1)
  have "k \<le> epoch" if "txn_detail_of c' tid k \<noteq> None" for k
    using rel [of k] bound [of k] that by (cases "txn_detail_of c tid k") auto
  moreover have "map_option producer (fmlookup (transactions c') tid) = Some pid"
    using assms unfolding txn_rel_def txn_detail_mut_iff by simp
  ultimately have "txn_detail_mut c' tid pid epoch = Inr d'"
    using d'(1) unfolding txn_detail_mut_iff by blast
  then show thesis using that d'(2) by blast
qed

text \<open>A transaction while it is produced to: its ranges grow at the end, and nothing else of it changes.\<close>

definition detail_grows :: "txn_detail \<Rightarrow> txn_detail \<Rightarrow> bool" where
  "detail_grows d d' \<longleftrightarrow> txn_status d' = txn_status d \<and> txn_offsets d' = txn_offsets d \<and>
     (\<forall>t p r. lookup2 (produces d) t p = Some (Some r) \<longrightarrow>
       (\<exists>r'. lookup2 (produces d') t p = Some (Some r') \<and> offset_start r' = offset_start r \<and> offset_end r \<le> offset_end r'))"

abbreviation txn_grows :: "coord_state \<Rightarrow> coord_state \<Rightarrow> bool" where
  "txn_grows \<equiv> txn_rel detail_grows"

lemma detail_grows_refl: "detail_grows d d"
  by (simp add: detail_grows_def)

lemma detail_grows_trans:
  assumes "detail_grows d d'" and "detail_grows d' d''"
  shows "detail_grows d d''"
proof -
  have "\<exists>r''. lookup2 (produces d'') t p = Some (Some r'') \<and> offset_start r'' = offset_start r \<and> offset_end r \<le> offset_end r''"
    if "lookup2 (produces d) t p = Some (Some r)" for t p r
  proof -
    from assms(1) that obtain r' where r': "lookup2 (produces d') t p = Some (Some r')"
        "offset_start r' = offset_start r" "offset_end r \<le> offset_end r'"
      unfolding detail_grows_def by blast
    from assms(2) r'(1) obtain r'' where "lookup2 (produces d'') t p = Some (Some r'')"
        "offset_start r'' = offset_start r'" "offset_end r' \<le> offset_end r''"
      unfolding detail_grows_def by blast
    with r' show ?thesis by auto
  qed
  then show ?thesis using assms by (simp add: detail_grows_def)
qed

lemma detail_grows_transp: "transp detail_grows"
  by (rule transpI) (rule detail_grows_trans)

lemmas txn_grows_same = txn_rel_same [of detail_grows, OF detail_grows_refl]
lemmas txn_grows_trans = txn_rel_trans [OF detail_grows_transp]

lemma record_txn_produce_grows:
  assumes "record_txn_produce tid epoch t p start fin control c = (r, c')"
  shows "txn_grows c c'"
proof -
  let ?f = "\<lambda>d. d\<lparr>produces := insert2 t p (extend_range start fin (lookup2 (produces d) t p)) (produces d)\<rparr>"
  consider "c' = c" | "c' = update_txn_detail tid epoch ?f c"
    using assms by (auto simp: record_txn_produce_def split: option.splits if_splits)
  then show ?thesis
  proof cases
    case 1
    then show ?thesis by (simp add: txn_grows_same)
  next
    case 2
    have grows: "detail_grows d (?f d)" for d
      by (auto simp: detail_grows_def extend_range_def split: option.splits if_splits)
    show ?thesis unfolding 2 by (rule txn_rel_update) (auto simp: grows detail_grows_refl)
  qed
qed

text \<open>The guard changes the coordination state only through the checks under its lock.\<close>

lemma produce_guard_coord:
  assumes "produce_guard env tid tp b e = (r, e')"
  shows "e' = e \<or> (\<exists>attrs r1 c. produce_coordination tid tp b attrs (eng_coord e) = (r1, c) \<and> e' = e\<lparr>eng_coord := c\<rparr>)"
proof (cases "batch_attribute_try_from (b_attributes b)")
  case (Inl err)
  then show ?thesis using assms by (simp add: produce_guard_def)
next
  case (Inr attrs)
  obtain r1 c where q: "(if is_idempotent b \<or> (tid \<noteq> None \<and> attr_transaction attrs)
    then produce_coordination tid tp b attrs (eng_coord e) else (Inr (), eng_coord e)) = (r1, c)" by fastforce
  have "e' = e \<or> e' = e\<lparr>eng_coord := c\<rparr>"
    using assms unfolding produce_guard_def Inr sum.case q
    by (cases r1) (simp_all add: Let_def split: if_split_asm option.split_asm)
  then show ?thesis using q by (auto split: if_splits)
qed

lemma produce_guard_txns:
  "produce_guard env tid tp b e = (r, e') \<Longrightarrow> transactions (eng_coord e') = transactions (eng_coord e)"
  using produce_guard_coord produce_coordination_strip by fastforce

lemma ensure_partition_coord: "ensure_partition env tp e = (r, e') \<Longrightarrow> eng_coord e' = eng_coord e"
  by (auto simp: ensure_partition_def split: option.splits io_outcome.splits)

lemma produce_append_coord: "produce_append env tid tp b attrs e = (r, e') \<Longrightarrow> eng_coord e' = eng_coord e"
  by (auto simp: produce_append_def Let_def split: prod.splits sum.splits)

lemma produce_complete_grows:
  assumes "produce_complete env tid tp b attrs offset e = (r, e')"
  shows "txn_grows (eng_coord e) (eng_coord e')"
proof -
  have "eng_coord (publish tp fin (tick e)) = eng_coord e" for fin
    by (simp add: publish_def Let_def)
  then show ?thesis
    using assms
    by (auto simp: produce_complete_def Let_def txn_grows_same split: io_outcome.splits option.splits if_splits prod.splits sum.splits
        dest: record_txn_produce_grows)
qed

lemma produce_grows:
  assumes "produce env tid tp b e = (r, e')"
  shows "txn_grows (eng_coord e) (eng_coord e')"
proof -
  obtain r1 e1 where g: "produce_guard env tid tp b e = (r1, e1)" by fastforce
  have e1: "txn_grows (eng_coord e) (eng_coord e1)"
    by (rule txn_grows_same) (rule produce_guard_txns [OF g])
  show ?thesis
  proof (cases r1)
    case (Inl err)
    then show ?thesis using assms g e1 by (simp add: produce_def)
  next
    case (Inr attrs)
    obtain r2 e2 where p: "ensure_partition env tp e1 = (r2, e2)" by fastforce
    obtain r3 e3 where a: "produce_append env tid tp b attrs e2 = (r3, e3)" by fastforce
    have "eng_coord e3 = eng_coord e1"
      using ensure_partition_coord [OF p] produce_append_coord [OF a] by simp
    moreover have "e' = e2 \<or> e' = e3 \<or> (\<exists>offset. produce_complete env tid tp b attrs offset e3 = (r, e'))"
      using assms g Inr p a by (auto simp: produce_def and_then_def split: sum.splits)
    ultimately show ?thesis
      using e1 ensure_partition_coord [OF p] produce_complete_grows txn_grows_trans by metis
  qed
qed

lemma produce_marker_grows:
  "produce_marker env tid pid epoch committed tp e = (r, e') \<Longrightarrow> txn_grows (eng_coord e) (eng_coord e')"
  by (auto simp: produce_marker_def txn_grows_same split: sum.splits dest: produce_grows)

lemma for_each_grows:
  assumes "\<And>x e r e'. f x e = (r, e') \<Longrightarrow> txn_grows (eng_coord e) (eng_coord e')"
  shows "for_each f xs e = (r, e') \<Longrightarrow> txn_grows (eng_coord e) (eng_coord e')"
proof (induction xs arbitrary: e)
  case Nil
  then show ?case by (simp add: txn_grows_same)
next
  case (Cons x xs)
  obtain r1 e1 where f: "f x e = (r1, e1)" by fastforce
  from assms [OF f] have g: "txn_grows (eng_coord e) (eng_coord e1)" .
  show ?case
  proof (cases r1)
    case (Inl err)
    then show ?thesis using Cons.prems f g by (simp add: and_then_def)
  next
    case (Inr u)
    then have "for_each f xs e1 = (r, e')" using Cons.prems f by (simp add: and_then_def)
    from Cons.IH [OF this] show ?thesis by (rule txn_grows_trans [OF g])
  qed
qed

lemma txn_markers_grows:
  assumes "txn_markers env tid pid epoch committed ranges e = (r, e')"
  shows "txn_grows (eng_coord e) (eng_coord e')"
proof -
  have "for_each (\<lambda>(t, p, _). and_then (produce_marker env tid pid epoch committed (Topition t p)) (\<lambda>_. ok ())) ranges e = (r, e')"
    using assms by (simp add: txn_markers_def)
  then show ?thesis
    by (rule for_each_grows [rotated])
      (auto simp: and_then_def split: prod.splits sum.splits dest: produce_marker_grows)
qed

section \<open>A producer is started after at most one roll back\<close>

text \<open>What a resolution does to a transaction: nothing, or it ends it.\<close>

definition settles :: "txn_detail \<Rightarrow> txn_detail \<Rightarrow> bool" where
  "settles d d' \<longleftrightarrow> d' = d \<or> (\<exists>terminal. terminal_state (txn_status d) = Some terminal \<and> d' = finish_detail terminal d)"

abbreviation txn_settles :: "coord_state \<Rightarrow> coord_state \<Rightarrow> bool" where
  "txn_settles \<equiv> txn_rel settles"

lemma settles_refl: "settles d d"
  by (simp add: settles_def)

lemma terminal_state_final: "terminal_state st = Some terminal \<Longrightarrow> terminal_state (Some terminal) = None"
  by (auto simp: terminal_state_def split: option.splits txn_state.splits)

lemma settles_trans: "settles d d' \<Longrightarrow> settles d' d'' \<Longrightarrow> settles d d''"
  by (auto simp: settles_def finish_detail_def dest: terminal_state_final)

lemma settles_transp: "transp settles"
  by (rule transpI) (rule settles_trans)

lemmas txn_settles_refl = txn_rel_same [of settles, OF settles_refl refl]
lemmas txn_settles_trans = txn_rel_trans [OF settles_transp]

lemma resolve_refs_settles: "resolve_refs rs c = (effects, c') \<Longrightarrow> txn_settles c c'"
proof (induction rs arbitrary: c effects)
  case Nil
  then show ?case by (simp add: txn_settles_refl)
next
  case (Cons r rs)
  show ?case
  proof (cases "txn_detail_of c (ref_transaction r) (ref_producer_epoch r)")
    case None
    then show ?thesis using Cons by simp
  next
    case (Some d)
    show ?thesis
    proof (cases "terminal_state (txn_status d)")
      case None
      then show ?thesis using Cons Some by simp
    next
      case (Some terminal)
      have "txn_settles c (update_txn_detail (ref_transaction r) (ref_producer_epoch r) (finish_detail terminal) c)"
        by (rule txn_rel_update) (use Some \<open>txn_detail_of c _ _ = Some d\<close> in \<open>auto simp: settles_def\<close>)
      moreover have "\<exists>effects. resolve_refs rs (update_txn_detail (ref_transaction r) (ref_producer_epoch r)
          (finish_detail terminal) c) = (effects, c')"
        using Cons.prems \<open>txn_detail_of c _ _ = Some d\<close> Some by (auto simp: Let_def split: prod.splits)
      ultimately show ?thesis using Cons.IH txn_settles_trans by blast
    qed
  qed
qed

lemma txn_resolve_settles: "txn_resolve tid pid epoch committed c = (r, c') \<Longrightarrow> txn_settles c c'"
  by (auto simp: txn_resolve_def Let_def txn_settles_refl split: sum.splits if_splits prod.splits dest: resolve_refs_settles)

lemma log_record_coord [simp]: "eng_coord (log_record env r e) = eng_coord e"
  by (simp add: log_record_def)

lemma wal_append_coord [op_intros]: "keeps eng_coord (wal_append env r)"
  by (simp add: keeps_def wal_append_def split: io_outcome.splits)

lemma log_terminals_coord [op_intros]: "keeps eng_coord (log_terminals env xs)"
proof -
  have "eng_coord (snd (log_terminals env xs e)) = eng_coord e" for e
    by (induction env xs e rule: log_terminals.induct) (auto split: io_outcome.splits)
  then show ?thesis by (simp add: keeps_def)
qed

lemma offset_commit_coord [op_intros]: "keeps eng_coord (offset_commit env g offsets)"
  by (simp add: keeps_def offset_commit_def Let_def and_then_def wal_append_def split: io_outcome.splits)

lemma txn_finish_coord: "keeps eng_coord (txn_finish env effects)"
proof -
  have "keeps eng_coord (modify (\<lambda>e. e\<lparr>eng_partitions := fold apply_effect effects (eng_partitions e)\<rparr>))"
    by (simp add: keeps_def modify_def)
  then show ?thesis
    unfolding txn_finish_def commit_txn_offsets_def case_prod_beta by (intro op_intros)
qed

text \<open>The phases of a \<open>txn_end\<close> that succeeds.\<close>

lemma txn_end_phases:
  assumes "txn_end env tid pid epoch committed e = (Inr code, e')"
  obtains (deferred) ranges e1 where "txn_prepare env tid pid epoch committed e = (Inr ranges, e1)"
      "txn_markers env tid pid epoch committed ranges e1 = (Inr (), e')"
      "txn_resolve tid pid epoch committed (eng_coord e') = (Inr None, eng_coord e')"
  | (resolved) ranges e1 e2 effects c where "txn_prepare env tid pid epoch committed e = (Inr ranges, e1)"
      "txn_markers env tid pid epoch committed ranges e1 = (Inr (), e2)"
      "txn_resolve tid pid epoch committed (eng_coord e2) = (Inr (Some effects), c)"
      "txn_finish env effects (e2\<lparr>eng_coord := c\<rparr>) = (Inr (), e')"
proof -
  obtain r1 e1 where p: "txn_prepare env tid pid epoch committed e = (r1, e1)" by fastforce
  then obtain ranges where ranges: "r1 = Inr ranges"
    using assms by (cases r1) (simp_all add: txn_end_def and_then_def)
  obtain r2 e2 where m: "txn_markers env tid pid epoch committed ranges e1 = (r2, e2)" by fastforce
  then have r2: "r2 = Inr ()"
    using assms p ranges by (cases r2) (simp_all add: txn_end_def and_then_def)
  obtain r3 c where s: "txn_resolve tid pid epoch committed (eng_coord e2) = (r3, c)" by fastforce
  have rest: "(case (r3, c) of
         (Inl err, c) \<Rightarrow> (Inl err, e2\<lparr>eng_coord := c\<rparr>)
       | (Inr None, c) \<Rightarrow> (Inr NoError, e2\<lparr>eng_coord := c\<rparr>)
       | (Inr (Some effects), c) \<Rightarrow> and_then (txn_finish env effects) (\<lambda>_. ok NoError) (e2\<lparr>eng_coord := c\<rparr>)) = (Inr code, e')"
    using assms p m ranges r2 s by (simp add: txn_end_def and_then_def)
  show thesis
  proof (cases r3)
    case (Inl err)
    then show ?thesis using rest by simp
  next
    case (Inr x)
    show ?thesis
    proof (cases x)
      case None
      have "c = eng_coord e2"
        using s Inr None by (auto simp: txn_resolve_def Let_def split: sum.splits if_splits prod.splits)
      then show ?thesis using deferred [of ranges e1] p m ranges r2 s rest Inr None by simp
    next
      case (Some effects)
      have "txn_finish env effects (e2\<lparr>eng_coord := c\<rparr>) = (Inr (), e')"
        using rest Inr Some by (auto simp: and_then_def split: prod.splits sum.splits)
      then show ?thesis using resolved p m ranges r2 s Inr Some by blast
    qed
  qed
qed

lemma txn_prepare_detail:
  assumes "txn_prepare env tid pid epoch committed e = (Inr ranges, e1)"
  obtains d d1 where "txn_detail_mut (eng_coord e) tid pid epoch = Inr d" "txn_detail_mut (eng_coord e1) tid pid epoch = Inr d1"
    "ranges = (if txn_status d = Some Begin then produced_ranges d else [])"
    "d1 = (if txn_status d = Some Begin then d\<lparr>txn_status := Some (prepare_state committed)\<rparr> else d)"
proof -
  obtain d where d: "txn_detail_mut (eng_coord e) tid pid epoch = Inr d"
    using assms by (auto simp: txn_prepare_def split: sum.splits)
  show thesis
  proof (cases "txn_status d = Some Begin")
    case True
    let ?f = "\<lambda>d. d\<lparr>txn_status := Some (prepare_state committed)\<rparr>"
    let ?w = "wal_append env (TxnPrepare tid pid epoch committed (produced_ranges d)) (e\<lparr>eng_coord := update_txn_detail tid epoch ?f (eng_coord e)\<rparr>)"
    have w: "?w = (Inr (), e1)" "ranges = produced_ranges d"
      using assms d True by (auto simp: txn_prepare_def and_then_def Let_def split: prod.splits sum.splits)
    have c: "eng_coord e1 = update_txn_detail tid epoch ?f (eng_coord e)"
      using keepsD [OF wal_append_coord w(1)] by simp
    have "txn_rel (\<lambda>d d'. d' = d \<or> d' = ?f d) (eng_coord e) (eng_coord e1)"
      unfolding c by (rule txn_rel_update) auto
    then obtain d1 where d1: "txn_detail_mut (eng_coord e1) tid pid epoch = Inr d1" using d by (rule txn_detail_mut_rel)
    have "txn_detail_of (eng_coord e1) tid epoch = Some (?f d)"
      using d by (simp add: c txn_detail_mut_iff)
    then have "d1 = ?f d" using d1 by (simp add: txn_detail_mut_iff)
    then show ?thesis using that [OF d d1] True w(2) by simp
  next
    case False
    then have "ranges = []" "e1 = e" using assms d by (auto simp: txn_prepare_def)
    then show ?thesis using that [OF d, of d] d False by simp
  qed
qed

lemma prepare_not_begin: "prepare_state committed \<noteq> Begin"
  by (simp add: prepare_state_def)

lemma settles_not_begin: "settles d d' \<Longrightarrow> txn_status d \<noteq> Some Begin \<Longrightarrow> txn_status d' \<noteq> Some Begin"
  by (auto simp: settles_def finish_detail_def terminal_state_def split: option.splits txn_state.splits)

lemma txn_end_not_begin:
  assumes "txn_end env tid pid epoch committed e = (Inr code, e')"
  obtains d where "txn_detail_mut (eng_coord e') tid pid epoch = Inr d" and "txn_status d \<noteq> Some Begin"
proof -
  have marked: "\<exists>d2. txn_detail_mut (eng_coord e2) tid pid epoch = Inr d2 \<and> txn_status d2 \<noteq> Some Begin"
    if p: "txn_prepare env tid pid epoch committed e = (Inr ranges, e1)"
      and m: "txn_markers env tid pid epoch committed ranges e1 = (Inr (), e2)" for ranges e1 e2
  proof -
    from p obtain d d1 where d1: "txn_detail_mut (eng_coord e1) tid pid epoch = Inr d1"
      "d1 = (if txn_status d = Some Begin then d\<lparr>txn_status := Some (prepare_state committed)\<rparr> else d)"
      by (rule txn_prepare_detail)
    obtain d2 where d2: "txn_detail_mut (eng_coord e2) tid pid epoch = Inr d2" "detail_grows d1 d2"
      using txn_markers_grows [OF m] d1(1) by (rule txn_detail_mut_rel)
    have "txn_status d1 \<noteq> Some Begin" using prepare_not_begin by (simp add: d1(2))
    then show ?thesis using d2 by (auto simp: detail_grows_def)
  qed
  from assms show thesis
  proof (cases rule: txn_end_phases)
    case (deferred ranges e1)
    then show ?thesis using marked that by blast
  next
    case (resolved ranges e1 e2 effects c)
    from marked [OF resolved(1,2)] obtain d2 where d2: "txn_detail_mut (eng_coord e2) tid pid epoch = Inr d2"
      "txn_status d2 \<noteq> Some Begin" by blast
    obtain d3 where d3: "txn_detail_mut c tid pid epoch = Inr d3" "settles d2 d3"
      using txn_resolve_settles [OF resolved(3)] d2(1) by (rule txn_detail_mut_rel)
    have "eng_coord e' = c" using keepsD [OF txn_finish_coord resolved(4)] by simp
    then show ?thesis using that d3 settles_not_begin d2(2) by metis
  qed
qed

lemma init_transactional_completes:
  assumes "txn_detail_mut c tid pid epoch = Inr d" and "txn_status d \<noteq> Some Begin"
  shows "\<exists>response r c'. init_transactional tid timeout i k c = (Completed response r, c')"
proof -
  obtain t where t: "fmlookup (transactions c) tid = Some t" using assms(1) by (auto simp: txn_detail_mut_Inr)
  obtain l where "last_entry (epochs t) = Some l" "snd l = d"
    using assms(1) t by (auto simp: txn_detail_mut_def split: option.splits if_splits prod.splits)
  then show ?thesis using t assms(2) by (cases l) (simp add: init_transactional_def Let_def)
qed

lemma init_producer_txn_completed:
  assumes "init_transactional tid timeout pid epoch (eng_coord e) = (Completed response r, c)"
  shows "init_producer_txn (Suc fuel) env tid timeout pid epoch e = init_producer_txn (Suc fuel') env tid timeout pid epoch e"
    and "fst (init_producer_txn (Suc fuel) env tid timeout pid epoch e) \<noteq> Inr None"
  using assms by (auto simp: and_then_def split: prod.splits sum.splits)

lemma init_producer_txn_fuel:
  "init_producer_txn (Suc (Suc fuel)) env tid timeout pid epoch e = init_producer_txn 2 env tid timeout pid epoch e
   \<and> fst (init_producer_txn 2 env tid timeout pid epoch e) \<noteq> Inr None"
proof (cases "init_transactional tid timeout pid epoch (eng_coord e)")
  case (Pair out c)
  show ?thesis
  proof (cases out)
    case (Completed response r)
    then have "init_transactional tid timeout pid epoch (eng_coord e) = (Completed response r, c)" using Pair by simp
    note completed = init_producer_txn_completed [OF this]
    show ?thesis unfolding numeral_2_eq_2 by (intro conjI completed)
  next
    case (NeedToRollback rpid repoch)
    obtain r1 e1 where end_: "txn_end env tid rpid repoch False (e\<lparr>eng_coord := c\<rparr>) = (r1, e1)" by fastforce
    have again: "init_producer_txn (Suc fuel) env tid timeout pid epoch e1 = init_producer_txn (Suc 0) env tid timeout pid epoch e1
      \<and> fst (init_producer_txn (Suc 0) env tid timeout pid epoch e1) \<noteq> Inr None" if done_: "r1 = Inr NoError"
    proof -
      obtain d where "txn_detail_mut (eng_coord e1) tid rpid repoch = Inr d" "txn_status d \<noteq> Some Begin"
        using end_ [unfolded done_] by (rule txn_end_not_begin)
      then obtain response r c' where "init_transactional tid timeout pid epoch (eng_coord e1) = (Completed response r, c')"
        using init_transactional_completes by blast
      note completed = init_producer_txn_completed [OF this]
      show ?thesis by (intro conjI completed)
    qed
    show ?thesis
      unfolding numeral_2_eq_2 using Pair NeedToRollback end_ again
      by (cases r1) (simp_all add: and_then_def del: init_producer_txn.simps(2) add: init_producer_txn.simps(2) [of "Suc _"])
  qed
qed

text \<open>C26: Starting a producer always returns.  Whatever state the coordinator is in and whatever fails, a transactional
  \<open>init_producer\<close> calls itself at most once more after it rolled back an open transaction: two levels of the recursion
  give an answer, and more levels give the same one.\<close>

theorem init_producer_returns:
  assumes "2 \<le> fuel"
  shows "fst (init_producer fuel env transaction_id timeout pid epoch e) \<noteq> Inr None
    \<and> init_producer fuel env transaction_id timeout pid epoch e = init_producer 2 env transaction_id timeout pid epoch e"
proof -
  obtain n where n: "fuel = Suc (Suc n)" using assms by (metis add_2_eq_Suc le_Suc_ex)
  show ?thesis
  proof (cases transaction_id)
    case None
    then show ?thesis by (auto simp: init_producer_def and_then_def split: prod.splits sum.splits)
  next
    case (Some tid)
    then show ?thesis using init_producer_txn_fuel [of n env tid timeout pid epoch e] by (simp add: init_producer_def n)
  qed
qed

definition txn_batch :: deflated_batch where
  "txn_batch = tiny_batch\<lparr>b_attributes := 16, b_producer_id := 1, b_producer_epoch := 0, b_base_sequence := 0\<rparr>"

definition txn_started :: engine where
  "txn_started = snd (init_producer 2 plain_env (Some ''x'') 60000 (Some (-1)) (Some (-1)) blank_engine)"

definition txn_open :: engine where
  "txn_open = snd (produce plain_env (Some ''x'') (Topition ''t'' 0) txn_batch
     (snd (txn_add_partitions plain_env (VersionZeroToThree ''x'' 1 0 [(''t'', Some [0])]) txn_started)))"

theorem init_producer_returns_witness:
  "fst (init_producer 7 plain_env (Some ''x'') 60000 (Some (-1)) (Some (-1)) txn_open) =
     Inr (Some \<lparr>pid_error = NoError, pid_id = 1, pid_epoch = 1\<rparr>)"
proof -
  have "fst (init_producer 2 plain_env (Some ''x'') 60000 (Some (-1)) (Some (-1)) txn_open) =
     Inr (Some \<lparr>pid_error = NoError, pid_id = 1, pid_epoch = 1\<rparr>)"
    by code_simp
  then show ?thesis using init_producer_returns [of 7 plain_env "Some ''x''" 60000 "Some (-1)" "Some (-1)" txn_open] by simp
qed

section \<open>What the end of a transaction applies\<close>

text \<open>Partitions do not disappear while markers are produced, and a produced partition exists.\<close>

definition more_partitions :: "engine \<Rightarrow> engine \<Rightarrow> bool" where
  "more_partitions e e' \<longleftrightarrow> (\<forall>tp. fmlookup (eng_partitions e) tp \<noteq> None \<longrightarrow> fmlookup (eng_partitions e') tp \<noteq> None)"

lemma produce_guard_partitions: "produce_guard env tid tp b e = (r, e') \<Longrightarrow> eng_partitions e' = eng_partitions e"
  using produce_guard_coord by fastforce

lemma ensure_partition_present:
  assumes "ensure_partition env tp e = (r, e')"
  shows "more_partitions e e'" and "r = Inr s \<Longrightarrow> fmlookup (eng_partitions e') tp \<noteq> None"
  using assms by (auto simp: ensure_partition_def more_partitions_def set_partition_def split: option.splits io_outcome.splits)

lemma produce_append_present:
  assumes "produce_append env tid tp b attrs e = (r, e')"
  shows "more_partitions e e'"
  using assms by (auto simp: produce_append_def more_partitions_def set_partition_def Let_def split: prod.splits sum.splits)

lemma produce_complete_present:
  assumes "produce_complete env tid tp b attrs offset e = (r, e')"
  shows "more_partitions e e'"
  using assms by (auto simp: produce_complete_def publish_def more_partitions_def set_partition_def Let_def
      split: prod.splits sum.splits io_outcome.splits option.splits if_splits)

lemma more_partitions_trans: "more_partitions e e' \<Longrightarrow> more_partitions e' e'' \<Longrightarrow> more_partitions e e''"
  by (simp add: more_partitions_def)

lemma produce_present:
  assumes "produce env tid tp b e = (r, e')"
  shows "more_partitions e e'" and "r = Inr offset \<Longrightarrow> fmlookup (eng_partitions e') tp \<noteq> None"
proof -
  obtain r1 e1 where g: "produce_guard env tid tp b e = (r1, e1)" by fastforce
  obtain r2 e2 where p: "ensure_partition env tp e1 = (r2, e2)" by fastforce
  have e1: "more_partitions e e1" using produce_guard_partitions [OF g] by (simp add: more_partitions_def)
  have e2: "more_partitions e e2" using more_partitions_trans [OF e1 ensure_partition_present(1) [OF p]] .
  have "more_partitions e e' \<and> (r = Inr offset \<longrightarrow> fmlookup (eng_partitions e') tp \<noteq> None)"
  proof (cases r1)
    case (Inl err)
    then show ?thesis using assms g e1 by (auto simp: produce_def and_then_def)
  next
    case (Inr attrs)
    show ?thesis
    proof (cases r2)
      case (Inl err)
      then show ?thesis using assms g p \<open>r1 = Inr attrs\<close> e2 by (auto simp: produce_def and_then_def)
    next
      case (Inr s)
      obtain r3 e3 where a: "produce_append env tid tp b attrs e2 = (r3, e3)" by fastforce
      have e3: "more_partitions e2 e3" using produce_append_present [OF a] .
      have e': "more_partitions e3 e'"
      proof (cases r3)
        case (Inl err)
        then show ?thesis using assms g p a \<open>r1 = Inr attrs\<close> Inr by (simp add: produce_def and_then_def more_partitions_def)
      next
        case (Inr offset')
        then have "produce_complete env tid tp b attrs offset' e3 = (r, e')"
          using assms g p a \<open>r1 = Inr attrs\<close> \<open>r2 = Inr s\<close> by (simp add: produce_def and_then_def)
        then show ?thesis by (rule produce_complete_present)
      qed
      have "fmlookup (eng_partitions e2) tp \<noteq> None" using ensure_partition_present(2) [OF p Inr] .
      then show ?thesis using e2 e3 e' more_partitions_trans unfolding more_partitions_def by blast
    qed
  qed
  then show "more_partitions e e'" and "r = Inr offset \<Longrightarrow> fmlookup (eng_partitions e') tp \<noteq> None" by blast+
qed

lemma txn_markers_present:
  "txn_markers env tid pid epoch committed ranges e = (Inr (), e') \<Longrightarrow>
     more_partitions e e' \<and> (\<forall>(t, p, r) \<in> set ranges. fmlookup (eng_partitions e') (Topition t p) \<noteq> None)"
proof (induction ranges arbitrary: e)
  case Nil
  then show ?case by (simp add: txn_markers_def more_partitions_def)
next
  case (Cons x ranges)
  obtain t p r where x: "x = (t, p, r)" by (cases x)
  obtain r1 e1 where m: "produce_marker env tid pid epoch committed (Topition t p) e = (r1, e1)" by fastforce
  obtain offset where r1: "r1 = Inr offset"
    using Cons.prems m by (cases r1) (simp_all add: txn_markers_def x and_then_def)
  have rest: "txn_markers env tid pid epoch committed ranges e1 = (Inr (), e')"
    using Cons.prems m r1 by (simp add: txn_markers_def x and_then_def split: prod.splits)
  obtain b where "produce env (Some tid) (Topition t p) b e = (Inr offset, e1)"
    using m r1 by (auto simp: produce_marker_def split: sum.splits)
  note present = produce_present [OF this]
  have more: "more_partitions e1 e'" and all: "\<forall>(t, p, r) \<in> set ranges. fmlookup (eng_partitions e') (Topition t p) \<noteq> None"
    using Cons.IH [OF rest] by blast+
  have "fmlookup (eng_partitions e') (Topition t p) \<noteq> None"
    using more present(2) [OF refl] unfolding more_partitions_def by blast
  then show ?case
    using more_partitions_trans [OF present(1) more] all by (simp add: x)
qed

text \<open>Resolving in sequence.\<close>

lemma resolve_refs_append:
  assumes "resolve_refs rs c = (xs, c1)" and "resolve_refs rs' c1 = (ys, c2)"
  shows "resolve_refs (rs @ rs') c = (xs @ ys, c2)"
  using assms
  by (induction rs c arbitrary: xs rule: resolve_refs.induct)
    (auto simp: Let_def split: option.splits prod.splits)

lemma resolve_refs_other:
  assumes "resolve_refs rs c = (xs, c')" and "\<And>r. r \<in> set rs \<Longrightarrow> (ref_transaction r, ref_producer_epoch r) \<noteq> (tid, epoch)"
  shows "txn_detail_of c' tid epoch = txn_detail_of c tid epoch"
  using assms
  by (induction rs c arbitrary: xs rule: resolve_refs.induct)
    (auto simp: Let_def split: option.splits prod.splits)

text \<open>The effects of a resolution end with those of the transaction that is ended.\<close>

definition own_effect :: "string \<Rightarrow> int \<Rightarrow> int \<Rightarrow> bool \<Rightarrow> txn_detail \<Rightarrow> txn_effects" where
  "own_effect tid pid epoch committed d =
     \<lparr>eff_transaction = tid, eff_producer_id = pid, eff_producer_epoch = epoch, eff_aborting = (\<not> committed),
       eff_ranges = effect_ranges d, eff_offsets = (if committed then effect_offsets d else [])\<rparr>"

definition final_state :: "bool \<Rightarrow> txn_state" where
  "final_state committed = (if committed then Committed else Aborted)"

lemma txn_resolve_own:
  assumes "txn_resolve tid pid epoch committed c = (Inr (Some effects), c')"
    and "txn_detail_mut c tid pid epoch = Inr d" and "txn_status d = Some (prepare_state committed)"
  obtains xs where "effects = xs @ [own_effect tid pid epoch committed d]"
    and "txn_detail_of c' tid epoch = Some (finish_detail (final_state committed) d)"
proof -
  let ?own = "\<lparr>ref_transaction = tid, ref_producer_id = pid, ref_producer_epoch = epoch, ref_state = prepare_state committed\<rparr>"
  let ?overlaps = "overlapping_transactions c tid pid epoch"
  obtain xs c1 where r: "resolve_refs ?overlaps c = (xs, c1)" by fastforce
  have d: "txn_detail_of c tid epoch = Some d" and pid: "map_option producer (fmlookup (transactions c) tid) = Some pid"
    using assms(2) unfolding txn_detail_mut_iff by blast+
  have "(ref_transaction r, ref_producer_epoch r) \<noteq> (tid, epoch)" if "r \<in> set ?overlaps" for r
    using that pid by (auto simp: overlapping_iff conflicts_def)
  from resolve_refs_other [OF r this] d have d1: "txn_detail_of c1 tid epoch = Some d" by simp
  have terminal: "terminal_state (txn_status d) = Some (final_state committed)"
    using assms(3) by (simp add: terminal_state_def prepare_state_def final_state_def)
  have "resolve_refs [?own] c1 = ([own_effect tid pid epoch committed d], update_txn_detail tid epoch (finish_detail (final_state committed)) c1)"
    using d1 terminal by (simp add: own_effect_def prepare_state_def final_state_def)
  from resolve_refs_append [OF r this]
  have "resolve_refs (?overlaps @ [?own]) c =
    (xs @ [own_effect tid pid epoch committed d], update_txn_detail tid epoch (finish_detail (final_state committed)) c1)" .
  then have "effects = xs @ [own_effect tid pid epoch committed d]"
    "c' = update_txn_detail tid epoch (finish_detail (final_state committed)) c1"
    using assms(1,2) by (auto simp: txn_resolve_def Let_def split: if_splits)
  then show thesis using that d1 by simp
qed

text \<open>The partitions of an effect are released, and an abort is indexed there.\<close>

definition released :: "txn_effects \<Rightarrow> txn_produce_offset \<Rightarrow> partition_inner \<Rightarrow> bool" where
  "released x r s \<longleftrightarrow>
     fmlookup (open_txns s) (eff_transaction x, eff_producer_id x, eff_producer_epoch x) = None \<and>
     (eff_aborting x \<longrightarrow>
       \<lparr>aborted_producer = eff_producer_id x, aborted_start = offset_start r, aborted_end = offset_end r\<rparr> \<in> set (aborted s))"

lemma released_release: "released x r (release_txn x r s)"
  by (auto simp: released_def release_txn_def push_aborted_range_def Let_def)

lemma released_again: "released x r s \<Longrightarrow> released x r (release_txn x r' s)"
  by (auto simp: released_def release_txn_def push_aborted_range_def Let_def)

lemma apply_effect_dom: "fmlookup (apply_effect x ps) tp = None \<longleftrightarrow> fmlookup ps tp = None"
proof -
  have "fmlookup (fold (\<lambda>(tp, r). adjust tp (release_txn x r)) rs ps) tp = None \<longleftrightarrow> fmlookup ps tp = None" for rs
    by (induction rs arbitrary: ps) (simp_all add: case_prod_beta)
  then show ?thesis by (simp add: apply_effect_def)
qed

lemma apply_effects_dom: "fmlookup (fold apply_effect xs ps) tp = None \<longleftrightarrow> fmlookup ps tp = None"
  by (induction xs arbitrary: ps) (simp_all add: apply_effect_dom)

lemma apply_effect_released:
  assumes "(tp, r) \<in> set (eff_ranges x)" and "fmlookup ps tp \<noteq> None"
  shows "\<exists>s. fmlookup (apply_effect x ps) tp = Some s \<and> released x r s"
proof -
  let ?f = "\<lambda>(tp, r). adjust tp (release_txn x r)"
  have "(tp, r) \<in> set rs \<longrightarrow> (\<exists>s. fmlookup (fold ?f rs ps) tp = Some s \<and> released x r s)" for rs
  proof (induction rs rule: rev_induct)
    case Nil
    then show ?case by simp
  next
    case (snoc y rs)
    obtain tp' r' where y: "y = (tp', r')" by (cases y)
    have "fmlookup (fold ?f rs ps) tp \<noteq> None"
      using assms(2) by (induction rs arbitrary: ps) auto
    then show ?case using snoc by (auto simp: y released_release released_again)
  qed
  then show ?thesis using assms(1) by (simp add: apply_effect_def)
qed

lemma log_terminals_frame: "keeps (\<lambda>e. (eng_partitions e, eng_coord e, eng_offsets e)) (log_terminals env xs)"
proof -
  have "(\<lambda>e. (eng_partitions e, eng_coord e, eng_offsets e)) (snd (log_terminals env xs e)) =
      (eng_partitions e, eng_coord e, eng_offsets e)" for e
    by (induction env xs e rule: log_terminals.induct) (auto simp: log_record_def split: io_outcome.splits)
  then show ?thesis by (simp add: keeps_def)
qed

lemma offset_commit_parts [op_intros]: "keeps eng_partitions (offset_commit env g offsets)"
  by (simp add: keeps_def offset_commit_def Let_def and_then_def wal_append_def log_record_def split: io_outcome.splits)

lemma txn_finish_split:
  assumes "txn_finish env effects e = (Inr (), e')"
  obtains e1 where "eng_partitions e1 = fold apply_effect effects (eng_partitions e)" "eng_coord e1 = eng_coord e"
    "commit_txn_offsets env effects e1 = (Inr (), e')"
proof -
  obtain r0 e0 where l: "log_terminals env effects e = (r0, e0)" by fastforce
  then obtain u where "r0 = Inr u" using assms by (cases r0) (simp_all add: txn_finish_def and_then_def)
  then have "commit_txn_offsets env effects (e0\<lparr>eng_partitions := fold apply_effect effects (eng_partitions e0)\<rparr>) = (Inr (), e')"
    using assms l by (simp add: txn_finish_def and_then_def modify_def)
  moreover have "eng_partitions e0 = eng_partitions e" "eng_coord e0 = eng_coord e"
    using keepsD [OF log_terminals_frame l] by simp_all
  ultimately show thesis
    using that [of "e0\<lparr>eng_partitions := fold apply_effect effects (eng_partitions e0)\<rparr>"] by simp
qed

lemma commit_txn_offsets_parts: "keeps eng_partitions (commit_txn_offsets env effects)"
  unfolding commit_txn_offsets_def case_prod_beta by (intro op_intros)

text \<open>The committed offsets of a transaction are those its group is left with.\<close>

lemma offset_commit_lookup:
  assumes "offset_commit env g offsets e = (Inr responses, e')"
  shows "fmlookup (eng_offsets e') (g', tp) =
    (if g' = g then (case map_of (rev (filter (\<lambda>(tp, _). known_topic e (topic tp)) offsets)) tp of
        None \<Rightarrow> fmlookup (eng_offsets e) (g', tp) | Some oc \<Rightarrow> Some oc)
     else fmlookup (eng_offsets e) (g', tp))"
proof -
  have "eng_offsets e' = fold (\<lambda>(tp, oc). fmupd (g, tp) oc) (filter (\<lambda>(tp, _). known_topic e (topic tp)) offsets) (eng_offsets e)"
    using assms by (auto simp: offset_commit_def Let_def and_then_def wal_append_def log_record_def split: io_outcome.splits if_splits)
  moreover have "fmlookup (fold (\<lambda>(tp, oc). fmupd (g, tp) oc) xs m) (g', tp) =
    (if g' = g then (case map_of (rev xs) tp of None \<Rightarrow> fmlookup m (g', tp) | Some oc \<Rightarrow> Some oc) else fmlookup m (g', tp))"
    for xs and m :: "(string \<times> topition, offset_commit_request) fmap"
    by (induction xs rule: rev_induct) auto
  ultimately show ?thesis by (simp only:)
qed

lemma commit_groups_lookup:
  assumes "for_each (\<lambda>(g, offsets). and_then (offset_commit env g offsets) (\<lambda>_. ok ())) xs e = (Inr (), e')"
    and "distinct (map fst xs)"
  shows "fmlookup (eng_offsets e') (g, tp) =
    (case map_of xs g of None \<Rightarrow> fmlookup (eng_offsets e) (g, tp)
     | Some offsets \<Rightarrow> (case map_of (rev (filter (\<lambda>(tp, _). known_topic e (topic tp)) offsets)) tp of
        None \<Rightarrow> fmlookup (eng_offsets e) (g, tp) | Some oc \<Rightarrow> Some oc))"
  using assms
proof (induction xs arbitrary: e)
  case Nil
  then show ?case by simp
next
  case (Cons x xs)
  obtain g0 offsets where x: "x = (g0, offsets)" by (cases x)
  obtain r1 e1 where o: "offset_commit env g0 offsets e = (r1, e1)" by fastforce
  then obtain responses where r1: "r1 = Inr responses"
    using Cons.prems(1) by (cases r1) (simp_all add: x and_then_def)
  have step1: "and_then (offset_commit env g0 offsets) (\<lambda>_. ok ()) e = (Inr (), e1)"
    using o r1 by (simp add: and_then_def)
  have rest: "for_each (\<lambda>(g, offsets). and_then (offset_commit env g offsets) (\<lambda>_. ok ())) xs e1 = (Inr (), e')"
    using Cons.prems(1) unfolding for_each.simps x prod.case step1 by simp
  have known: "known_topic e1 = known_topic e"
    using keepsD [OF offset_commit_coord o] by (simp add: known_topic_def fun_eq_iff)
  have IH: "fmlookup (eng_offsets e') (g, tp) = (case map_of xs g of None \<Rightarrow> fmlookup (eng_offsets e1) (g, tp)
     | Some offsets \<Rightarrow> (case map_of (rev (filter (\<lambda>(tp, _). known_topic e (topic tp)) offsets)) tp of
        None \<Rightarrow> fmlookup (eng_offsets e1) (g, tp) | Some oc \<Rightarrow> Some oc))"
    using Cons.IH [OF rest, unfolded known] Cons.prems(2) by simp
  note step = offset_commit_lookup [OF o [unfolded r1], of g tp]
  show ?case
  proof (cases "g = g0")
    case True
    then have "map_of xs g = None" using Cons.prems(2) by (simp add: x map_of_eq_None_iff)
    then show ?thesis using IH step True by (simp add: x)
  next
    case False
    then have "fmlookup (eng_offsets e1) (g, tp) = fmlookup (eng_offsets e) (g, tp)" using step by simp
    then show ?thesis using IH False by (cases "map_of xs g") (simp_all add: x split: option.splits)
  qed
qed

lemma by_group_lookup:
  "fmlookup (by_group effects) g =
     (case filter (\<lambda>(g', _). g' = g) (concat (map eff_offsets effects)) of [] \<Rightarrow> None
      | y # ys \<Rightarrow> Some (map (\<lambda>(_, tp, co). (tp, offset_commit_default\<lparr>commit_offset := committed_offset co\<rparr>)) (y # ys)))"
proof -
  let ?f = "\<lambda>(g, tp, co) m. fmupd g (entry_or [] m g @ [(tp, offset_commit_default\<lparr>commit_offset := committed_offset co\<rparr>)]) m"
  have "fmlookup (fold ?f xs fmempty) g =
     (case filter (\<lambda>(g', _). g' = g) xs of [] \<Rightarrow> None
      | y # ys \<Rightarrow> Some (map (\<lambda>(_, tp, co). (tp, offset_commit_default\<lparr>commit_offset := committed_offset co\<rparr>)) (y # ys)))" for xs
    by (induction xs rule: rev_induct) (auto simp: entry_or_def split: list.splits)
  then show ?thesis by (simp add: by_group_def)
qed

lemma in_effect_offsets:
  "(g, tp, co) \<in> set (effect_offsets d) \<longleftrightarrow>
     (\<exists>m. fmlookup (txn_offsets d) g = Some m \<and> lookup2 m (topic tp) (partition tp) = Some co)"
proof (cases tp)
  case (Topition t p)
  have "(g, tp, co) \<in> set (effect_offsets d) \<longleftrightarrow> (\<exists>y \<in> set (entries (txn_offsets d)).
      \<exists>z \<in> set (rows2 (snd y)). (g, tp, co) = (fst y, Topition (fst z) (fst (snd z)), snd (snd z)))"
    by (simp add: effect_offsets_def case_prod_beta image_iff del: in_rows2 in_entries)
  also have "\<dots> \<longleftrightarrow> (\<exists>m. (g, m) \<in> set (entries (txn_offsets d)) \<and> (t, p, co) \<in> set (rows2 m))"
    by (auto simp: Topition Bex_def simp del: in_rows2 in_entries)
  finally show ?thesis by (simp add: Topition)
qed

lemma commit_txn_offsets_own:
  assumes "commit_txn_offsets env (xs @ [x]) e = (Inr (), e')" and "eff_offsets x = effect_offsets d"
    and "(g, tp, co) \<in> set (effect_offsets d)" and "known_topic e (topic tp)"
  shows "fmlookup (eng_offsets e') (g, tp) = Some (offset_commit_default\<lparr>commit_offset := committed_offset co\<rparr>)"
proof -
  let ?v = "\<lambda>(_, tp, co). (tp, offset_commit_default\<lparr>commit_offset := committed_offset co\<rparr>)"
  let ?known = "\<lambda>(tp, _). known_topic e (topic tp)"
  define own where "own = filter (\<lambda>(g', _). g' = g) (effect_offsets d)"
  define pre where "pre = filter (\<lambda>(g', _). g' = g) (concat (map eff_offsets xs))"
  have mem: "(g, tp, co) \<in> set own" using assms(3) by (simp add: own_def)
  have "pre @ own \<noteq> []" using mem by auto
  then have "fmlookup (by_group (xs @ [x])) g = Some (map ?v (pre @ own))"
    unfolding by_group_lookup by (cases "pre @ own") (simp_all add: pre_def own_def assms(2))
  then have g: "map_of (entries (by_group (xs @ [x]))) g = Some (map ?v (pre @ own))" by simp
  have "map_of (rev (filter ?known (map ?v pre) @ filter ?known (map ?v own))) tp =
      Some (offset_commit_default\<lparr>commit_offset := committed_offset co\<rparr>)"
  proof (rule map_of_rev_last)
    show "(tp, offset_commit_default\<lparr>commit_offset := committed_offset co\<rparr>) \<in> set (filter ?known (map ?v own))"
      using mem assms(4) by force
  next
    fix w assume "(tp, w) \<in> set (filter ?known (map ?v own))"
    then obtain co' where "(g, tp, co') \<in> set (effect_offsets d)" "w = offset_commit_default\<lparr>commit_offset := committed_offset co'\<rparr>"
      by (auto simp: own_def)
    then show "w = offset_commit_default\<lparr>commit_offset := committed_offset co\<rparr>"
      using assms(3) by (auto simp: in_effect_offsets)
  qed
  then show ?thesis
    using commit_groups_lookup [OF assms(1) [unfolded commit_txn_offsets_def], of g tp] g by simp
qed

text \<open>The transaction between its preparation and its resolution.\<close>

lemma txn_marked:
  assumes "txn_prepare env tid pid epoch committed e = (Inr ranges, e1)"
    and "txn_markers env tid pid epoch committed ranges e1 = (Inr (), e2)"
    and "txn_detail_mut (eng_coord e) tid pid epoch = Inr d" and "txn_status d = Some Begin"
  shows "\<exists>d2. txn_detail_mut (eng_coord e2) tid pid epoch = Inr d2 \<and> txn_status d2 = Some (prepare_state committed) \<and>
    txn_offsets d2 = txn_offsets d \<and> ranges = produced_ranges d \<and>
    (\<forall>t p r. (t, p, r) \<in> set (produced_ranges d) \<longrightarrow>
      (\<exists>r'. (t, p, r') \<in> set (produced_ranges d2) \<and> offset_start r' = offset_start r \<and> offset_end r \<le> offset_end r'))"
proof -
  from assms(1) obtain d0 d1 where d0: "txn_detail_mut (eng_coord e) tid pid epoch = Inr d0"
    and d1: "txn_detail_mut (eng_coord e1) tid pid epoch = Inr d1"
      "ranges = (if txn_status d0 = Some Begin then produced_ranges d0 else [])"
      "d1 = (if txn_status d0 = Some Begin then d0\<lparr>txn_status := Some (prepare_state committed)\<rparr> else d0)"
    by (rule txn_prepare_detail)
  have "d0 = d" using d0 assms(3) by simp
  then have d1': "d1 = d\<lparr>txn_status := Some (prepare_state committed)\<rparr>" "ranges = produced_ranges d"
    using d1(2,3) assms(4) by simp_all
  obtain d2 where "txn_detail_mut (eng_coord e2) tid pid epoch = Inr d2" "detail_grows d1 d2"
    using txn_markers_grows [OF assms(2)] d1(1) by (rule txn_detail_mut_rel)
  then show ?thesis by (simp add: detail_grows_def d1')
qed

text \<open>C7: What ending an open transaction achieves.  A \<open>txn_end\<close> that succeeds on an open transaction either leaves it prepared
  because a transaction it overlaps is still open, or ends it: then it is committed or aborted as asked, every partition it
  produced to is released, an abort is indexed there by a range that starts at the transaction's first offset and covers all
  it produced, and the offsets of a commit are the committed offsets of their groups.\<close>

theorem txn_end_applies:
  assumes "txn_end env tid pid epoch committed e = (Inr code, e')"
    and "txn_detail_mut (eng_coord e) tid pid epoch = Inr d" and "txn_status d = Some Begin"
  shows "\<exists>d'. txn_detail_of (eng_coord e') tid epoch = Some d' \<and>
    (txn_status d' = Some (prepare_state committed) \<and>
       (\<exists>r \<in> set (overlapping_transactions (eng_coord e') tid pid epoch). \<not> is_prepared (ref_state r)) \<or>
     txn_status d' = Some (final_state committed) \<and>
       (\<forall>t p r. (t, p, r) \<in> set (produced_ranges d) \<longrightarrow>
          (\<exists>s. fmlookup (eng_partitions e') (Topition t p) = Some s \<and> fmlookup (open_txns s) (tid, pid, epoch) = None \<and>
             (\<not> committed \<longrightarrow> (\<exists>a \<in> set (aborted s). aborted_producer a = pid \<and> aborted_start a = offset_start r \<and>
                offset_end r \<le> aborted_end a)))) \<and>
       (committed \<longrightarrow> (\<forall>g tp co. (g, tp, co) \<in> set (effect_offsets d) \<and> known_topic e' (topic tp) \<longrightarrow>
          map_option commit_offset (fmlookup (eng_offsets e') (g, tp)) = Some (committed_offset co))))"
  using assms(1)
proof (cases rule: txn_end_phases)
  case (deferred ranges e1)
  obtain d2 where d2: "txn_detail_mut (eng_coord e') tid pid epoch = Inr d2" "txn_status d2 = Some (prepare_state committed)"
    using txn_marked [OF deferred(1,2) assms(2,3)] by blast
  have "\<not> list_all (\<lambda>r. is_prepared (ref_state r)) (overlapping_transactions (eng_coord e') tid pid epoch)"
    using deferred(3) d2(1) by (auto simp: txn_resolve_def Let_def split: if_splits prod.splits)
  then show ?thesis using d2 by (auto simp: txn_detail_mut_iff list_all_iff)
next
  case (resolved ranges e1 e2 effects c)
  obtain d2 where d2: "txn_detail_mut (eng_coord e2) tid pid epoch = Inr d2" "txn_status d2 = Some (prepare_state committed)"
      "txn_offsets d2 = txn_offsets d" "ranges = produced_ranges d"
    and grown: "\<And>t p r. (t, p, r) \<in> set (produced_ranges d) \<Longrightarrow>
      \<exists>r'. (t, p, r') \<in> set (produced_ranges d2) \<and> offset_start r' = offset_start r \<and> offset_end r \<le> offset_end r'"
    using txn_marked [OF resolved(1,2) assms(2,3)] by blast
  obtain xs where own: "effects = xs @ [own_effect tid pid epoch committed d2]"
    "txn_detail_of c tid epoch = Some (finish_detail (final_state committed) d2)"
    using resolved(3) d2(1,2) by (rule txn_resolve_own)
  obtain e3 where e3: "eng_partitions e3 = fold apply_effect effects (eng_partitions e2)" "eng_coord e3 = c"
    "commit_txn_offsets env effects e3 = (Inr (), e')"
    using resolved(4) by (rule txn_finish_split) simp
  have coord': "eng_coord e' = c" using keepsD [OF txn_finish_coord resolved(4)] by simp
  have parts: "eng_partitions e' = apply_effect (own_effect tid pid epoch committed d2) (fold apply_effect xs (eng_partitions e2))"
    using keepsD [OF commit_txn_offsets_parts e3(3)] e3(1) by (simp add: own(1))
  have "\<exists>s. fmlookup (eng_partitions e') (Topition t p) = Some s \<and> fmlookup (open_txns s) (tid, pid, epoch) = None \<and>
      (\<not> committed \<longrightarrow> (\<exists>a \<in> set (aborted s). aborted_producer a = pid \<and> aborted_start a = offset_start r \<and> offset_end r \<le> aborted_end a))"
    if r: "(t, p, r) \<in> set (produced_ranges d)" for t p r
  proof -
    obtain r' where r': "(t, p, r') \<in> set (produced_ranges d2)" "offset_start r' = offset_start r" "offset_end r \<le> offset_end r'"
      using grown [OF r] by blast
    have "fmlookup (eng_partitions e2) (Topition t p) \<noteq> None"
      using txn_markers_present [OF resolved(2)] r d2(4) by blast
    then have "fmlookup (fold apply_effect xs (eng_partitions e2)) (Topition t p) \<noteq> None"
      by (simp add: apply_effects_dom)
    moreover have "(Topition t p, r') \<in> set (eff_ranges (own_effect tid pid epoch committed d2))"
      using image_eqI [OF refl r'(1), of "\<lambda>(t, p, r). (Topition t p, r)"]
      by (simp add: own_effect_def effect_ranges_def del: in_produced_ranges)
    ultimately obtain s where "fmlookup (eng_partitions e') (Topition t p) = Some s"
      "released (own_effect tid pid epoch committed d2) r' s"
      unfolding parts using apply_effect_released by blast
    then show ?thesis using r'(2,3)
      by (auto simp: released_def own_effect_def
          intro!: bexI [of _ "\<lparr>aborted_producer = pid, aborted_start = offset_start r, aborted_end = offset_end r'\<rparr>"])
  qed
  moreover have "map_option commit_offset (fmlookup (eng_offsets e') (g, tp)) = Some (committed_offset co)"
    if "committed" "(g, tp, co) \<in> set (effect_offsets d)" "known_topic e' (topic tp)" for g tp co
  proof -
    have off: "effect_offsets d2 = effect_offsets d" by (simp add: effect_offsets_def d2(3))
    have known: "known_topic e3 (topic tp)" using that(3) by (simp add: known_topic_def coord' e3(2))
    have "eff_offsets (own_effect tid pid epoch committed d2) = effect_offsets d"
      using that(1) by (simp add: own_effect_def off)
    from commit_txn_offsets_own [OF e3(3) [unfolded own(1)] this that(2) known]
    show ?thesis by simp
  qed
  ultimately show ?thesis using own(2) by (auto simp: coord' finish_detail_def)
qed

definition txn_aborted :: engine where
  "txn_aborted = snd (txn_end plain_env ''x'' 1 0 False txn_open)"

theorem txn_end_applies_witness:
  "\<exists>s. fmlookup (eng_partitions txn_aborted) (Topition ''t'' 0) = Some s \<and> fmlookup (open_txns s) (''x'', 1, 0) = None \<and>
     (\<exists>a \<in> set (aborted s). aborted_producer a = 1 \<and> aborted_start a = 0)"
proof -
  obtain d where d: "txn_detail_mut (eng_coord txn_open) ''x'' 1 0 = Inr d" "txn_status d = Some Begin"
      "(''t'', 0, \<lparr>offset_start = 0, offset_end = 0\<rparr>) \<in> set (produced_ranges d)"
  proof -
    have "(case txn_detail_mut (eng_coord txn_open) ''x'' 1 0 of Inl _ \<Rightarrow> False
      | Inr d \<Rightarrow> txn_status d = Some Begin \<and> produced_ranges d = [(''t'', 0, \<lparr>offset_start = 0, offset_end = 0\<rparr>)])"
      by code_simp
    then show thesis using that by (auto split: sum.splits simp del: in_produced_ranges)
  qed
  have "fst (txn_end plain_env ''x'' 1 0 False txn_open) = Inr NoError" by code_simp
  then have e: "txn_end plain_env ''x'' 1 0 False txn_open = (Inr NoError, txn_aborted)"
    unfolding txn_aborted_def by (rule fst_snd_eq)
  have "overlapping_transactions (eng_coord txn_aborted) ''x'' 1 0 = []" by code_simp
  with txn_end_applies [OF e d(1,2)] d(3) show ?thesis by fastforce
qed

end
