(* ===== verification/Fence_Spec.thy ===== *)
theory Fence_Spec
  imports Txn_Spec
begin

text \<open>
  The requests of an engine as a step relation with any outcome, what they do to the epochs of producers and
  transactions, and that a producer is fenced by its successor.
\<close>

section \<open>Fencing\<close>

text \<open>The epochs of the producers and of the transactions, which every operation but \<open>init_producer\<close> leaves alone.\<close>

type_synonym epochs_view = "(int, int fset) fmap \<times> (string, int \<times> int fset) fmap"

definition coord_epochs :: "coord_state \<Rightarrow> epochs_view" where
  "coord_epochs c = (fmmap (\<lambda>pd. fmdom (sequences pd)) (producers c), fmmap (\<lambda>t. (producer t, fmdom (epochs t))) (transactions c))"

abbreviation epoch_view :: "engine \<Rightarrow> epochs_view" where
  "epoch_view e \<equiv> coord_epochs (eng_coord e)"

lemma coord_epochs_same: "producers c' = producers c \<Longrightarrow> transactions c' = transactions c \<Longrightarrow> coord_epochs c' = coord_epochs c"
  by (simp add: coord_epochs_def)

lemma coord_epochs_strip: "coord_epochs (strip_coord c) = coord_epochs c"
  by (simp add: coord_epochs_def strip_coord_def fmap.map_comp comp_def strip_producer_def strip_txn_def)

lemma coord_epochs_update [simp]: "coord_epochs (update_txn_detail tid epoch f c) = coord_epochs c"
  by (auto simp: coord_epochs_def update_txn_detail_def option.map_comp comp_def intro!: fmap_ext)

lemma keeps_epochs: "keeps eng_coord f \<Longrightarrow> keeps epoch_view f"
  by (simp add: keeps_def)

lemma produce_epochs [op_intros]: "keeps epoch_view (produce env tid tp b)"
proof -
  have strip: "coord_epochs c' = coord_epochs c" if "produce_coordination tid tp b attrs c = (r, c')" for attrs r c c'
    using produce_coordination_strip [OF that] coord_epochs_strip by metis
  have "keeps epoch_view (produce_guard env tid tp b)"
    by (rule keepsI, drule produce_guard_coord) (auto dest: strip)
  moreover have "keeps epoch_view (ensure_partition env tp)" "keeps epoch_view (produce_append env tid tp b attrs)" for attrs
    using ensure_partition_coord produce_append_coord by (auto intro!: keeps_epochs keepsI)
  moreover have "keeps epoch_view (produce_complete env tid tp b attrs offset)" for attrs offset
  proof (rule keepsI)
    fix e r e' assume "produce_complete env tid tp b attrs offset e = (r, e')"
    moreover have "eng_coord (publish tp fin (tick e)) = eng_coord e" for fin
      by (simp add: publish_def Let_def)
    moreover have "coord_epochs c' = coord_epochs c" if "record_txn_produce x k t p start fin control c = (r0, c')"
      for x k t p start fin control c r0 c'
      using that by (auto simp: record_txn_produce_def split: option.splits if_splits)
    ultimately show "epoch_view e' = epoch_view e"
      by (auto simp: produce_complete_def Let_def split: io_outcome.splits option.splits if_splits prod.splits sum.splits)
  qed
  ultimately show ?thesis unfolding produce_def by (intro op_intros)
qed

lemma resolve_refs_epochs: "resolve_refs rs c = (xs, c') \<Longrightarrow> coord_epochs c' = coord_epochs c"
  by (induction rs c arbitrary: xs rule: resolve_refs.induct) (auto simp: Let_def split: option.splits prod.splits)

lemma wal_append_epochs: "keeps epoch_view (and_then (wal_append env r) (\<lambda>_. ok x))"
  by (rule keeps_epochs) (intro op_intros)

lemma txn_end_epochs [op_intros]: "keeps epoch_view (txn_end env tid pid epoch committed)"
proof -
  have "keeps epoch_view (txn_prepare env tid pid epoch committed)"
    unfolding keeps_def txn_prepare_def
    by (auto simp: Let_def keeps_after [OF wal_append_epochs] split: sum.splits)
  moreover have "keeps epoch_view (txn_markers env tid pid epoch committed ranges)" for ranges
  proof -
    have "keeps epoch_view (produce_marker env tid pid epoch committed tp)" for tp
      using produce_epochs by (auto simp: keeps_def produce_marker_def split: sum.splits)
    then show ?thesis unfolding txn_markers_def case_prod_beta by (intro op_intros)
  qed
  moreover have "keeps epoch_view (\<lambda>e. case txn_resolve tid pid epoch committed (eng_coord e) of
         (Inl err, c) \<Rightarrow> (Inl err, e\<lparr>eng_coord := c\<rparr>)
       | (Inr None, c) \<Rightarrow> (Inr NoError, e\<lparr>eng_coord := c\<rparr>)
       | (Inr (Some effects), c) \<Rightarrow> and_then (txn_finish env effects) (\<lambda>_. ok NoError) (e\<lparr>eng_coord := c\<rparr>))" (is "keeps _ ?last")
    unfolding keeps_def
  proof
    fix e :: engine
    obtain r c where r: "txn_resolve tid pid epoch committed (eng_coord e) = (r, c)" by fastforce
    then have c: "coord_epochs c = epoch_view e"
      by (auto simp: txn_resolve_def Let_def split: sum.splits if_splits prod.splits dest: resolve_refs_epochs)
    have fin: "keeps epoch_view (and_then (txn_finish env effects) (\<lambda>_. ok NoError))" for effects
      using txn_finish_coord by (intro keeps_epochs op_intros)
    show "epoch_view (snd (?last e)) = epoch_view e"
      by (simp add: r c keeps_after [OF fin] split: sum.splits option.splits)
  qed
  ultimately show ?thesis unfolding txn_end_def by (intro op_intros)
qed

lemma collect_keeps [op_intros]: "(\<And>x. keeps v (f x)) \<Longrightarrow> keeps v (collect f xs)"
  by (induction xs) (auto intro!: op_intros)

lemma admin_epochs [op_intros]:
  "keeps epoch_view (create_topic env t)"
  "keeps epoch_view (delete_topic env i)"
  "keeps epoch_view (incremental_alter_resource env ty name alterations)"
  "keeps epoch_view (delete_records env ts)"
  "keeps epoch_view (upsert_user_scram_credential env user mechanism cr)"
  "keeps epoch_view (delete_user_scram_credential env user mechanism)"
proof -
  have ensure: "keeps epoch_view (ensure_partition env tp)" for tp
    using ensure_partition_coord by (auto intro!: keeps_epochs keepsI)
  have create: "keeps epoch_view (and_then (for_each (\<lambda>p. and_then (ensure_partition env (Topition name p)) (\<lambda>_. ok ())) ps) (\<lambda>_.
      and_then (wal_append env r) (\<lambda>_. ok x)))" for name ps r and x :: uuid
    by (intro op_intros ensure keeps_epochs [OF wal_append_coord])
  have same: "coord_epochs (c\<lparr>topics := m\<rparr>) = coord_epochs c" "coord_epochs (c\<lparr>scram := m'\<rparr>) = coord_epochs c" for c m m'
    by (simp_all add: coord_epochs_def)
  show "keeps epoch_view (create_topic env t)"
    unfolding keeps_def create_topic_def by (auto simp: Let_def keeps_after [OF create] same)
  show "keeps epoch_view (delete_topic env i)"
    unfolding keeps_def delete_topic_def
    by (auto simp: Let_def drop_topic_def keeps_after [OF wal_append_epochs] same split: option.splits)
  show "keeps epoch_view (upsert_user_scram_credential env user mechanism cr)"
    "keeps epoch_view (delete_user_scram_credential env user mechanism)"
    unfolding keeps_def upsert_user_scram_credential_def delete_user_scram_credential_def
    by (auto simp: keeps_after [OF keeps_epochs [OF wal_append_coord]] same)
  have alter: "coord_epochs c' = coord_epochs c" if "alter_topic name changes c = (r, c')" for changes c r c'
    using that by (auto simp: alter_topic_def same Let_def split: option.splits sum.splits prod.splits)
  show "keeps epoch_view (incremental_alter_resource env ty name alterations)"
    unfolding keeps_def incremental_alter_resource_def
    by (auto simp: Let_def keeps_after [OF wal_append_epochs] alter split: sum.splits prod.splits)
  have "keeps epoch_view (delete_partition_records env known t x)" for known t x
    unfolding keeps_def delete_partition_records_def
    by (auto simp: Let_def keeps_after [OF wal_append_epochs] set_partition_def case_prod_beta split: option.splits)
  then have rows: "keeps epoch_view (collect (\<lambda>(t, ps). and_then
          (collect (delete_partition_records env (t |\<in>| known) t) (case ps of None \<Rightarrow> [] | Some l \<Rightarrow> l))
          (\<lambda>results. ok (t, results))) ts)" for known
    unfolding case_prod_beta by (intro op_intros)
  show "keeps epoch_view (delete_records env ts)"
    unfolding keeps_def delete_records_def Let_def by (simp add: keeps_after [OF rows])
qed

lemma delete_group_loop_coord: "delete_group_loop gs e = (rs, ds, e') \<Longrightarrow> eng_coord e' = eng_coord e"
  by (induction gs e arbitrary: rs ds e' rule: delete_group_loop.induct)
    (auto simp: delete_group_def Let_def split: prod.splits)

lemma group_epochs [op_intros]:
  "keeps epoch_view (offset_commit env g offsets)"
  "keeps epoch_view (delete_groups env gs)"
  "epoch_view (snd (update_group env g detail expected e)) = epoch_view e"
proof -
  show "keeps epoch_view (offset_commit env g offsets)" by (rule keeps_epochs [OF offset_commit_coord])
  have del: "keeps epoch_view (and_then (for_each (\<lambda>g. wal_append env (GroupDelete g)) deleted) (\<lambda>_. ok results))"
    for deleted and results :: "(string \<times> error_code) list"
    by (intro op_intros keeps_epochs [OF wal_append_coord])
  show "keeps epoch_view (delete_groups env gs)"
    unfolding keeps_def delete_groups_def
    by (auto simp: keeps_after [OF del] delete_group_loop_coord split: option.splits prod.splits)
  have swap: "eng_coord e1 = eng_coord e" if "swap_group g detail expected fresh e = (r, e1)" for fresh r e1
    using that by (auto simp: swap_group_def split: option.splits prod.splits if_splits)
  show "epoch_view (snd (update_group env g detail expected e)) = epoch_view e"
    using keepsD [OF wal_append_coord [of env]]
    by (auto simp: update_group_def split: prod.splits sum.splits dest!: swap)
qed

lemma txn_epochs [op_intros]:
  "keeps epoch_view (txn_add_partitions env request)"
  "keeps epoch_view (txn_offset_commit env rq)"
  unfolding keeps_def txn_add_partitions_def txn_offset_commit_def
  by (auto simp: Let_def keeps_after [OF wal_append_epochs] split: txn_add_partitions_request.splits sum.splits error.splits)

lemma sweep_epochs: "epoch_view (sweep env ts e) = epoch_view e"
  by (induction env ts e rule: sweep.induct) (simp_all add: keeps_after [OF txn_end_epochs])

lemma maintain_epochs [op_intros]:
  "keeps epoch_view (snapshot_now env)"
  "keeps epoch_view (maintain env now)"
  "keeps epoch_view (maintain_transactions env now)"
proof -
  have io: "keeps epoch_view (do_io env)"
    by (simp add: keeps_def do_io_def split: io_outcome.splits)
  have retire: "eng_coord (fold (retire_wal env) sqs e) = eng_coord e" for sqs e
    by (induction sqs arbitrary: e) (simp_all add: retire_wal_def Let_def)
  have snap: "keeps epoch_view (and_then (do_io env) (\<lambda>_.
      and_then (modify rotate_wal) (\<lambda>_.
      and_then (gets (capture sq)) (\<lambda>doc.
      and_then (do_io env) (\<lambda>_.
      and_then (store_snapshot env doc) (\<lambda>_.
      and_then (modify (retire_wals env sq)) (\<lambda>_.
      and_then (do_io env) (\<lambda>_.
      modify (\<lambda>e. e\<lparr>eng_snapshots := prune_snapshots (eng_snapshots e)\<rparr>)))))))))" for sq
    unfolding store_snapshot_def
    by (intro op_intros io keeps_modify) (simp_all add: rotate_wal_def retire_wals_def retire)
  show snapshot: "keeps epoch_view (snapshot_now env)"
    unfolding keeps_def snapshot_now_def Let_def by (simp add: keeps_after [OF snap])
  have delete: "eng_coord (fold (delete_segment env tp) bs e) = eng_coord e" for tp bs e
    by (induction bs arbitrary: e) (simp_all add: delete_segment_def Let_def set_partition_def)
  have retain: "keeps epoch_view (retain_partition env ms bytes now tp)" for ms bytes tp
    unfolding keeps_def retain_partition_def
    by (auto simp: Let_def keeps_after [OF keeps_epochs [OF wal_append_coord]] delete set_partition_def split: option.splits)
  have "keeps epoch_view (for_each (\<lambda>tp. case fmlookup limits (topic tp) of
            None \<Rightarrow> ok () | Some (ms, bytes) \<Rightarrow> retain_partition env ms bytes now tp) tps)" for limits tps
    using retain by (intro op_intros) (auto intro!: op_intros split: option.splits)
  then have retention: "keeps epoch_view (apply_retention env now)"
    unfolding keeps_def apply_retention_def Let_def by blast
  have "keeps epoch_view (\<lambda>e. if eng_wal_bytes e > 0 then snapshot_now env e else (Inr (), e))"
    using snapshot by (simp add: keeps_def)
  with retention show "keeps epoch_view (maintain env now)" unfolding maintain_def by (intro op_intros)
  show "keeps epoch_view (maintain_transactions env now)"
    by (simp add: keeps_def maintain_transactions_def sweep_epochs)
qed

text \<open>A producer of a transaction has the transaction's epochs, and no other transaction has the same producer.\<close>

definition epochs_agree :: "epochs_view \<Rightarrow> bool" where
  "epochs_agree = (\<lambda>(ps, ts).
     (\<forall>tid pid es. fmlookup ts tid = Some (pid, es) \<longrightarrow> fmlookup ps pid = Some es) \<and>
     (\<forall>tid tid' pid es es'. fmlookup ts tid = Some (pid, es) \<and> fmlookup ts tid' = Some (pid, es') \<longrightarrow> tid = tid'))"

text \<open>The epoch of a transaction is fenced: a greater one has been handed out.\<close>

definition fenced :: "string \<Rightarrow> int \<Rightarrow> int \<Rightarrow> epochs_view \<Rightarrow> bool" where
  "fenced tid pid epoch = (\<lambda>(ps, ts). \<exists>es. fmlookup ts tid = Some (pid, es) \<and> (\<exists>k. k |\<in>| es \<and> epoch < k))"

text \<open>What \<open>init_producer\<close> does to the epochs.\<close>

inductive epoch_step :: "epochs_view \<Rightarrow> epochs_view \<Rightarrow> bool" where
  stay: "epoch_step v v"
| fresh: "fmlookup ps pid = None \<Longrightarrow> epoch_step (ps, ts) (fmupd pid {|0|} ps, ts)"
| begin_txn: "fmlookup ps pid = None \<Longrightarrow> fmlookup ts tid = None \<Longrightarrow>
    epoch_step (ps, ts) (fmupd pid {|0|} ps, fmupd tid (pid, {|0|}) ts)"
| bump: "fmlookup ts tid = Some (pid, es) \<Longrightarrow> fmlookup ps pid = Some es' \<Longrightarrow>
    epoch_step (ps, ts) (fmupd pid (finsert k es') ps, fmupd tid (pid, finsert k es) ts)"

lemma epoch_step_agree: "epoch_step v v' \<Longrightarrow> epochs_agree v \<Longrightarrow> epochs_agree v'"
  by (induction rule: epoch_step.induct) (auto simp: epochs_agree_def; metis option.distinct(1))+

lemma epoch_step_fenced: "epoch_step v v' \<Longrightarrow> fenced tid pid epoch v \<Longrightarrow> fenced tid pid epoch v'"
  by (induction rule: epoch_step.induct) (auto simp: fenced_def)

lemma epoch_steps_agree: "epoch_step\<^sup>*\<^sup>* v v' \<Longrightarrow> epochs_agree v \<Longrightarrow> epochs_agree v'"
  by (induction rule: rtranclp_induct) (auto intro: epoch_step_agree)

lemma epoch_steps_fenced: "epoch_step\<^sup>*\<^sup>* v v' \<Longrightarrow> fenced tid pid epoch v \<Longrightarrow> fenced tid pid epoch v'"
  by (induction rule: rtranclp_induct) (auto intro: epoch_step_fenced)

lemma next_producer_id_fresh: "fmlookup (producers c) (next_producer_id c) = None"
proof (cases "last_entry (producers c)")
  case None
  then show ?thesis by (simp add: last_entry_None)
next
  case (Some x)
  have "k \<le> fst x" if "fmlookup (producers c) k \<noteq> None" for k
    using Some that by (cases x) (auto simp: last_entry_Some fmlookup_dom'_iff)
  then show ?thesis using Some by (cases x) (force simp: next_producer_id_def)
qed

lemma coord_epochs_fresh:
  "coord_epochs (c\<lparr>producers := fmupd i \<lparr>sequences = fmupd k fmempty fmempty\<rparr> (producers c),
     transactions := fmupd tid \<lparr>producer = i, epochs = fmupd k d fmempty\<rparr> (transactions c)\<rparr>) =
   (fmupd i {|k|} (fst (coord_epochs c)), fmupd tid (i, {|k|}) (snd (coord_epochs c)))"
  by (auto simp: coord_epochs_def intro!: fmap_ext)

lemma coord_epochs_bump:
  assumes "fmlookup (transactions c) tid = Some t" and "fmlookup (fst (coord_epochs c)) (producer t) = Some es"
  shows "coord_epochs (c\<lparr>producers := adjust (producer t) (\<lambda>pd. pd\<lparr>sequences := fmupd k fmempty (sequences pd)\<rparr>) (producers c),
      transactions := adjust tid (\<lambda>t. t\<lparr>epochs := fmupd k d (epochs t)\<rparr>) (transactions c)\<rparr>) =
    (fmupd (producer t) (finsert k es) (fst (coord_epochs c)),
     fmupd tid (producer t, finsert k (fmdom (epochs t))) (snd (coord_epochs c)))"
  using assms by (auto simp: coord_epochs_def intro!: fmap_ext)

text \<open>The three outcomes under the lock: a refusal or a roll back, a new transaction, a new epoch.\<close>

lemma init_transactional_cases:
  assumes "init_transactional tid timeout pid epoch c = (out, c')"
  obtains (same) "c' = c" "\<And>r log. out = Completed r log \<Longrightarrow> pid_error r \<noteq> NoError"
  | (new) i where "i = next_producer_id c" "fmlookup (transactions c) tid = None"
      "\<And>r log. out = Completed r log \<Longrightarrow> pid_id r = i \<and> pid_epoch r = 0"
      "c' = c\<lparr>producers := fmupd i \<lparr>sequences = fmupd 0 fmempty fmempty\<rparr> (producers c),
        transactions := fmupd tid \<lparr>producer = i, epochs = fmupd 0 (fresh_txn_detail timeout) fmempty\<rparr> (transactions c)\<rparr>"
  | (bumped) t k where "fmlookup (transactions c) tid = Some t"
      "\<And>r log. out = Completed r log \<Longrightarrow> pid_id r = producer t \<and> pid_epoch r = k"
      "c' = c\<lparr>producers := adjust (producer t) (\<lambda>pd. pd\<lparr>sequences := fmupd k fmempty (sequences pd)\<rparr>) (producers c),
        transactions := adjust tid (\<lambda>t. t\<lparr>epochs := fmupd k (fresh_txn_detail timeout) (epochs t)\<rparr>) (transactions c)\<rparr>"
proof (cases "pid = Some (-1) \<and> epoch = Some (-1)")
  case False
  then show ?thesis using assms same by (auto simp: init_transactional_def producer_refused_def)
next
  case True
  show ?thesis
  proof (cases "fmlookup (transactions c) tid")
    case None
    then show ?thesis using assms True new by (auto simp: init_transactional_def Let_def)
  next
    case (Some t)
    then show ?thesis
      using assms True same bumped [OF Some]
      by (auto simp: init_transactional_def Let_def producer_refused_def split: option.splits if_splits prod.splits)
  qed
qed

lemma init_transactional_epochs:
  assumes "init_transactional tid timeout pid epoch c = (out, c')" and "epochs_agree (coord_epochs c)"
  shows "epoch_step (coord_epochs c) (coord_epochs c') \<and>
    (\<forall>r log k. out = Completed r log \<and> pid_error r = NoError \<and> k < pid_epoch r \<longrightarrow> fenced tid (pid_id r) k (coord_epochs c'))"
  using assms(1)
proof (cases rule: init_transactional_cases)
  case same
  then show ?thesis by (auto intro: stay)
next
  case (new i)
  have "fmlookup (fst (coord_epochs c)) i = None" "fmlookup (snd (coord_epochs c)) tid = None"
    by (simp_all add: coord_epochs_def next_producer_id_fresh new(1,2))
  from begin_txn [OF this] show ?thesis
    using new(3) unfolding new(4) coord_epochs_fresh by (auto simp: fenced_def)
next
  case (bumped t k)
  have ts: "fmlookup (snd (coord_epochs c)) tid = Some (producer t, fmdom (epochs t))"
    by (simp add: coord_epochs_def bumped(1))
  then have ps: "fmlookup (fst (coord_epochs c)) (producer t) = Some (fmdom (epochs t))"
    using assms(2) by (auto simp: epochs_agree_def case_prod_beta)
  show ?thesis
    using bump [OF ts ps, of k] bumped(2) unfolding bumped(3) coord_epochs_bump [OF bumped(1) ps] by (auto simp: fenced_def)
qed

lemma init_producer_txn_epochs:
  assumes "init_producer_txn fuel env tid timeout pid epoch e = (res, e')" and "epochs_agree (epoch_view e)"
  shows "epoch_step\<^sup>*\<^sup>* (epoch_view e) (epoch_view e') \<and>
    (\<forall>r k. res = Inr (Some r) \<and> pid_error r = NoError \<and> k < pid_epoch r \<longrightarrow> fenced tid (pid_id r) k (epoch_view e'))"
  using assms
proof (induction fuel arbitrary: e)
  case 0
  then show ?case by auto
next
  case (Suc fuel)
  obtain out c where i: "init_transactional tid timeout pid epoch (eng_coord e) = (out, c)" by fastforce
  note step = init_transactional_epochs [OF i Suc.prems(2)]
  show ?case
  proof (cases out)
    case (Completed response log)
    let ?w = "and_then (case log of None \<Rightarrow> ok () | Some r \<Rightarrow> wal_append env r) (\<lambda>_. ok (Some response))"
    have w: "?w (e\<lparr>eng_coord := c\<rparr>) = (res, e')" using Suc.prems(1) i Completed by simp
    have "keeps epoch_view ?w"
      by (intro keeps_epochs op_intros) (auto intro!: op_intros split: option.splits)
    from keepsD [OF this w] have "epoch_view e' = coord_epochs c" by simp
    moreover have "r = response" if "res = Inr (Some r)" for r
      using w that by (auto simp: and_then_def split: option.splits prod.splits sum.splits)
    ultimately show ?thesis using step Completed by auto
  next
    case (NeedToRollback rpid repoch)
    obtain r1 e1 where t: "txn_end env tid rpid repoch False (e\<lparr>eng_coord := c\<rparr>) = (r1, e1)" by fastforce
    have e1: "epoch_view e1 = coord_epochs c" using keepsD [OF txn_end_epochs t] by simp
    show ?thesis
    proof (cases "r1 = Inr NoError")
      case True
      then have again: "init_producer_txn fuel env tid timeout pid epoch e1 = (res, e')"
        using Suc.prems(1) i NeedToRollback t by (simp add: and_then_def)
      have "epochs_agree (epoch_view e1)"
        using e1 step epoch_step_agree Suc.prems(2) by metis
      from Suc.IH [OF again this] show ?thesis
        using e1 step by (metis converse_rtranclp_into_rtranclp)
    next
      case False
      then have "e' = e1 \<and> (res = Inr (Some producer_refused) \<or> (\<exists>err. res = Inl err))"
        using Suc.prems(1) i NeedToRollback t by (cases r1) (auto simp: and_then_def)
      then show ?thesis using e1 step by (auto simp: producer_refused_def)
    qed
  qed
qed

lemma init_idempotent_epochs:
  "init_idempotent env pid epoch e = (res, e') \<Longrightarrow> epoch_step (epoch_view e) (epoch_view e')"
proof -
  assume a: "init_idempotent env pid epoch e = (res, e')"
  let ?i = "next_producer_id (eng_coord e)"
  let ?c = "(eng_coord e)\<lparr>producers := fmupd ?i \<lparr>sequences = fmupd 0 fmempty fmempty\<rparr> (producers (eng_coord e))\<rparr>"
  have c: "coord_epochs ?c = (fmupd ?i {|0|} (fst (epoch_view e)), snd (epoch_view e))"
    by (auto simp: coord_epochs_def intro!: fmap_ext)
  have "fmlookup (fst (epoch_view e)) ?i = None" by (simp add: coord_epochs_def next_producer_id_fresh)
  from fresh [OF this, of "snd (epoch_view e)"] have "epoch_step (epoch_view e) (coord_epochs ?c)" by (simp add: c)
  moreover have "epoch_view e' = epoch_view e \<or> epoch_view e' = coord_epochs ?c"
    using a keepsD [OF wal_append_epochs]
    by (fastforce simp: init_idempotent_def Let_def split: if_splits)
  ultimately show ?thesis by (auto intro: stay)
qed

lemma init_producer_epochs:
  assumes "init_producer fuel env transaction_id timeout pid epoch e = (res, e')" and "epochs_agree (epoch_view e)"
  shows "epoch_step\<^sup>*\<^sup>* (epoch_view e) (epoch_view e')"
    and "transaction_id = Some tid \<Longrightarrow> res = Inr (Some r) \<Longrightarrow> pid_error r = NoError \<Longrightarrow> k < pid_epoch r \<Longrightarrow>
      fenced tid (pid_id r) k (epoch_view e')"
proof -
  show "epoch_step\<^sup>*\<^sup>* (epoch_view e) (epoch_view e')"
  proof (cases transaction_id)
    case None
    obtain r1 where "init_idempotent env pid epoch e = (r1, e')"
      using assms(1) None by (auto simp: init_producer_def and_then_def split: prod.splits sum.splits)
    from init_idempotent_epochs [OF this] show ?thesis by (rule r_into_rtranclp)
  next
    case (Some tid)
    then show ?thesis using assms init_producer_txn_epochs by (auto simp: init_producer_def)
  qed
  show "fenced tid (pid_id r) k (epoch_view e')"
    if "transaction_id = Some tid" "res = Inr (Some r)" "pid_error r = NoError" "k < pid_epoch r"
    using assms that init_producer_txn_epochs by (auto simp: init_producer_def)
qed

text \<open>The requests an engine serves, with any outcome.\<close>

inductive request :: "env \<Rightarrow> engine \<Rightarrow> engine \<Rightarrow> bool" for env where
  rq_produce: "produce env tid tp b e = (res, e') \<Longrightarrow> request env e e'"
| rq_create_topic: "create_topic env t e = (res, e') \<Longrightarrow> request env e e'"
| rq_delete_topic: "delete_topic env t e = (res, e') \<Longrightarrow> request env e e'"
| rq_alter: "incremental_alter_resource env ty name alterations e = (res, e') \<Longrightarrow> request env e e'"
| rq_delete_records: "delete_records env ts e = (res, e') \<Longrightarrow> request env e e'"
| rq_upsert: "upsert_user_scram_credential env user mechanism cr e = (res, e') \<Longrightarrow> request env e e'"
| rq_drop: "delete_user_scram_credential env user mechanism e = (res, e') \<Longrightarrow> request env e e'"
| rq_offset_commit: "offset_commit env g offsets e = (res, e') \<Longrightarrow> request env e e'"
| rq_delete_groups: "delete_groups env gs e = (res, e') \<Longrightarrow> request env e e'"
| rq_update_group: "update_group env g detail expected e = (res, e') \<Longrightarrow> request env e e'"
| rq_init_producer: "init_producer fuel env transaction_id timeout pid epoch e = (res, e') \<Longrightarrow> request env e e'"
| rq_add_partitions: "txn_add_partitions env add e = (res, e') \<Longrightarrow> request env e e'"
| rq_txn_offsets: "txn_offset_commit env rq e = (res, e') \<Longrightarrow> request env e e'"
| rq_txn_end: "txn_end env tid pid epoch committed e = (res, e') \<Longrightarrow> request env e e'"
| rq_snapshot: "snapshot_now env e = (res, e') \<Longrightarrow> request env e e'"
| rq_maintain: "maintain env now e = (res, e') \<Longrightarrow> request env e e'"
| rq_sweep: "maintain_transactions env now e = (res, e') \<Longrightarrow> request env e e'"

lemma kept_steps: "keeps epoch_view f \<Longrightarrow> f e = (res, e') \<Longrightarrow> epoch_step\<^sup>*\<^sup>* (epoch_view e) (epoch_view e')"
  by (metis keepsD rtranclp.rtrancl_refl)

lemma request_epochs:
  assumes "request env e e'" and "epochs_agree (epoch_view e)"
  shows "epoch_step\<^sup>*\<^sup>* (epoch_view e) (epoch_view e')"
  using assms
proof (induction rule: request.induct)
  case (rq_update_group g detail expected e res e')
  then show ?case using group_epochs(3) by (metis rtranclp.rtrancl_refl snd_conv)
next
  case (rq_init_producer fuel transaction_id timeout pid epoch e res e')
  then show ?case by (rule init_producer_epochs)
qed (erule kept_steps [rotated], intro op_intros)+

lemma requests_epochs:
  assumes "(request env)\<^sup>*\<^sup>* e e'" and "epochs_agree (epoch_view e)"
  shows "epoch_step\<^sup>*\<^sup>* (epoch_view e) (epoch_view e') \<and> epochs_agree (epoch_view e')"
  using assms
proof (induction rule: rtranclp_induct)
  case base
  then show ?case by simp
next
  case (step y z)
  then have "epoch_step\<^sup>*\<^sup>* (epoch_view y) (epoch_view z)" using request_epochs by blast
  then show ?case using step epoch_steps_agree by (metis rtranclp_trans)
qed

text \<open>What a fenced producer is answered.\<close>

lemma fenced_greater:
  assumes "fenced tid pid epoch (coord_epochs c)" and "epochs_agree (coord_epochs c)"
  obtains t pd k where "fmlookup (transactions c) tid = Some t" "producer t = pid" "fmlookup (producers c) pid = Some pd"
    "k \<in> fmdom' (epochs t)" "k \<in> fmdom' (sequences pd)" "epoch < k"
proof -
  obtain es k where es: "fmlookup (snd (coord_epochs c)) tid = Some (pid, es)" "k |\<in>| es" "epoch < k"
    using assms(1) by (auto simp: fenced_def case_prod_beta)
  then have "fmlookup (fst (coord_epochs c)) pid = Some es"
    using assms(2) by (auto simp: epochs_agree_def case_prod_beta)
  then show thesis
    using es that by (auto simp: coord_epochs_def fmdom'_alt_def)
qed

lemma fenced_last:
  assumes "k \<in> fmdom' m" and "(epoch :: int) < k"
  obtains current v where "last_entry m = Some (current, v)" "current \<noteq> epoch"
proof -
  have "m \<noteq> fmempty" using assms(1) by auto
  then obtain current v where l: "last_entry m = Some (current, v)" by (metis last_entry_None option.exhaust prod.exhaust)
  then have "k \<le> current" using assms(1) by (simp add: last_entry_Some)
  then show thesis using that l assms(2) by auto
qed

lemma fenced_txn_detail:
  assumes "fenced tid pid epoch (coord_epochs c)" and "epochs_agree (coord_epochs c)"
  shows "txn_detail_mut c tid pid epoch = Inl (Api ProducerFenced)"
proof -
  obtain t pd k where t: "fmlookup (transactions c) tid = Some t" "producer t = pid" "k \<in> fmdom' (epochs t)" "epoch < k"
    using assms by (rule fenced_greater)
  obtain current d where "last_entry (epochs t) = Some (current, d)" "current \<noteq> epoch"
    using t(3,4) by (rule fenced_last)
  then show ?thesis using t(1,2) by (simp add: txn_detail_mut_def)
qed

lemma fenced_sequence:
  assumes "fenced tid pid epoch (coord_epochs c)" and "epochs_agree (coord_epochs c)"
  shows "validate_sequence pid epoch base delta t p c = (Inl (Api ProducerFenced), c)"
proof -
  obtain x pd k where pd: "fmlookup (producers c) pid = Some pd" "k \<in> fmdom' (sequences pd)" "epoch < k"
    using assms by (rule fenced_greater)
  obtain current m where "last_entry (sequences pd) = Some (current, m)" "current \<noteq> epoch"
    using pd(2,3) by (rule fenced_last)
  then show ?thesis using pd(1) by (simp add: validate_sequence_def)
qed

lemma fenced_produce:
  assumes "fenced tid pid epoch (epoch_view e)" and "epochs_agree (epoch_view e)"
    and "is_idempotent b" and "b_producer_id b = pid" and "b_producer_epoch b = epoch"
  shows "\<exists>err. produce env tid' tp b e = (Inl err, e)"
proof -
  have "produce_coordination tid' tp b attrs (eng_coord e) = (Inl (Api ProducerFenced), eng_coord e)" for attrs
    using fenced_sequence [OF assms(1,2)] assms(3-5) by (simp add: produce_coordination_def and_then_def)
  then have "\<exists>err. produce_guard env tid' tp b e = (Inl err, e)"
    using assms(3) by (simp add: produce_guard_def split: sum.splits)
  then show ?thesis by (auto simp: produce_def and_then_def)
qed

text \<open>C5: A new producer fences the old ones.  Once a transactional \<open>init_producer\<close> has answered with an epoch, then after any further
  requests, whatever their outcomes, the engine refuses a producer that still uses an earlier epoch of the transaction: an idempotent produce
  fails and changes nothing, ending the transaction fails, and partitions and offsets are answered \<open>ProducerFenced\<close>, all without a
  change of the state.\<close>

theorem zombie_producer_fenced:
  assumes "(request env)\<^sup>*\<^sup>* blank_engine e0" and "init_producer fuel env (Some tid) timeout (Some (-1)) (Some (-1)) e0 = (Inr (Some r), e1)"
    and "pid_error r = NoError" and "(request env)\<^sup>*\<^sup>* e1 e" and "epoch < pid_epoch r"
  shows "(\<forall>tid' tp b. is_idempotent b \<and> b_producer_id b = pid_id r \<and> b_producer_epoch b = epoch \<longrightarrow>
      (\<exists>err. produce env tid' tp b e = (Inl err, e)))
    \<and> txn_end env tid (pid_id r) epoch committed e = (Inl (Api ProducerFenced), e)
    \<and> txn_add_partitions env (VersionZeroToThree tid (pid_id r) epoch ts) e = (Inr (txn_add_partitions_response ts ProducerFenced), e)
    \<and> (\<forall>rq. toc_transaction_id rq = tid \<and> toc_producer_id rq = pid_id r \<and> toc_producer_epoch rq = epoch \<longrightarrow>
        txn_offset_commit env rq e = (Inr (txn_offset_commit_response rq ProducerFenced), e))"
proof -
  have "epochs_agree (epoch_view blank_engine)"
    by (simp add: epochs_agree_def coord_epochs_def blank_engine_def coord_default_def)
  then have agree0: "epochs_agree (epoch_view e0)" using requests_epochs assms(1) by blast
  note init = init_producer_epochs [OF assms(2) agree0]
  have agree1: "epochs_agree (epoch_view e1)" using epoch_steps_agree [OF init(1) agree0] .
  have "fenced tid (pid_id r) epoch (epoch_view e1)" using init(2) assms(3,5) by blast
  moreover note requests_epochs [OF assms(4) agree1]
  ultimately have fenced: "fenced tid (pid_id r) epoch (epoch_view e)" and agree: "epochs_agree (epoch_view e)"
    using epoch_steps_fenced by blast+
  note detail = fenced_txn_detail [OF fenced agree]
  show ?thesis
    using fenced_produce [OF fenced agree] detail
    by (auto simp: txn_end_def txn_prepare_def and_then_def txn_add_partitions_def txn_offset_commit_def Let_def)
qed

theorem zombie_producer_fenced_witness:
  "fst (txn_end plain_env ''x'' 1 0 True (snd (init_producer 2 plain_env (Some ''x'') 60000 (Some (-1)) (Some (-1)) txn_started))) =
     Inl (Api ProducerFenced)"
proof -
  let ?i = "init_producer 2 plain_env (Some ''x'') 60000 (Some (-1)) (Some (-1))"
  have "?i blank_engine = (fst (?i blank_engine), txn_started)" by (simp add: txn_started_def)
  then have "request plain_env blank_engine txn_started" by (rule rq_init_producer)
  then have r: "(request plain_env)\<^sup>*\<^sup>* blank_engine txn_started" by simp
  have "fst (?i txn_started) = Inr (Some \<lparr>pid_error = NoError, pid_id = 1, pid_epoch = 1\<rparr>)" by code_simp
  then have i: "?i txn_started = (Inr (Some \<lparr>pid_error = NoError, pid_id = 1, pid_epoch = 1\<rparr>), snd (?i txn_started))"
    by (rule fst_snd_eq)
  show ?thesis using zombie_producer_fenced [OF r i _ rtranclp.rtrancl_refl, of 0 True "[]"] by simp
qed

end
