(* ===== verification/Group_State.thy ===== *)
theory Group_State
  imports Engine_Group
begin

text \<open>
  The consumer group state machine of \<open>tansu-broker/src/coordinator/group/administrator.rs\<close>: the
  \<open>Forming\<close> and \<open>Formed\<close> states, the responses, and for each state its handlers for join, sync,
  heartbeat, leave and offset commit.  A handler is a function of the group it takes by value; one that
  can panic (an index out of range, an \<open>expect\<close>) returns \<open>Inl Panic\<close> there.  \<open>SystemTime\<close> is in
  milliseconds, the generation is an \<open>i32\<close> whose increment wraps, and the text of a new \<open>Uuid\<close> is an
  argument.
\<close>

section \<open>Requests and responses\<close>

record join_group_request_protocol =
  protocol_label :: string
  protocol_metadata :: bytes

text \<open>The arguments of \<open>join\<close>; \<open>reason\<close> and \<open>group_id\<close> only reach the log.\<close>

record join_request =
  jq_client_id :: "string option"
  jq_session_timeout_ms :: int
  jq_rebalance_timeout_ms :: "int option"
  jq_member_id :: string
  jq_group_instance_id :: "string option"
  jq_protocol_type :: string
  jq_protocols :: "join_group_request_protocol list option"

record join_group_response =
  jr_throttle_time_ms :: "int option"
  jr_error_code :: error_code
  jr_generation_id :: int
  jr_protocol_type :: "string option"
  jr_protocol_name :: "string option"
  jr_leader :: string
  jr_skip_assignment :: "bool option"
  jr_member_id :: string
  jr_members :: "join_group_response_member list option"

record sync_group_response =
  sr_throttle_time_ms :: "int option"
  sr_error_code :: error_code
  sr_protocol_type :: "string option"
  sr_protocol_name :: "string option"
  sr_assignment :: bytes

record member_response =
  mr_member_id :: string
  mr_group_instance_id :: "string option"
  mr_error_code :: error_code

record offset_fetch_partition =
  fp_partition_index :: int
  fp_committed_offset :: int
  fp_committed_leader_epoch :: "int option"
  fp_metadata :: "string option"
  fp_error_code :: error_code

datatype body =
    JoinGroupResponse join_group_response
  | SyncGroupResponse sync_group_response
  | HeartbeatResponse (hb_throttle_time_ms: "int option") (hb_error_code: error_code)
  | LeaveGroupResponse (lv_throttle_time_ms: "int option") (lv_error_code: error_code)
      (lv_members: "member_response list option")
  | OffsetCommitResponse (oc_throttle_time_ms: "int option")
      (oc_topics: "(string \<times> (int \<times> error_code) list option) list option")
  | OffsetFetchResponse (of_throttle_time_ms: "int option")
      (of_topics: "(string \<times> offset_fetch_partition list) list option") (of_error_code: "error_code option")
      (of_groups: "(string \<times> (string \<times> offset_fetch_partition list) list \<times> error_code) list option")

record sync_group_request_assignment =
  assignee :: string
  assigned :: bytes

record member_identity =
  mi_member_id :: string
  mi_group_instance_id :: "string option"

section \<open>The group\<close>

record member =
  m_join_response :: join_group_response_member
  m_last_contact :: "system_time option"

record forming =
  fg_protocol_type :: "string option"
  fg_protocol_name :: "string option"
  fg_leader :: "string option"

record formed =
  fd_protocol_type :: string
  fd_protocol_name :: string
  fd_leader :: string
  fd_assignments :: "(string, bytes) fmap"

record 'st inner =
  in_session_timeout_ms :: int
  in_rebalance_timeout_ms :: "int option"
  in_members :: "(string, member) fmap"
  in_generation_id :: int
  in_state :: 'st
  in_skip_assignment :: "bool option"
  in_inception :: system_time

datatype wrapper = Wrapper_Forming "forming inner" | Wrapper_Formed "formed inner"

definition forming_default :: forming where
  "forming_default = \<lparr>fg_protocol_type = None, fg_protocol_name = None, fg_leader = None\<rparr>"

definition inner_new :: "system_time \<Rightarrow> forming inner" where
  "inner_new now = \<lparr>in_session_timeout_ms = 0, in_rebalance_timeout_ms = None, in_members = fmempty,
     in_generation_id = 0, in_state = forming_default, in_skip_assignment = Some False, in_inception = now\<rparr>"

text \<open>The struct expressions \<open>Inner { generation_id, state, .. }\<close> that move a group to another state.\<close>

definition with_state :: "int \<Rightarrow> 'b \<Rightarrow> 'a inner \<Rightarrow> 'b inner" where
  "with_state gen st i = \<lparr>in_session_timeout_ms = in_session_timeout_ms i,
     in_rebalance_timeout_ms = in_rebalance_timeout_ms i, in_members = in_members i, in_generation_id = gen,
     in_state = st, in_skip_assignment = in_skip_assignment i, in_inception = in_inception i\<rparr>"

definition next_generation :: "int \<Rightarrow> int" where
  "next_generation gen = wrap_signed 32 (gen + 1)"

text \<open>The \<open>Forming\<close> state that a \<open>Formed\<close> group falls back to.\<close>

definition reforming :: "string option \<Rightarrow> formed \<Rightarrow> forming" where
  "reforming leader f = \<lparr>fg_protocol_type = Some (fd_protocol_type f),
     fg_protocol_name = Some (fd_protocol_name f), fg_leader = leader\<rparr>"

subsection \<open>The stored form\<close>

definition group_member_of :: "member \<Rightarrow> group_member" where
  "group_member_of m = \<lparr>join_response = m_join_response m, last_contact = m_last_contact m\<rparr>"

definition member_of :: "group_member \<Rightarrow> member" where
  "member_of m = \<lparr>m_join_response = join_response m, m_last_contact = last_contact m\<rparr>"

definition group_detail_of :: "wrapper \<Rightarrow> group_detail" where
  "group_detail_of w =
     (case w of
        Wrapper_Forming i \<Rightarrow>
          \<lparr>session_timeout_ms = in_session_timeout_ms i, rebalance_timeout_ms = in_rebalance_timeout_ms i,
           members = fmmap group_member_of (in_members i), generation_id = in_generation_id i,
           skip_assignment = in_skip_assignment i, inception = in_inception i,
           group_status = Forming (fg_protocol_type (in_state i)) (fg_protocol_name (in_state i))
             (fg_leader (in_state i))\<rparr>
      | Wrapper_Formed i \<Rightarrow>
          \<lparr>session_timeout_ms = in_session_timeout_ms i, rebalance_timeout_ms = in_rebalance_timeout_ms i,
           members = fmmap group_member_of (in_members i), generation_id = in_generation_id i,
           skip_assignment = in_skip_assignment i, inception = in_inception i,
           group_status = Formed (fd_protocol_type (in_state i)) (fd_protocol_name (in_state i))
             (fd_leader (in_state i)) (fd_assignments (in_state i))\<rparr>)"

text \<open>A stored leader that is not a member any more is dropped when the group is read back.\<close>

definition with_storage_group_detail :: "group_detail \<Rightarrow> wrapper" where
  "with_storage_group_detail gd =
     (case group_status gd of
        Forming pt pn leader \<Rightarrow>
          (let leader = (case leader of
                 Some l \<Rightarrow> if \<not> list_ex (\<lambda>(id, _). id = l) (entries (members gd)) then None else Some l
               | None \<Rightarrow> None)
           in Wrapper_Forming
                \<lparr>in_session_timeout_ms = session_timeout_ms gd, in_rebalance_timeout_ms = rebalance_timeout_ms gd,
                 in_members = fmmap member_of (members gd), in_generation_id = generation_id gd,
                 in_state = \<lparr>fg_protocol_type = pt, fg_protocol_name = pn, fg_leader = leader\<rparr>,
                 in_skip_assignment = skip_assignment gd, in_inception = inception gd\<rparr>)
      | Formed pt pn leader asg \<Rightarrow>
          Wrapper_Formed
            \<lparr>in_session_timeout_ms = session_timeout_ms gd, in_rebalance_timeout_ms = rebalance_timeout_ms gd,
             in_members = fmmap member_of (members gd), in_generation_id = generation_id gd,
             in_state = \<lparr>fd_protocol_type = pt, fd_protocol_name = pn, fd_leader = leader,
               fd_assignments = asg\<rparr>,
             in_skip_assignment = skip_assignment gd, in_inception = inception gd\<rparr>)"

subsection \<open>Accessors of the wrapper\<close>

fun w_members :: "wrapper \<Rightarrow> (string, member) fmap" where
  "w_members (Wrapper_Forming i) = in_members i"
| "w_members (Wrapper_Formed i) = in_members i"

fun w_generation_id :: "wrapper \<Rightarrow> int" where
  "w_generation_id (Wrapper_Forming i) = in_generation_id i"
| "w_generation_id (Wrapper_Formed i) = in_generation_id i"

fun w_session_timeout_ms :: "wrapper \<Rightarrow> int" where
  "w_session_timeout_ms (Wrapper_Forming i) = in_session_timeout_ms i"
| "w_session_timeout_ms (Wrapper_Formed i) = in_session_timeout_ms i"

fun w_protocol_type :: "wrapper \<Rightarrow> string option" where
  "w_protocol_type (Wrapper_Forming i) = fg_protocol_type (in_state i)"
| "w_protocol_type (Wrapper_Formed i) = Some (fd_protocol_type (in_state i))"

fun w_protocol_name :: "wrapper \<Rightarrow> string option" where
  "w_protocol_name (Wrapper_Forming i) = fg_protocol_name (in_state i)"
| "w_protocol_name (Wrapper_Formed i) = Some (fd_protocol_name (in_state i))"

fun w_leader :: "wrapper \<Rightarrow> string option" where
  "w_leader (Wrapper_Forming i) = fg_leader (in_state i)"
| "w_leader (Wrapper_Formed i) = Some (fd_leader (in_state i))"

fun w_skip_assignment :: "wrapper \<Rightarrow> bool option" where
  "w_skip_assignment (Wrapper_Forming i) = in_skip_assignment i"
| "w_skip_assignment (Wrapper_Formed i) = in_skip_assignment i"

fun w_assignments :: "wrapper \<Rightarrow> (string, bytes) fmap option" where
  "w_assignments (Wrapper_Forming i) = None"
| "w_assignments (Wrapper_Formed i) = Some (fd_assignments (in_state i))"

definition member_list :: "wrapper \<Rightarrow> join_group_response_member list" where
  "member_list w = map (\<lambda>(_, m). m_join_response m) (entries (w_members w))"

definition is_assigned :: "wrapper \<Rightarrow> body \<Rightarrow> bool" where
  "is_assigned w b =
     (case b of
        SyncGroupResponse r \<Rightarrow> sr_error_code r = NoError \<and> sr_assignment r \<noteq> []
      | JoinGroupResponse r \<Rightarrow> jr_error_code r = NoError \<and>
          (case w_assignments w of None \<Rightarrow> False | Some as \<Rightarrow> fmlookup as (jr_member_id r) \<noteq> None)
      | _ \<Rightarrow> False)"

definition is_member_id_required :: "body \<Rightarrow> bool" where
  "is_member_id_required b =
     (case b of JoinGroupResponse r \<Rightarrow> jr_error_code r = MemberIdRequired | _ \<Rightarrow> False)"

definition set_error_code :: "body \<Rightarrow> error_code \<Rightarrow> error + body" where
  "set_error_code b code =
     (case b of SyncGroupResponse r \<Rightarrow> Inr (SyncGroupResponse (r\<lparr>sr_error_code := code\<rparr>)) | _ \<Rightarrow> Inl Panic)"

section \<open>Membership\<close>

definition update_last_contact :: "string \<Rightarrow> system_time \<Rightarrow> 'st inner \<Rightarrow> 'st inner" where
  "update_last_contact mid now i =
     (if mid \<noteq> [] then i\<lparr>in_members := adjust mid (m_last_contact_update (\<lambda>_. Some now)) (in_members i)\<rparr> else i)"

text \<open>The time since the last contact, saturated at zero, against the session timeout; a negative
  timeout stands for 45 seconds.\<close>

definition timed_out :: "int \<Rightarrow> system_time \<Rightarrow> system_time \<Rightarrow> bool" where
  "timed_out timeout now contact \<longleftrightarrow> max 0 (now - contact) > (if timeout < 0 then 45000 else timeout)"

definition in_session :: "int \<Rightarrow> system_time \<Rightarrow> member \<Rightarrow> bool" where
  "in_session timeout now m =
     (case m_last_contact m of None \<Rightarrow> False | Some contact \<Rightarrow> \<not> timed_out timeout now contact)"

definition evict_members :: "system_time \<Rightarrow> 'st inner \<Rightarrow> 'st inner" where
  "evict_members now i =
     i\<lparr>in_members := retain (\<lambda>_. in_session (in_session_timeout_ms i) now) (in_members i)\<rparr>"

text \<open>\<open>Inner<O, Forming>::missed_heartbeat\<close>: a leader that is evicted for its silence stops being the
  leader.\<close>

definition forming_missed_heartbeat :: "string \<Rightarrow> system_time \<Rightarrow> forming inner \<Rightarrow> bool \<times> forming inner" where
  "forming_missed_heartbeat mid now i =
     (let i = update_last_contact mid now i;
          leader = (case fg_leader (in_state i) of
              None \<Rightarrow> None
            | Some l \<Rightarrow>
                (case fmlookup (in_members i) l of
                   Some m \<Rightarrow>
                     (case m_last_contact m of
                        Some contact \<Rightarrow> if timed_out (in_session_timeout_ms i) now contact then None else Some l
                      | None \<Rightarrow> Some l)
                 | None \<Rightarrow> Some l));
          i' = (evict_members now i)\<lparr>in_state := (in_state i)\<lparr>fg_leader := leader\<rparr>\<rparr>
      in (fcard (fmdom (in_members i')) < fcard (fmdom (in_members i)), i'))"

definition formed_missed_heartbeat :: "string \<Rightarrow> system_time \<Rightarrow> formed inner \<Rightarrow> bool \<times> formed inner" where
  "formed_missed_heartbeat mid now i =
     (let i = update_last_contact mid now i; i' = evict_members now i
      in (fcard (fmdom (in_members i')) < fcard (fmdom (in_members i)), i'))"

text \<open>\<open>Wrapper::missed_heartbeat\<close>: an eviction from a formed group starts a new generation.\<close>

definition missed_heartbeat :: "string \<Rightarrow> system_time \<Rightarrow> wrapper \<Rightarrow> wrapper" where
  "missed_heartbeat mid now w =
     (case w of
        Wrapper_Forming i \<Rightarrow> Wrapper_Forming (snd (forming_missed_heartbeat mid now i))
      | Wrapper_Formed i \<Rightarrow>
          (let (missed, i) = formed_missed_heartbeat mid now i in
           if missed then
             let leader = (if fmlookup (in_members i) (fd_leader (in_state i)) \<noteq> None
                           then Some (fd_leader (in_state i)) else None)
             in Wrapper_Forming (with_state (next_generation (in_generation_id i)) (reforming leader (in_state i)) i)
           else Wrapper_Formed i))"

section \<open>Join\<close>

abbreviation join_body ::
    "error_code \<Rightarrow> int \<Rightarrow> string option \<Rightarrow> string option \<Rightarrow> string \<Rightarrow> bool option \<Rightarrow> string \<Rightarrow>
     join_group_response_member list \<Rightarrow> body" where
  "join_body code gen pt pn leader skip mid ms \<equiv>
     JoinGroupResponse \<lparr>jr_throttle_time_ms = Some 0, jr_error_code = code, jr_generation_id = gen,
       jr_protocol_type = pt, jr_protocol_name = pn, jr_leader = leader, jr_skip_assignment = skip,
       jr_member_id = mid, jr_members = Some ms\<rparr>"

definition new_member :: "system_time \<Rightarrow> string \<Rightarrow> string option \<Rightarrow> bytes \<Rightarrow> member" where
  "new_member now mid inst metadata =
     \<lparr>m_join_response = \<lparr>member_id = mid, group_instance_id = inst, member_metadata = metadata\<rparr>,
      m_last_contact = Some now\<rparr>"

definition generated_member_id :: "string \<Rightarrow> string option \<Rightarrow> string" where
  "generated_member_id uuid client = (case client of Some c \<Rightarrow> c @ ''-'' @ uuid | None \<Rightarrow> uuid)"

text \<open>The member id of a joining member: its own, or for a static member the id its instance already
  has in the group, or a new one.\<close>

definition joining_member_id :: "string \<Rightarrow> join_request \<Rightarrow> (string, member) fmap \<Rightarrow> string" where
  "joining_member_id uuid q ms =
     (case jq_group_instance_id q of
        None \<Rightarrow> jq_member_id q
      | Some inst \<Rightarrow>
          if jq_member_id q = [] then
            (case find (\<lambda>(_, m). group_instance_id (m_join_response m) = Some inst) (entries ms) of
               Some (mid, _) \<Rightarrow> mid
             | None \<Rightarrow> inst @ ''-'' @ uuid)
          else jq_member_id q)"

definition set_metadata :: "bytes \<Rightarrow> member \<Rightarrow> member" where
  "set_metadata md m = m\<lparr>m_join_response := (m_join_response m)\<lparr>member_metadata := md\<rparr>\<rparr>"

subsection \<open>While forming\<close>

text \<open>A dynamic member without an id is given one, and is asked to come back with it.\<close>

definition forming_join_id_required ::
    "system_time \<Rightarrow> string \<Rightarrow> join_request \<Rightarrow> join_group_request_protocol \<Rightarrow> forming inner \<Rightarrow> forming inner \<times> body" where
  "forming_join_id_required now uuid q p i =
     (let mid = generated_member_id uuid (jq_client_id q)
      in (i\<lparr>in_members := fmupd mid (new_member now mid (jq_group_instance_id q) (protocol_metadata p)) (in_members i)\<rparr>,
          join_body MemberIdRequired (-1) (fg_protocol_type (in_state i)) (Some '''') ''''
            (in_skip_assignment i) mid []))"

definition forming_join_member ::
    "system_time \<Rightarrow> string \<Rightarrow> join_request \<Rightarrow> join_group_request_protocol \<Rightarrow> forming inner \<Rightarrow> forming inner \<times> body" where
  "forming_join_member now uuid q p i =
     (let mid = joining_member_id uuid q (in_members i);
          ms = (case fmlookup (in_members i) mid of
                  Some m \<Rightarrow>
                    if member_metadata (m_join_response m) = protocol_metadata p
                    then fmupd mid (m\<lparr>m_last_contact := Some now\<rparr>) (in_members i)
                    else fmupd mid ((set_metadata (protocol_metadata p) m)\<lparr>m_last_contact := Some now\<rparr>) (in_members i)
                | None \<Rightarrow>
                    fmupd mid (new_member now mid (jq_group_instance_id q) (protocol_metadata p)) (in_members i));
          leader = (case fg_leader (in_state i) of None \<Rightarrow> mid | Some l \<Rightarrow> l);
          i = i\<lparr>in_members := ms, in_state := (in_state i)\<lparr>fg_leader := Some leader\<rparr>\<rparr>
      in (i, join_body NoError (in_generation_id i) (fg_protocol_type (in_state i)) (fg_protocol_name (in_state i))
               leader (in_skip_assignment i) mid
               (if leader = mid then member_list (Wrapper_Forming i) else [])))"

definition forming_join ::
    "system_time \<Rightarrow> string \<Rightarrow> join_request \<Rightarrow> forming inner \<Rightarrow> error + forming inner \<times> body" where
  "forming_join now uuid q i =
     (let admit = (\<lambda>p i. if jq_member_id q = [] \<and> jq_group_instance_id q = None
                         then forming_join_id_required now uuid q p i
                         else forming_join_member now uuid q p i)
      in case jq_protocols q of
           None \<Rightarrow> Inr (i, join_body InvalidRequest (in_generation_id i) (fg_protocol_type (in_state i)) (Some '''') ''''
                         (in_skip_assignment i) '''' [])
         | Some protocols \<Rightarrow>
             (case fg_protocol_name (in_state i) of
                Some name \<Rightarrow>
                  (case find (\<lambda>p. protocol_label p = name) protocols of
                     Some p \<Rightarrow> Inr (admit p i)
                   | None \<Rightarrow> Inr (i, join_body InconsistentGroupProtocol (in_generation_id i)
                       (Some (jq_protocol_type q)) (fg_protocol_name (in_state i)) '''' (in_skip_assignment i) '''' []))
              | None \<Rightarrow>
                  (case protocols of
                     [] \<Rightarrow> Inl Panic
                   | p # _ \<Rightarrow> Inr (admit p
                       (i\<lparr>in_state := (in_state i)\<lparr>fg_protocol_type := Some (jq_protocol_type q),
                            fg_protocol_name := Some (protocol_label p)\<rparr>,
                          in_session_timeout_ms := jq_session_timeout_ms q,
                          in_rebalance_timeout_ms := jq_rebalance_timeout_ms q\<rparr>)))))"

subsection \<open>Once formed\<close>

definition formed_join_id_required ::
    "system_time \<Rightarrow> string \<Rightarrow> join_request \<Rightarrow> join_group_request_protocol \<Rightarrow> formed inner \<Rightarrow> wrapper \<times> body" where
  "formed_join_id_required now uuid q p i =
     (let mid = generated_member_id uuid (jq_client_id q);
          i' = i\<lparr>in_members := fmupd mid (new_member now mid (jq_group_instance_id q) (protocol_metadata p)) (in_members i)\<rparr>
      in (Wrapper_Forming (with_state (next_generation (in_generation_id i))
            (reforming (Some (fd_leader (in_state i))) (in_state i)) i'),
          join_body MemberIdRequired (-1) None (Some '''') '''' (in_skip_assignment i) mid []))"

text \<open>The response that all three successful branches build from the group they leave behind.\<close>

definition joined_body :: "string \<Rightarrow> wrapper \<Rightarrow> body" where
  "joined_body mid w =
     join_body NoError (w_generation_id w) (w_protocol_type w) (w_protocol_name w)
       (case w_leader w of Some l \<Rightarrow> l | None \<Rightarrow> '''') (w_skip_assignment w) mid
       (if w_leader w = Some mid then member_list w else [])"

definition formed_join_update ::
    "join_request \<Rightarrow> join_group_request_protocol \<Rightarrow> string \<Rightarrow> formed inner \<Rightarrow> wrapper \<times> body" where
  "formed_join_update q p mid i =
     (let i' = i\<lparr>in_members := adjust mid (set_metadata (protocol_metadata p)) (in_members i)\<rparr>;
          gen = (if jq_group_instance_id q = None then next_generation (in_generation_id i) else in_generation_id i);
          w = Wrapper_Forming (with_state gen (reforming (Some (fd_leader (in_state i))) (in_state i)) i')
      in (w, joined_body mid w))"

definition formed_join_new ::
    "system_time \<Rightarrow> join_request \<Rightarrow> join_group_request_protocol \<Rightarrow> string \<Rightarrow> formed inner \<Rightarrow> wrapper \<times> body" where
  "formed_join_new now q p mid i =
     (let i' = i\<lparr>in_members := fmupd mid (new_member now mid (jq_group_instance_id q) (protocol_metadata p)) (in_members i)\<rparr>;
          w = Wrapper_Forming (with_state (next_generation (in_generation_id i))
            (reforming (Some (fd_leader (in_state i))) (in_state i)) i')
      in (w, joined_body mid w))"

definition formed_join :: "system_time \<Rightarrow> string \<Rightarrow> join_request \<Rightarrow> formed inner \<Rightarrow> wrapper \<times> body" where
  "formed_join now uuid q i =
     (case jq_protocols q of
        None \<Rightarrow> (Wrapper_Formed i, join_body InvalidRequest (in_generation_id i) (Some (jq_protocol_type q)) (Some '''')
                  '''' (in_skip_assignment i) '''' [])
      | Some protocols \<Rightarrow>
          (case find (\<lambda>p. protocol_label p = fd_protocol_name (in_state i)) protocols of
             None \<Rightarrow> (Wrapper_Formed i, join_body InconsistentGroupProtocol (in_generation_id i)
               (Some (jq_protocol_type q)) (Some (fd_protocol_name (in_state i))) '''' (in_skip_assignment i) '''' [])
           | Some p \<Rightarrow>
               if jq_member_id q = [] \<and> jq_group_instance_id q = None
               then formed_join_id_required now uuid q p i
               else
                 (let mid = joining_member_id uuid q (in_members i)
                  in case fmlookup (in_members i) mid of
                       Some m \<Rightarrow>
                         if member_metadata (m_join_response m) = protocol_metadata p
                         then (Wrapper_Formed i, joined_body mid (Wrapper_Formed i))
                         else formed_join_update q p mid i
                     | None \<Rightarrow> formed_join_new now q p mid i)))"

definition w_join :: "system_time \<Rightarrow> string \<Rightarrow> join_request \<Rightarrow> wrapper \<Rightarrow> error + wrapper \<times> body" where
  "w_join now uuid q w =
     (case w of
        Wrapper_Forming i \<Rightarrow>
          (case forming_join now uuid q i of Inl err \<Rightarrow> Inl err | Inr (i', b) \<Rightarrow> Inr (Wrapper_Forming i', b))
      | Wrapper_Formed i \<Rightarrow> Inr (formed_join now uuid q i))"

section \<open>Sync\<close>

abbreviation sync_body :: "error_code \<Rightarrow> string option \<Rightarrow> string option \<Rightarrow> bytes \<Rightarrow> body" where
  "sync_body code pt pn assignment \<equiv>
     SyncGroupResponse \<lparr>sr_throttle_time_ms = Some 0, sr_error_code = code, sr_protocol_type = pt,
       sr_protocol_name = pn, sr_assignment = assignment\<rparr>"

definition collect_assignments :: "sync_group_request_assignment list \<Rightarrow> (string, bytes) fmap" where
  "collect_assignments as = fold (\<lambda>(k, v). fmupd k v) (map (\<lambda>a. (assignee a, assigned a)) as) fmempty"

text \<open>The leader's assignments for exactly the members of the group form it.\<close>

definition forming_sync ::
    "int \<Rightarrow> string \<Rightarrow> sync_group_request_assignment list option \<Rightarrow> forming inner \<Rightarrow> error + wrapper \<times> body" where
  "forming_sync gen mid as i =
     (let st = in_state i;
          refuse = (\<lambda>code. Inr (Wrapper_Forming i, sync_body code (fg_protocol_type st) (fg_protocol_name st) []));
          is_leader = (fg_leader st = Some mid);
          assignments_for = fset_of_list (map assignee (case as of None \<Rightarrow> [] | Some as \<Rightarrow> as));
          is_assignments_for_all_members =
            ((assignments_for |-| fmdom (in_members i)) |\<union>| (fmdom (in_members i) |-| assignments_for) = {||})
      in if fmlookup (in_members i) mid = None then refuse UnknownMemberId
         else if gen > in_generation_id i then refuse IllegalGeneration
         else if gen < in_generation_id i then refuse RebalanceInProgress
         else if \<not> is_leader \<or> \<not> is_assignments_for_all_members then refuse RebalanceInProgress
         else case as of
             None \<Rightarrow> refuse RebalanceInProgress
           | Some as \<Rightarrow>
               (let asg = collect_assignments as
                in case (fg_protocol_name st, fg_protocol_type st) of
                     (Some pn, Some pt) \<Rightarrow>
                       Inr (Wrapper_Formed (with_state (in_generation_id i)
                              \<lparr>fd_protocol_type = pt, fd_protocol_name = pn, fd_leader = mid,
                               fd_assignments = asg\<rparr> i),
                            sync_body NoError (fg_protocol_type st) (fg_protocol_name st)
                              (case fmlookup asg mid of Some a \<Rightarrow> a | None \<Rightarrow> []))
                   | _ \<Rightarrow> Inl Panic))"

definition formed_sync :: "int \<Rightarrow> string \<Rightarrow> formed inner \<Rightarrow> formed inner \<times> body" where
  "formed_sync gen mid i =
     (let st = in_state i;
          answer = (\<lambda>code a. (i, sync_body code (Some (fd_protocol_type st)) (Some (fd_protocol_name st)) a))
      in if fmlookup (in_members i) mid = None then answer UnknownMemberId []
         else if gen > in_generation_id i then answer IllegalGeneration []
         else if gen < in_generation_id i then answer RebalanceInProgress []
         else answer NoError (case fmlookup (fd_assignments st) mid of Some a \<Rightarrow> a | None \<Rightarrow> []))"

definition w_sync ::
    "int \<Rightarrow> string \<Rightarrow> sync_group_request_assignment list option \<Rightarrow> wrapper \<Rightarrow> error + wrapper \<times> body" where
  "w_sync gen mid as w =
     (case w of
        Wrapper_Forming i \<Rightarrow> forming_sync gen mid as i
      | Wrapper_Formed i \<Rightarrow> (let (i', b) = formed_sync gen mid i in Inr (Wrapper_Formed i', b)))"

section \<open>Heartbeat\<close>

abbreviation heartbeat_body :: "error_code \<Rightarrow> body" where
  "heartbeat_body code \<equiv> HeartbeatResponse (Some 0) code"

definition touch :: "string \<Rightarrow> system_time \<Rightarrow> 'st inner \<Rightarrow> 'st inner" where
  "touch mid now i = i\<lparr>in_members := adjust mid (m_last_contact_update (\<lambda>_. Some now)) (in_members i)\<rparr>"

definition forming_heartbeat :: "system_time \<Rightarrow> int \<Rightarrow> string \<Rightarrow> forming inner \<Rightarrow> forming inner \<times> body" where
  "forming_heartbeat now gen mid i =
     (if fmlookup (in_members i) mid = None then (i, heartbeat_body UnknownMemberId)
      else if gen > in_generation_id i then (i, heartbeat_body IllegalGeneration)
      else
        (let (missed, i) = forming_missed_heartbeat mid now (touch mid now i)
         in if missed \<or> gen < in_generation_id i then (i, heartbeat_body RebalanceInProgress)
            else (i, heartbeat_body NoError)))"

definition formed_heartbeat :: "system_time \<Rightarrow> int \<Rightarrow> string \<Rightarrow> formed inner \<Rightarrow> formed inner \<times> body" where
  "formed_heartbeat now gen mid i =
     (if fmlookup (in_members i) mid = None then (i, heartbeat_body UnknownMemberId)
      else if gen > in_generation_id i then (i, heartbeat_body IllegalGeneration)
      else
        (let (missed, i) = formed_missed_heartbeat mid now i
         in if missed \<or> gen < in_generation_id i then (i, heartbeat_body RebalanceInProgress)
            else (touch mid now i, heartbeat_body NoError)))"

definition w_heartbeat :: "system_time \<Rightarrow> int \<Rightarrow> string \<Rightarrow> wrapper \<Rightarrow> wrapper \<times> body" where
  "w_heartbeat now gen mid w =
     (case w of
        Wrapper_Forming i \<Rightarrow> map_prod Wrapper_Forming id (forming_heartbeat now gen mid i)
      | Wrapper_Formed i \<Rightarrow> map_prod Wrapper_Formed id (formed_heartbeat now gen mid i))"

section \<open>Leave\<close>

text \<open>Remove the named members one after the other; each has its own outcome.\<close>

fun remove_members ::
    "(string \<times> string option) list \<Rightarrow> (string, member) fmap \<Rightarrow> member_response list \<times> (string, member) fmap" where
  "remove_members [] ms = ([], ms)"
| "remove_members ((mid, inst) # ids) ms =
     (let code = (if fmlookup ms mid \<noteq> None then NoError else UnknownMemberId);
          (rs, ms') = remove_members ids (fmdrop mid ms)
      in (\<lparr>mr_member_id = mid, mr_group_instance_id = inst, mr_error_code = code\<rparr> # rs, ms'))"

definition leaving :: "string option \<Rightarrow> member_identity list option \<Rightarrow> (string \<times> string option) list" where
  "leaving mid ids =
     (case mid of
        Some mid \<Rightarrow> [(mid, None)]
      | None \<Rightarrow> (case ids of None \<Rightarrow> [] | Some ids \<Rightarrow> map (\<lambda>m. (mi_member_id m, mi_group_instance_id m)) ids))"

definition forming_leave ::
    "string option \<Rightarrow> member_identity list option \<Rightarrow> forming inner \<Rightarrow> forming inner \<times> body" where
  "forming_leave mid ids i =
     (let (rs, ms) = remove_members (leaving mid ids) (in_members i);
          i = i\<lparr>in_members := ms\<rparr>;
          i = (if list_ex (\<lambda>r. mr_error_code r = NoError) rs
               then i\<lparr>in_generation_id := next_generation (in_generation_id i)\<rparr> else i)
      in (i, LeaveGroupResponse (Some 0) NoError (Some rs)))"

definition formed_leave ::
    "string option \<Rightarrow> member_identity list option \<Rightarrow> formed inner \<Rightarrow> wrapper \<times> body" where
  "formed_leave mid ids i =
     (let (rs, ms) = remove_members (leaving mid ids) (in_members i);
          i = i\<lparr>in_members := ms\<rparr>;
          w = (if list_ex (\<lambda>r. mr_error_code r = NoError) rs
               then let leader = (if fmlookup ms (fd_leader (in_state i)) \<noteq> None
                                  then Some (fd_leader (in_state i)) else None)
                    in Wrapper_Forming (with_state (next_generation (in_generation_id i))
                         (reforming leader (in_state i)) i)
               else Wrapper_Formed i)
      in (w, LeaveGroupResponse (Some 0) NoError (Some rs)))"

definition w_leave :: "string option \<Rightarrow> member_identity list option \<Rightarrow> wrapper \<Rightarrow> wrapper \<times> body" where
  "w_leave mid ids w =
     (case w of
        Wrapper_Forming i \<Rightarrow> map_prod Wrapper_Forming id (forming_leave mid ids i)
      | Wrapper_Formed i \<Rightarrow> formed_leave mid ids i)"

section \<open>Offset commits\<close>

record offset_commit_partition =
  cp_partition_index :: int
  cp_committed_offset :: int
  cp_commit_timestamp :: "int option"
  cp_committed_leader_epoch :: "int option"
  cp_committed_metadata :: "string option"

record offset_commit_detail =
  cd_group_id :: string
  cd_generation_id_or_member_epoch :: "int option"
  cd_member_id :: "string option"
  cd_group_instance_id :: "string option"
  cd_retention_time_ms :: "int option"
  cd_topics :: "(string \<times> offset_commit_partition list option) list option"

definition offset_commit_fence ::
    "system_time \<Rightarrow> offset_commit_detail \<Rightarrow> bool \<Rightarrow> 'st inner \<Rightarrow> error_code option \<times> 'st inner" where
  "offset_commit_fence now d generation_must_match i =
     (let gen = (case cd_generation_id_or_member_epoch d of None \<Rightarrow> -1 | Some gen \<Rightarrow> gen);
          mid = (case cd_member_id d of None \<Rightarrow> [] | Some mid \<Rightarrow> mid)
      in if gen < 0 \<and> mid = []
         then (if in_members i = fmempty then None else Some UnknownMemberId, i)
         else if fmlookup (in_members i) mid = None then (Some UnknownMemberId, i)
         else (if gen > in_generation_id i \<or> (generation_must_match \<and> gen \<noteq> in_generation_id i)
               then Some IllegalGeneration else None,
               touch mid now i))"

definition offset_commit_response :: "offset_commit_detail \<Rightarrow> error_code \<Rightarrow> body" where
  "offset_commit_response d code =
     OffsetCommitResponse (Some 0)
       (map_option (map (\<lambda>(name, ps). (name, map_option (map (\<lambda>p. (cp_partition_index p, code))) ps))) (cd_topics d))"

text \<open>The fence of either state: exact generations once formed.\<close>

definition w_fence :: "system_time \<Rightarrow> offset_commit_detail \<Rightarrow> wrapper \<Rightarrow> error_code option \<times> wrapper" where
  "w_fence now d w =
     (case w of
        Wrapper_Forming i \<Rightarrow> map_prod id Wrapper_Forming (offset_commit_fence now d False i)
      | Wrapper_Formed i \<Rightarrow> map_prod id Wrapper_Formed (offset_commit_fence now d True i))"

section \<open>Histories of a group\<close>

text \<open>
  One operation on a group.  \<open>static\<close> says whether static members (a join with a group instance id) may
  take part.
\<close>

inductive group_step :: "bool \<Rightarrow> wrapper \<Rightarrow> wrapper \<Rightarrow> bool" for static where
  join: "w_join now uuid q w = Inr (w', b) \<Longrightarrow> static \<or> jq_group_instance_id q = None \<Longrightarrow> group_step static w w'"
| sync: "w_sync gen mid as w = Inr (w', b) \<Longrightarrow> group_step static w w'"
| heartbeat: "w_heartbeat now gen mid w = (w', b) \<Longrightarrow> group_step static w w'"
| leave: "w_leave mids ids w = (w', b) \<Longrightarrow> group_step static w w'"
| missed: "missed_heartbeat mid now w = w' \<Longrightarrow> group_step static w w'"
| fence: "w_fence now d w = (code, w') \<Longrightarrow> group_step static w w'"

lemma with_state_sel [simp]:
  "in_session_timeout_ms (with_state gen st i) = in_session_timeout_ms i"
  "in_members (with_state gen st i) = in_members i"
  "in_generation_id (with_state gen st i) = gen"
  "in_state (with_state gen st i) = st"
  by (simp_all add: with_state_def)

lemma reforming_sel [simp]:
  "fg_protocol_type (reforming l f) = Some (fd_protocol_type f)"
  "fg_protocol_name (reforming l f) = Some (fd_protocol_name f)"
  "fg_leader (reforming l f) = l"
  by (simp_all add: reforming_def)

lemma contact_sel [simp]:
  "in_state (update_last_contact mid now i) = in_state i"
  "in_generation_id (update_last_contact mid now i) = in_generation_id i"
  "fmdom (in_members (update_last_contact mid now i)) = fmdom (in_members i)"
  "in_state (touch mid now j) = in_state j"
  "in_generation_id (touch mid now j) = in_generation_id j"
  "fmdom (in_members (touch mid now j)) = fmdom (in_members j)"
  "in_state (evict_members now k) = in_state k"
  "in_generation_id (evict_members now k) = in_generation_id k"
  by (simp_all add: update_last_contact_def touch_def evict_members_def)

subsection \<open>What a group is at any time\<close>

text \<open>
  A member is filed under its own id; a group with a leader has a protocol; every member of a formed
  group has an assignment.
\<close>

definition members_ok :: "(string, member) fmap \<Rightarrow> bool" where
  "members_ok ms \<longleftrightarrow> (\<forall>k m. fmlookup ms k = Some m \<longrightarrow> member_id (m_join_response m) = k)"

fun group_ok :: "wrapper \<Rightarrow> bool" where
  "group_ok (Wrapper_Forming i) \<longleftrightarrow> members_ok (in_members i) \<and>
     (fg_protocol_name (in_state i) = None \<longleftrightarrow> fg_protocol_type (in_state i) = None) \<and>
     (fg_leader (in_state i) \<noteq> None \<longrightarrow> fg_protocol_name (in_state i) \<noteq> None)"
| "group_ok (Wrapper_Formed i) \<longleftrightarrow> members_ok (in_members i) \<and>
     fmdom (in_members i) |\<subseteq>| fmdom (fd_assignments (in_state i))"

lemma members_ok_empty [simp]: "members_ok fmempty"
  by (simp add: members_ok_def)

lemma members_ok_new [simp]: "members_ok ms \<Longrightarrow> members_ok (fmupd mid (new_member now mid inst md) ms)"
  by (simp add: members_ok_def new_member_def)

lemma members_ok_retain [simp]: "members_ok ms \<Longrightarrow> members_ok (retain P ms)"
  by (auto simp: members_ok_def split: option.splits if_splits)

lemma members_ok_drop [simp]: "members_ok ms \<Longrightarrow> members_ok (fmdrop k ms)"
  by (auto simp: members_ok_def)

lemma members_ok_upd:
  "members_ok ms \<Longrightarrow> member_id (m_join_response m) = k \<Longrightarrow> members_ok (fmupd k m ms)"
  by (simp add: members_ok_def)

lemma members_okD: "members_ok ms \<Longrightarrow> fmlookup ms k = Some m \<Longrightarrow> member_id (m_join_response m) = k"
  by (simp add: members_ok_def)

lemma members_ok_adjust:
  "members_ok ms \<Longrightarrow> (\<And>m. member_id (m_join_response (f m)) = member_id (m_join_response m)) \<Longrightarrow>
   members_ok (adjust k f ms)"
  by (auto simp: members_ok_def adjust_def split: option.splits)

lemma members_ok_contact [simp]:
  "members_ok (in_members i) \<Longrightarrow> members_ok (in_members (update_last_contact mid now i))"
  "members_ok (in_members j) \<Longrightarrow> members_ok (in_members (touch mid now j))"
  "members_ok (in_members k) \<Longrightarrow> members_ok (in_members (evict_members now k))"
  by (simp_all add: update_last_contact_def touch_def evict_members_def members_ok_adjust)

lemma set_metadata_id [simp]: "member_id (m_join_response (set_metadata md m)) = member_id (m_join_response m)"
  by (simp add: set_metadata_def)

lemma remove_members_ok: "members_ok ms \<Longrightarrow> members_ok (snd (remove_members ids ms))"
  by (induction ids ms rule: remove_members.induct) (auto simp: Let_def split: prod.splits)

lemma remove_members_dom: "fmdom (snd (remove_members ids ms)) |\<subseteq>| fmdom ms"
proof (induction ids ms rule: remove_members.induct)
  case (2 mid inst ids ms)
  then have "fmdom (snd (remove_members ids (fmdrop mid ms))) |\<subseteq>| fmdom (fmdrop mid ms)" by simp
  then show ?case by (auto simp: Let_def split: prod.splits)
qed simp

lemma remove_members_none:
  "\<not> list_ex (\<lambda>r. mr_error_code r = NoError) (fst (remove_members ids ms)) \<Longrightarrow> snd (remove_members ids ms) = ms"
proof (induction ids ms rule: remove_members.induct)
  case (2 mid inst ids ms)
  have absent: "fmlookup ms mid = None"
    using 2(2) by (auto simp: Let_def split: prod.splits if_splits)
  then have drop: "fmdrop mid ms = ms"
    by (intro fmap_ext) simp
  show ?case
    using 2 unfolding drop by (auto simp: Let_def absent drop split: prod.splits)
qed simp

end
