(* ===== verification/Group_Spec.thy ===== *)
theory Group_Spec
  imports Group_State
begin

text \<open>
  What the consumer group state machine guarantees: the well-formedness every operation keeps, the order
  of generations, the rebalance, the stored form, and two histories in which a group loses a member
  without a new assignment.
\<close>

section \<open>Well-formed groups\<close>

lemma fmdom_fold_upd: "fmdom (fold (\<lambda>(k, v). fmupd k v) xs m) = fmdom m |\<union>| fset_of_list (map fst xs)"
  by (induction xs arbitrary: m) auto

lemma collect_assignments_dom: "fmdom (collect_assignments as) = fset_of_list (map assignee as)"
  by (simp add: collect_assignments_def fmdom_fold_upd comp_def)

text \<open>How the parts of the handlers change the members, the generation and the state.\<close>

lemma forming_missed_ok:
  assumes "group_ok (Wrapper_Forming i)"
  shows "group_ok (Wrapper_Forming (snd (forming_missed_heartbeat mid now i)))"
  using assms by (auto simp: forming_missed_heartbeat_def Let_def split: option.splits)

lemma forming_missed_sel:
  "in_generation_id (snd (forming_missed_heartbeat mid now i)) = in_generation_id i"
  by (simp add: forming_missed_heartbeat_def Let_def)

lemma evict_dom: "fmdom (in_members (evict_members now i)) |\<subseteq>| fmdom (in_members i)"
  by (simp add: evict_members_def retain_dom)

lemma formed_missed_snd: "snd (formed_missed_heartbeat mid now i) = evict_members now (update_last_contact mid now i)"
  by (simp add: formed_missed_heartbeat_def Let_def)

lemma formed_missed_ok:
  assumes "group_ok (Wrapper_Formed i)"
  shows "group_ok (Wrapper_Formed (snd (formed_missed_heartbeat mid now i)))"
proof -
  have "fmdom (in_members (evict_members now (update_last_contact mid now i))) |\<subseteq>| fmdom (in_members i)"
    using evict_dom [of now "update_last_contact mid now i"] by simp
  with assms show ?thesis by (auto simp: formed_missed_snd)
qed

lemma missed_heartbeat_ok: "group_ok w \<Longrightarrow> group_ok (missed_heartbeat mid now w)"
proof (cases w)
  case (Wrapper_Forming i)
  assume "group_ok w"
  then show ?thesis
    unfolding Wrapper_Forming missed_heartbeat_def
    using forming_missed_ok [of i mid now] by (simp del: group_ok.simps)
next
  case (Wrapper_Formed i)
  assume "group_ok w"
  then have "group_ok (Wrapper_Formed (snd (formed_missed_heartbeat mid now i)))"
    using formed_missed_ok Wrapper_Formed by blast
  then show ?thesis
    unfolding Wrapper_Formed missed_heartbeat_def by (auto split: prod.splits)
qed

lemma forming_join_member_ok:
  assumes "group_ok (Wrapper_Forming i)" and "fg_protocol_name (in_state i) \<noteq> None"
  shows "group_ok (Wrapper_Forming (fst (forming_join_member now uuid q p i)))"
  using assms
  by (auto simp: forming_join_member_def Let_def members_ok_upd members_okD split: option.splits)

lemma forming_join_ok:
  assumes "group_ok (Wrapper_Forming i)" and "forming_join now uuid q i = Inr (i', b)"
  shows "group_ok (Wrapper_Forming i')"
proof -
  have required: "group_ok (Wrapper_Forming (fst (forming_join_id_required now uuid q p j)))"
    if "group_ok (Wrapper_Forming j)" for p j
    using that by (auto simp: forming_join_id_required_def Let_def)
  define admit where "admit = (\<lambda>p j. if jq_member_id q = [] \<and> jq_group_instance_id q = None
      then forming_join_id_required now uuid q p j else forming_join_member now uuid q p j)"
  have admit: "group_ok (Wrapper_Forming i')"
    if "admit p j = (i', b)" "group_ok (Wrapper_Forming j)" "fg_protocol_name (in_state j) \<noteq> None" for p j
  proof -
    have "i' = fst (admit p j)" using that(1) by simp
    then show ?thesis
      using required [OF that(2)] forming_join_member_ok [OF that(2,3)] by (simp add: admit_def)
  qed
  show ?thesis
  proof (cases "jq_protocols q")
    case None
    with assms show ?thesis by (auto simp: forming_join_def)
  next
    case (Some ps)
    show ?thesis
    proof (cases "fg_protocol_name (in_state i)")
      case None
      with assms(2) Some obtain p qs where ps: "ps = p # qs"
        by (cases ps) (auto simp: forming_join_def)
      let ?j = "i\<lparr>in_state := (in_state i)\<lparr>fg_protocol_type := Some (jq_protocol_type q),
          fg_protocol_name := Some (protocol_label p)\<rparr>,
        in_session_timeout_ms := jq_session_timeout_ms q, in_rebalance_timeout_ms := jq_rebalance_timeout_ms q\<rparr>"
      have "admit p ?j = (i', b)"
        using assms(2) Some None ps by (simp add: forming_join_def admit_def)
      then show ?thesis by (rule admit) (use assms(1) None in auto)
    next
      case name: (Some n)
      show ?thesis
      proof (cases "find (\<lambda>p. protocol_label p = n) ps")
        case None
        with assms Some name show ?thesis by (auto simp: forming_join_def)
      next
        case found: (Some p)
        then have "admit p i = (i', b)"
          using assms(2) Some name by (simp add: forming_join_def admit_def)
        then show ?thesis by (rule admit) (use assms(1) name in auto)
      qed
    qed
  qed
qed

lemma formed_join_ok:
  assumes "group_ok (Wrapper_Formed i)"
  shows "group_ok (fst (formed_join now uuid q i))"
  using assms
  by (auto simp: formed_join_def formed_join_id_required_def formed_join_update_def formed_join_new_def Let_def
      members_ok_adjust split: option.splits)

lemma forming_sync_ok:
  assumes "group_ok (Wrapper_Forming i)" and "forming_sync gen mid as i = Inr (w', b)"
  shows "group_ok w'"
  using assms
  by (auto simp: forming_sync_def Let_def collect_assignments_dom split: option.splits if_splits)

lemma leave_ok: "group_ok w \<Longrightarrow> group_ok (fst (w_leave mid ids w))"
  using remove_members_ok [of "w_members w" "leaving mid ids"] remove_members_dom [of "leaving mid ids" "w_members w"]
  by (cases w) (auto simp: w_leave_def forming_leave_def formed_leave_def Let_def split: prod.splits)

lemma heartbeat_ok: "group_ok w \<Longrightarrow> group_ok (fst (w_heartbeat now gen mid w))"
proof (cases w)
  case (Wrapper_Forming i)
  assume ok: "group_ok w"
  then have "group_ok (Wrapper_Forming (snd (forming_missed_heartbeat mid now (touch mid now i))))"
    unfolding Wrapper_Forming by (intro forming_missed_ok) auto
  with ok show ?thesis
    unfolding Wrapper_Forming w_heartbeat_def forming_heartbeat_def by (auto split: prod.splits)
next
  case (Wrapper_Formed i)
  assume ok: "group_ok w"
  then have "group_ok (Wrapper_Formed (snd (formed_missed_heartbeat mid now i)))"
    using formed_missed_ok Wrapper_Formed by blast
  with ok show ?thesis
    unfolding Wrapper_Formed w_heartbeat_def formed_heartbeat_def by (auto split: prod.splits)
qed

lemma fence_ok: "group_ok w \<Longrightarrow> group_ok (snd (w_fence now d w))"
  by (cases w) (auto simp: w_fence_def offset_commit_fence_def Let_def)

lemma group_step_ok: "group_step static w w' \<Longrightarrow> group_ok w \<Longrightarrow> group_ok w'"
proof (induction rule: group_step.induct)
  case (join now uuid q w w' b)
  show ?case
  proof (cases w)
    case (Wrapper_Forming i)
    with join obtain i' where "forming_join now uuid q i = Inr (i', b)" "w' = Wrapper_Forming i'"
      by (auto simp: w_join_def split: sum.splits)
    then show ?thesis using forming_join_ok join Wrapper_Forming by blast
  next
    case (Wrapper_Formed i)
    then show ?thesis using formed_join_ok [of i now uuid q] join by (simp add: w_join_def)
  qed
next
  case (sync gen mid as w w' b)
  then show ?case
    using forming_sync_ok
    by (cases w) (auto simp: w_sync_def formed_sync_def Let_def split: if_splits)
next
  case (heartbeat now gen mid w w' b)
  then show ?case using heartbeat_ok [of w now gen mid] by simp
next
  case (leave mids ids w w' b)
  then show ?case using leave_ok [of w mids ids] by simp
next
  case (missed mid now w w')
  then show ?case using missed_heartbeat_ok by blast
next
  case (fence now d w code w')
  then show ?case using fence_ok [of w now d] by simp
qed

subsection \<open>Generations\<close>

lemma next_generation_Suc: "fits_signed 32 (gen + 1) \<Longrightarrow> next_generation gen = gen + 1"
  by (simp add: next_generation_def)

text \<open>\<open>advances w w'\<close>: a later generation, or the same one with the assignments it already had.\<close>

definition advances :: "wrapper \<Rightarrow> wrapper \<Rightarrow> bool" where
  "advances w w' \<longleftrightarrow> w_generation_id w < w_generation_id w' \<or>
     w_generation_id w = w_generation_id w' \<and> (\<forall>a. w_assignments w = Some a \<longrightarrow> w_assignments w' = Some a)"

lemma advances_refl: "advances w w"
  by (simp add: advances_def)

lemma advances_trans: "advances u v \<Longrightarrow> advances v w \<Longrightarrow> advances u w"
  by (auto simp: advances_def)

lemma advances_formingI:
  "w_assignments w = None \<Longrightarrow> w_generation_id w' = w_generation_id w \<Longrightarrow> advances w w'"
  by (simp add: advances_def)

lemma advances_nextI:
  "fits_signed 32 (w_generation_id w + 1) \<Longrightarrow> w_generation_id w' = next_generation (w_generation_id w) \<Longrightarrow>
   advances w w'"
  by (simp add: advances_def next_generation_Suc)

lemma forming_join_generation:
  "forming_join now uuid q i = Inr (i', b) \<Longrightarrow> in_generation_id i' = in_generation_id i"
  by (auto simp: forming_join_def forming_join_id_required_def forming_join_member_def Let_def
      split: option.splits list.splits if_splits)

lemma formed_join_advances:
  assumes "fits_signed 32 (in_generation_id i + 1)" and "jq_group_instance_id q = None"
  shows "advances (Wrapper_Formed i) (fst (formed_join now uuid q i))"
  using assms
  by (auto simp: formed_join_def formed_join_id_required_def formed_join_update_def formed_join_new_def Let_def
      intro: advances_refl advances_nextI split: option.splits)

lemma forming_sync_generation:
  "forming_sync gen mid as i = Inr (w', b) \<Longrightarrow> w_generation_id w' = in_generation_id i"
  by (auto simp: forming_sync_def Let_def split: option.splits if_splits)

lemma missed_heartbeat_advances:
  "fits_signed 32 (w_generation_id w + 1) \<Longrightarrow> advances w (missed_heartbeat mid now w)"
proof (cases w)
  case (Wrapper_Forming i)
  then show ?thesis
    by (intro advances_formingI) (simp_all add: missed_heartbeat_def forming_missed_sel)
next
  case (Wrapper_Formed i)
  moreover obtain missed i' where "formed_missed_heartbeat mid now i = (missed, i')"
    by (cases "formed_missed_heartbeat mid now i")
  moreover from this have "in_generation_id i' = in_generation_id i" "in_state i' = in_state i"
    by (auto simp: formed_missed_heartbeat_def Let_def)
  moreover assume "fits_signed 32 (w_generation_id w + 1)"
  ultimately show ?thesis
    by (auto simp: missed_heartbeat_def advances_def next_generation_Suc)
qed

lemma leave_advances:
  "fits_signed 32 (w_generation_id w + 1) \<Longrightarrow> advances w (fst (w_leave mid ids w))"
  by (cases w) (auto simp: w_leave_def forming_leave_def formed_leave_def Let_def advances_def
      next_generation_Suc split: prod.splits)

lemma heartbeat_advances: "advances w (fst (w_heartbeat now gen mid w))"
proof (cases w)
  case (Wrapper_Forming i)
  have "in_generation_id (snd (forming_missed_heartbeat mid now (touch mid now i))) = in_generation_id i"
    by (simp add: forming_missed_sel)
  with Wrapper_Forming show ?thesis
    by (intro advances_formingI) (auto simp: w_heartbeat_def forming_heartbeat_def split: prod.splits)
next
  case (Wrapper_Formed i)
  then show ?thesis
    by (auto simp: w_heartbeat_def formed_heartbeat_def formed_missed_heartbeat_def Let_def advances_def)
qed

lemma fence_advances: "advances w (snd (w_fence now d w))"
  by (cases w) (auto simp: w_fence_def offset_commit_fence_def Let_def advances_def)

lemma group_step_advances:
  "group_step False w w' \<Longrightarrow> fits_signed 32 (w_generation_id w + 1) \<Longrightarrow> advances w w'"
proof (induction rule: group_step.induct)
  case (join now uuid q w w' b)
  show ?case
  proof (cases w)
    case (Wrapper_Forming i)
    with join obtain i' where "forming_join now uuid q i = Inr (i', b)" "w' = Wrapper_Forming i'"
      by (auto simp: w_join_def split: sum.splits)
    then show ?thesis
      using Wrapper_Forming by (intro advances_formingI) (simp_all add: forming_join_generation)
  next
    case (Wrapper_Formed i)
    then show ?thesis using formed_join_advances [of i q now uuid] join by (simp add: w_join_def)
  qed
next
  case (sync gen mid as w w' b)
  show ?case
  proof (cases w)
    case (Wrapper_Forming i)
    then show ?thesis
      using sync by (intro advances_formingI) (auto simp: w_sync_def dest: forming_sync_generation)
  next
    case (Wrapper_Formed i)
    then show ?thesis
      using sync by (auto simp: w_sync_def formed_sync_def Let_def advances_def split: if_splits)
  qed
next
  case (heartbeat now gen mid w w' b)
  then show ?case using heartbeat_advances [of w now gen mid] by simp
next
  case (leave mids ids w w' b)
  then show ?case using leave_advances [of w mids ids] by simp
next
  case (missed mid now w w')
  then show ?case using missed_heartbeat_advances by blast
next
  case (fence now d w code w')
  then show ?case using fence_advances [of w now d] by simp
qed

text \<open>C36: Within one generation a consumer group has at most one assignment.  Over any run of join, sync,
  heartbeat, leave, eviction and offset commit operations by dynamic members (no group instance id) during which
  the \<open>i32\<close> generation does not overflow, the generation never decreases, and if it is the same at two
  moments at which the group is formed, then the assignments are the same at both.\<close>

theorem one_assignment_per_generation:
  assumes "(\<lambda>a b. group_step False a b \<and> fits_signed 32 (w_generation_id a + 1))\<^sup>*\<^sup>* w w'"
  shows "w_generation_id w \<le> w_generation_id w' \<and>
    (w_generation_id w = w_generation_id w' \<longrightarrow> w_assignments w \<noteq> None \<longrightarrow> w_assignments w' = w_assignments w)"
proof -
  have "advances w w'"
    using assms by (induction rule: rtranclp_induct)
      (auto intro: advances_refl advances_trans group_step_advances)
  then show ?thesis by (auto simp: advances_def)
qed

subsection \<open>Panics\<close>

text \<open>C37: The state machine does not panic.  From a well-formed group, every join, sync, heartbeat, leave
  and commit leaves a well-formed group (a leader implies a protocol, every member of a formed group has an
  assignment); a sync never reaches a failing \<open>expect\<close>, and a join panics exactly when it offers an empty list of
  protocols to a group that has not chosen one.\<close>

theorem group_never_panics:
  assumes "group_ok w"
  shows "w_sync gen mid as w \<noteq> Inl err \<and>
    (w_join now uuid q w = Inl err \<longleftrightarrow> err = Panic \<and> jq_protocols q = Some [] \<and> w_protocol_name w = None) \<and>
    (group_step static w w' \<longrightarrow> group_ok w')"
proof (intro conjI impI)
  show "w_sync gen mid as w \<noteq> Inl err"
    using assms by (cases w) (auto simp: w_sync_def forming_sync_def formed_sync_def Let_def split: option.splits)
  show "w_join now uuid q w = Inl err \<longleftrightarrow> err = Panic \<and> jq_protocols q = Some [] \<and> w_protocol_name w = None"
    by (cases w)
      (auto simp: w_join_def forming_join_def Let_def split: option.splits sum.splits list.splits prod.splits)
  show "group_step static w w' \<Longrightarrow> group_ok w'"
    using assms by (simp add: group_step_ok)
qed

subsection \<open>The rebalance\<close>

lemma forming_sync_NoError:
  "forming_sync gen mid as i = Inr (w', SyncGroupResponse r) \<and> sr_error_code r = NoError \<longleftrightarrow>
     fmlookup (in_members i) mid \<noteq> None \<and> gen = in_generation_id i \<and> fg_leader (in_state i) = Some mid \<and>
     (\<exists>l pn pt. as = Some l \<and> fset_of_list (map assignee l) = fmdom (in_members i) \<and>
       fg_protocol_name (in_state i) = Some pn \<and> fg_protocol_type (in_state i) = Some pt \<and>
       w' = Wrapper_Formed (with_state gen \<lparr>fd_protocol_type = pt, fd_protocol_name = pn, fd_leader = mid,
              fd_assignments = collect_assignments l\<rparr> i) \<and>
       SyncGroupResponse r = sync_body NoError (Some pt) (Some pn)
         (case fmlookup (collect_assignments l) mid of Some a \<Rightarrow> a | None \<Rightarrow> []))"
  by (auto simp: forming_sync_def Let_def split: option.splits if_splits)

lemma lookup_collect_assignments:
  "fmlookup (collect_assignments as) mid = map_of (rev (map (\<lambda>a. (assignee a, assigned a)) as)) mid"
  by (simp add: collect_assignments_def fmlookup_fold_upd split: option.splits)

lemma forming_sync_refused:
  assumes "group_ok (Wrapper_Forming i)"
    and "\<not> (fmlookup (in_members i) mid \<noteq> None \<and> gen = in_generation_id i \<and> fg_leader (in_state i) = Some mid \<and>
           (\<exists>l. as = Some l \<and> fset_of_list (map assignee l) = fmdom (in_members i)))"
  shows "\<exists>code. code \<noteq> NoError \<and> forming_sync gen mid as i =
    Inr (Wrapper_Forming i, sync_body code (fg_protocol_type (in_state i)) (fg_protocol_name (in_state i)) [])"
  using assms by (auto simp: forming_sync_def Let_def split: option.splits)

text \<open>C35: The rebalance.  A sync forms a forming group exactly when it comes from the leader, at the group's
  generation, with assignments for exactly the members; any other sync is refused and changes nothing.  Once
  formed, the generation and the members are those of the forming group, and a sync of any member at that
  generation is answered with what the leader assigned to it (the last entry for that member), leaving the group
  as it is.\<close>

theorem sync_distributes_assignments:
  assumes "group_ok (Wrapper_Forming i)"
  shows "if fmlookup (in_members i) mid \<noteq> None \<and> gen = in_generation_id i \<and> fg_leader (in_state i) = Some mid \<and>
      (\<exists>l. as = Some l \<and> fset_of_list (map assignee l) = fmdom (in_members i))
    then \<exists>w'. (\<exists>r. w_sync gen mid as (Wrapper_Forming i) = Inr (w', SyncGroupResponse r) \<and> sr_error_code r = NoError) \<and>
      w_generation_id w' = gen \<and> w_members w' = in_members i \<and>
      (\<forall>m as'. fmlookup (in_members i) m \<noteq> None \<longrightarrow>
        (\<exists>r. w_sync gen m as' w' = Inr (w', SyncGroupResponse r) \<and> sr_error_code r = NoError \<and>
          map_of (rev (map (\<lambda>a. (assignee a, assigned a)) (the as))) m = Some (sr_assignment r)))
    else \<exists>code. code \<noteq> NoError \<and> w_sync gen mid as (Wrapper_Forming i) =
      Inr (Wrapper_Forming i, sync_body code (fg_protocol_type (in_state i)) (fg_protocol_name (in_state i)) [])"
proof (split if_split, intro conjI impI)
  assume sync: "fmlookup (in_members i) mid \<noteq> None \<and> gen = in_generation_id i \<and> fg_leader (in_state i) = Some mid \<and>
      (\<exists>l. as = Some l \<and> fset_of_list (map assignee l) = fmdom (in_members i))"
  then obtain l where l: "as = Some l" "fset_of_list (map assignee l) = fmdom (in_members i)" by blast
  obtain pn pt where p: "fg_protocol_name (in_state i) = Some pn" "fg_protocol_type (in_state i) = Some pt"
    using assms sync by auto
  define f where "f = with_state gen \<lparr>fd_protocol_type = pt, fd_protocol_name = pn, fd_leader = mid,
    fd_assignments = collect_assignments l\<rparr> i"
  have formed: "\<exists>r. forming_sync gen mid as i = Inr (Wrapper_Formed f, SyncGroupResponse r) \<and> sr_error_code r = NoError"
    using sync l p by (simp add: forming_sync_def Let_def f_def)
  have member: "\<exists>r. w_sync gen m as' (Wrapper_Formed f) = Inr (Wrapper_Formed f, SyncGroupResponse r) \<and>
      sr_error_code r = NoError \<and>
      map_of (rev (map (\<lambda>a. (assignee a, assigned a)) (the as))) m = Some (sr_assignment r)"
    if "fmlookup (in_members i) m \<noteq> None" for m as'
  proof -
    have "m |\<in>| fmdom (collect_assignments l)"
      using l(2) that by (simp add: collect_assignments_dom fmlookup_dom_iff)
    then obtain a where "fmlookup (collect_assignments l) m = Some a"
      by (auto simp: fmlookup_dom_iff)
    then show ?thesis
      using that l(1) by (simp add: w_sync_def formed_sync_def Let_def f_def lookup_collect_assignments)
  qed
  show "\<exists>w'. (\<exists>r. w_sync gen mid as (Wrapper_Forming i) = Inr (w', SyncGroupResponse r) \<and> sr_error_code r = NoError) \<and>
      w_generation_id w' = gen \<and> w_members w' = in_members i \<and>
      (\<forall>m as'. fmlookup (in_members i) m \<noteq> None \<longrightarrow>
        (\<exists>r. w_sync gen m as' w' = Inr (w', SyncGroupResponse r) \<and> sr_error_code r = NoError \<and>
          map_of (rev (map (\<lambda>a. (assignee a, assigned a)) (the as))) m = Some (sr_assignment r)))"
    using formed member by (intro exI [of _ "Wrapper_Formed f"]) (simp add: w_sync_def f_def)
next
  assume "\<not> (fmlookup (in_members i) mid \<noteq> None \<and> gen = in_generation_id i \<and> fg_leader (in_state i) = Some mid \<and>
      (\<exists>l. as = Some l \<and> fset_of_list (map assignee l) = fmdom (in_members i)))"
  from forming_sync_refused [OF assms this]
  show "\<exists>code. code \<noteq> NoError \<and> w_sync gen mid as (Wrapper_Forming i) =
      Inr (Wrapper_Forming i, sync_body code (fg_protocol_type (in_state i)) (fg_protocol_name (in_state i)) [])"
    by (simp add: w_sync_def)
qed

subsection \<open>The stored form\<close>

lemma member_of_group_member_of [simp]: "member_of (group_member_of m) = m"
  by (simp add: member_of_def group_member_of_def)

lemma fmmap_member_of [simp]: "fmmap member_of (fmmap group_member_of ms) = ms"
  by (rule fmap_ext) (simp add: option.map_comp comp_def option.map_ident)

lemma reload_forming:
  "with_storage_group_detail (group_detail_of (Wrapper_Forming i)) =
     Wrapper_Forming (i\<lparr>in_state := (in_state i)\<lparr>fg_leader :=
       (case fg_leader (in_state i) of None \<Rightarrow> None
        | Some l \<Rightarrow> if fmlookup (in_members i) l = None then None else Some l)\<rparr>\<rparr>)"
proof -
  have "list_ex (\<lambda>(id, _). id = l) (entries (fmmap group_member_of (in_members i))) \<longleftrightarrow>
      fmlookup (in_members i) l \<noteq> None" for l
    by (auto simp: list_ex_iff)
  then show ?thesis
    by (simp add: with_storage_group_detail_def group_detail_of_def Let_def split: option.splits)
qed

lemma reload_formed: "with_storage_group_detail (group_detail_of (Wrapper_Formed i)) = Wrapper_Formed i"
  by (simp add: with_storage_group_detail_def group_detail_of_def)

text \<open>A group read back from storage is the group that was stored, but for a leader that has left.\<close>

lemma reload_same:
  assumes "\<And>l. w_leader w = Some l \<Longrightarrow> fmlookup (w_members w) l \<noteq> None"
  shows "with_storage_group_detail (group_detail_of w) = w"
proof (cases w)
  case (Wrapper_Forming i)
  then show ?thesis using assms by (auto simp: reload_forming split: option.splits)
next
  case (Wrapper_Formed i)
  then show ?thesis by (simp add: reload_formed)
qed

lemma reload_ok: "group_ok w \<Longrightarrow> group_ok (with_storage_group_detail (group_detail_of w))"
  by (cases w) (auto simp: reload_forming reload_formed split: option.splits)

subsection \<open>A leader that leaves while the group is forming\<close>

definition leaderless :: "string \<Rightarrow> wrapper \<Rightarrow> bool" where
  "leaderless l w \<longleftrightarrow> (\<exists>i. w = Wrapper_Forming i \<and> fg_leader (in_state i) = Some l \<and> fmlookup (in_members i) l = None)"

lemma leaderless_step:
  assumes "group_step static w w'" and "leaderless l w" and "fmlookup (w_members w') l = None"
  shows "leaderless l w'"
  using assms
proof (induction rule: group_step.induct)
  case (join now uuid q w w' b)
  then show ?case
    by (auto simp: leaderless_def w_join_def forming_join_def forming_join_id_required_def forming_join_member_def
        Let_def split: sum.splits option.splits list.splits if_splits)
next
  case (sync gen mid as w w' b)
  then show ?case
    by (auto simp: leaderless_def w_sync_def forming_sync_def Let_def split: option.splits if_splits)
next
  case (heartbeat now gen mid w w' b)
  then show ?case
    by (auto simp: leaderless_def w_heartbeat_def forming_heartbeat_def forming_missed_heartbeat_def touch_def
        update_last_contact_def Let_def split: if_splits)
next
  case (leave mids ids w w' b)
  then show ?case
    by (auto simp: leaderless_def w_leave_def forming_leave_def Let_def split: prod.splits if_splits)
next
  case (missed mid now w w')
  then show ?case
    by (auto simp: leaderless_def missed_heartbeat_def forming_missed_heartbeat_def update_last_contact_def Let_def
        split: if_splits)
next
  case (fence now d w code w')
  then show ?case
    by (auto simp: leaderless_def w_fence_def offset_commit_fence_def Let_def split: if_splits)
qed

text \<open>C38: A leader that leaves a forming group stays its leader.  After it has left, and however the
  remaining and new members join, sync, heartbeat, leave or commit, the group held by the coordinator never forms
  again as long as the departed member does not come back: no sync succeeds.  Only reading the group back from
  storage clears the leader.\<close>

theorem departed_leader_blocks_group:
  assumes "fg_leader (in_state i) = Some l"
    and "(\<lambda>a b. group_step True a b \<and> fmlookup (w_members b) l = None)\<^sup>*\<^sup>*
           (fst (w_leave (Some l) None (Wrapper_Forming i))) w'"
  shows "w_leader w' = Some l \<and> w_assignments w' = None \<and>
    (w_sync gen mid as w' = Inr (w'', SyncGroupResponse r) \<longrightarrow> sr_error_code r \<noteq> NoError) \<and>
    w_leader (with_storage_group_detail (group_detail_of w')) = None"
proof -
  have start: "leaderless l (fst (w_leave (Some l) None (Wrapper_Forming i)))"
    using assms(1) by (simp add: leaderless_def w_leave_def forming_leave_def leaving_def Let_def)
  have "leaderless l w'"
    using assms(2) by (induction rule: rtranclp_induct) (auto intro: start leaderless_step)
  then obtain j where "w' = Wrapper_Forming j" "fg_leader (in_state j) = Some l" "fmlookup (in_members j) l = None"
    by (auto simp: leaderless_def)
  then show ?thesis
    by (auto simp: reload_forming w_sync_def forming_sync_def Let_def split: option.splits if_splits)
qed

subsection \<open>Eviction by a static member's heartbeat\<close>

lemma in_session_now [simp]: "in_session t now (m_last_contact_update (\<lambda>_. Some now) m)"
  by (simp add: in_session_def timed_out_def)

lemma adjust_contact_idem:
  "adjust mid (m_last_contact_update (\<lambda>_. Some now)) (retain (\<lambda>_. in_session t now)
     (adjust mid (m_last_contact_update (\<lambda>_. Some now)) ms)) =
   retain (\<lambda>_. in_session t now) (adjust mid (m_last_contact_update (\<lambda>_. Some now)) ms)"
  by (rule fmap_ext) (auto split: option.splits)

text \<open>C39: The heartbeat of a formed group evicts without a rebalance.  When a member of a formed group has
  timed out and the heartbeat of another member reaches the group's own handler first (which is so for a static
  member, whose requests skip the eviction of the coordinator), the member is dropped and the heartbeat is answered
  with \<open>RebalanceInProgress\<close>, but the group stays formed, at the same generation and with the assignments that
  include the dropped member; the next heartbeat is answered without an error.\<close>

theorem static_heartbeat_evicts_silently:
  assumes "fmlookup (in_members i) mid \<noteq> None" and "mid \<noteq> []"
    and "fmlookup (in_members i) k = Some m" and "k \<noteq> mid" and "\<not> in_session (in_session_timeout_ms i) now m"
  shows "\<exists>j. w_heartbeat now (in_generation_id i) mid (Wrapper_Formed i) =
      (Wrapper_Formed j, heartbeat_body RebalanceInProgress) \<and>
    fmlookup (in_members j) k = None \<and> in_generation_id j = in_generation_id i \<and> in_state j = in_state i \<and>
    w_heartbeat now (in_generation_id i) mid (Wrapper_Formed j) = (Wrapper_Formed j, heartbeat_body NoError)"
proof -
  define ms where "ms = adjust mid (m_last_contact_update (\<lambda>_. Some now)) (in_members i)"
  define j where "j = i\<lparr>in_members := retain (\<lambda>_. in_session (in_session_timeout_ms i) now) ms\<rparr>"
  have k: "fmlookup ms k = Some m"
    using assms(3,4) by (simp add: ms_def)
  then have shrinks: "fcard (fmdom (in_members j)) < fcard (fmdom ms)"
    unfolding j_def by (simp add: retain_shrinks) (use assms(5) in blast)
  have missed: "formed_missed_heartbeat mid now i = (True, j)"
    using assms(2) shrinks
    by (simp add: formed_missed_heartbeat_def update_last_contact_def evict_members_def Let_def ms_def j_def)
  have again: "formed_missed_heartbeat mid now j = (False, j)"
    using assms(2)
    by (simp add: formed_missed_heartbeat_def update_last_contact_def evict_members_def Let_def j_def ms_def
        adjust_contact_idem retain_retain)
  have member: "fmlookup (in_members j) mid \<noteq> None"
    using assms(1) by (auto simp: j_def ms_def)
  have touched: "touch mid now j = j"
    by (simp add: touch_def j_def ms_def adjust_contact_idem)
  have "fmlookup (in_members j) k = None" "in_generation_id j = in_generation_id i" "in_state j = in_state i"
    using k assms(5) by (simp_all add: j_def)
  moreover have "w_heartbeat now (in_generation_id i) mid (Wrapper_Formed i) =
      (Wrapper_Formed j, heartbeat_body RebalanceInProgress)"
    using assms(1) missed by (auto simp: w_heartbeat_def formed_heartbeat_def)
  moreover have "w_heartbeat now (in_generation_id i) mid (Wrapper_Formed j) = (Wrapper_Formed j, heartbeat_body NoError)"
    using member again touched calculation(2) by (auto simp: w_heartbeat_def formed_heartbeat_def)
  ultimately show ?thesis by blast
qed

section \<open>A concrete group\<close>

definition demo_forming :: "forming inner" where
  "demo_forming = \<lparr>in_session_timeout_ms = 10000, in_rebalance_timeout_ms = None,
     in_members = fmupd ''b'' (new_member 0 ''b'' None [2]) (fmupd ''a'' (new_member 0 ''a'' None [1]) fmempty),
     in_generation_id = 0,
     in_state = \<lparr>fg_protocol_type = Some ''consumer'', fg_protocol_name = Some ''range'', fg_leader = Some ''a''\<rparr>,
     in_skip_assignment = Some False, in_inception = 0\<rparr>"

definition demo_assignments :: "sync_group_request_assignment list" where
  "demo_assignments = [\<lparr>assignee = ''a'', assigned = [10]\<rparr>, \<lparr>assignee = ''b'', assigned = [11]\<rparr>]"

definition demo_formed :: "formed inner" where
  "demo_formed = with_state 0 \<lparr>fd_protocol_type = ''consumer'', fd_protocol_name = ''range'', fd_leader = ''a'',
     fd_assignments = collect_assignments demo_assignments\<rparr> demo_forming"

lemma demo_forming_ok: "group_ok (Wrapper_Forming demo_forming)"
  by (simp add: demo_forming_def)

theorem one_assignment_per_generation_witness:
  "w_generation_id (Wrapper_Formed demo_formed) \<le>
     w_generation_id (fst (w_leave (Some ''b'') None (Wrapper_Formed demo_formed)))"
proof -
  let ?w = "Wrapper_Formed demo_formed"
  let ?w' = "fst (w_leave (Some ''b'') None ?w)"
  have "group_step False ?w ?w'"
    by (rule group_step.leave [where b = "snd (w_leave (Some ''b'') None ?w)"]) simp
  moreover have "fits_signed 32 (w_generation_id ?w + 1)"
    by (simp add: demo_formed_def fits_signed_def)
  ultimately have "(\<lambda>a b. group_step False a b \<and> fits_signed 32 (w_generation_id a + 1))\<^sup>*\<^sup>* ?w ?w'"
    by (intro r_into_rtranclp) simp
  from one_assignment_per_generation [OF this] show ?thesis by blast
qed

theorem group_never_panics_witness:
  "w_sync 0 ''a'' (Some demo_assignments) (Wrapper_Forming demo_forming) \<noteq> Inl Panic"
  using group_never_panics [OF demo_forming_ok] by blast

theorem sync_distributes_assignments_witness:
  "\<exists>w'. (\<exists>r. w_sync 0 ''a'' (Some demo_assignments) (Wrapper_Forming demo_forming) = Inr (w', SyncGroupResponse r) \<and>
       sr_error_code r = NoError) \<and>
     (\<exists>r. w_sync 0 ''b'' None w' = Inr (w', SyncGroupResponse r) \<and> sr_assignment r = [11])"
proof -
  have members: "fmlookup (in_members demo_forming) ''a'' \<noteq> None" "fmlookup (in_members demo_forming) ''b'' \<noteq> None"
    "fset_of_list (map assignee demo_assignments) = fmdom (in_members demo_forming)"
    by (auto simp: demo_forming_def demo_assignments_def)
  have cond: "fmlookup (in_members demo_forming) ''a'' \<noteq> None \<and> 0 = in_generation_id demo_forming \<and>
      fg_leader (in_state demo_forming) = Some ''a'' \<and>
      (\<exists>l. Some demo_assignments = Some l \<and> fset_of_list (map assignee l) = fmdom (in_members demo_forming))"
    using members by (simp add: demo_forming_def)
  have b: "map_of (rev (map (\<lambda>a. (assignee a, assigned a)) (the (Some demo_assignments)))) ''b'' = Some [11]"
    by (simp add: demo_assignments_def)
  obtain w' where w': "\<exists>r. w_sync 0 ''a'' (Some demo_assignments) (Wrapper_Forming demo_forming) =
        Inr (w', SyncGroupResponse r) \<and> sr_error_code r = NoError"
    and each: "\<forall>m as'. fmlookup (in_members demo_forming) m \<noteq> None \<longrightarrow>
        (\<exists>r. w_sync 0 m as' w' = Inr (w', SyncGroupResponse r) \<and> sr_error_code r = NoError \<and>
          map_of (rev (map (\<lambda>a. (assignee a, assigned a)) (the (Some demo_assignments)))) m = Some (sr_assignment r))"
    using sync_distributes_assignments [OF demo_forming_ok, of "''a''" 0 "Some demo_assignments", unfolded if_P [OF cond]]
    by blast
  obtain r where "w_sync 0 ''b'' None w' = Inr (w', SyncGroupResponse r)"
    "map_of (rev (map (\<lambda>a. (assignee a, assigned a)) (the (Some demo_assignments)))) ''b'' = Some (sr_assignment r)"
    using each [rule_format, OF members(2), of None] by blast
  then have "\<exists>r. w_sync 0 ''b'' None w' = Inr (w', SyncGroupResponse r) \<and> sr_assignment r = [11]"
    using b by auto
  with w' show ?thesis by blast
qed

theorem departed_leader_blocks_group_witness:
  "w_leader (fst (w_leave (Some ''a'') None (Wrapper_Forming demo_forming))) = Some ''a''"
  by (rule conjunct1 [OF departed_leader_blocks_group [where i = demo_forming and l = "''a''"]])
    (simp_all add: demo_forming_def)

theorem static_heartbeat_evicts_silently_witness:
  "\<exists>j. w_heartbeat 20000 0 ''a'' (Wrapper_Formed demo_formed) =
     (Wrapper_Formed j, heartbeat_body RebalanceInProgress) \<and> fmlookup (in_members j) ''b'' = None"
proof -
  have "fmlookup (in_members demo_formed) ''a'' \<noteq> None"
    "fmlookup (in_members demo_formed) ''b'' = Some (new_member 0 ''b'' None [2])"
    "\<not> in_session (in_session_timeout_ms demo_formed) 20000 (new_member 0 ''b'' None [2])"
    "in_generation_id demo_formed = 0"
    by (simp_all add: demo_formed_def demo_forming_def in_session_def timed_out_def new_member_def)
  with static_heartbeat_evicts_silently [of demo_formed "''a''" "''b''" "new_member 0 ''b'' None [2]" 20000]
  show ?thesis by auto
qed

end
