(* ===== verification/Group_Controller.thy ===== *)
theory Group_Controller
  imports Group_Spec
begin

text \<open>
  The group coordinator of \<open>tansu-broker/src/coordinator/group/administrator.rs\<close>: the offset handlers of a
  group, which call the storage, and the \<open>Controller\<close>, which keeps the groups it has seen with the version it
  last read, and serves each request in a loop: take the group out of the cache, run the handler, write the result
  back under the version (\<open>update_group\<close>), start again from what is stored when that version is outdated.

  The storage engine behind the \<open>Storage\<close> trait is a record of operations; \<open>nvme_storage\<close> is the engine modelled
  in this development.  The clock and the random identifiers are parameters, and one reading of the clock is one
  tick.  A turn of a loop is a function; the loop itself is a partial function, so that not returning is \<open>None\<close>.
  The mutex around the cache cannot be poisoned, as nothing panics while it is held.
\<close>

section \<open>Storage\<close>

record 's storage =
  st_update_group :: "string \<Rightarrow> group_detail \<Rightarrow> version option \<Rightarrow> 's \<Rightarrow> (update_error + version) \<times> 's"
  st_offset_commit :: "string \<Rightarrow> int option \<Rightarrow> (topition \<times> offset_commit_request) list \<Rightarrow>
    ('s, (topition \<times> error_code) list) op"
  st_offset_fetch :: "string option \<Rightarrow> topition list \<Rightarrow> bool option \<Rightarrow> ('s, (topition, int) fmap) op"
  st_committed_offset_topitions :: "string \<Rightarrow> ('s, (topition, int) fmap) op"

definition nvme_storage :: "env \<Rightarrow> engine storage" where
  "nvme_storage env = \<lparr>st_update_group = update_group env,
     st_offset_commit = (\<lambda>g _ offsets. offset_commit env g offsets),
     st_offset_fetch = (\<lambda>g tps _ e. (Inr (offset_fetch g tps e), e)),
     st_committed_offset_topitions = (\<lambda>g e. (Inr (committed_offset_topitions g e), e))\<rparr>"

section \<open>Offsets\<close>

text \<open>Responses list the partitions under their topics, the topics in the order of a \<open>BTreeSet\<close>.\<close>

definition by_topic :: "(topition \<times> 'v \<Rightarrow> 'r) \<Rightarrow> (topition \<times> 'v) list \<Rightarrow> (string \<times> 'r list) list" where
  "by_topic f xs =
     map (\<lambda>name. (name, map f (filter (\<lambda>(tp, _). topic tp = name) xs)))
       (sorted_list_of_fset (fset_of_list (map (\<lambda>(tp, _). topic tp) xs)))"

subsection \<open>Commit\<close>

definition offset_commit_request_of :: "offset_commit_partition \<Rightarrow> error + offset_commit_request" where
  "offset_commit_request_of p =
     (case cp_commit_timestamp p of
        Some ts \<Rightarrow>
          if ts < 0 then Inl (SansIo TryFromInt)
          else Inr \<lparr>commit_offset = cp_committed_offset p, commit_leader_epoch = cp_committed_leader_epoch p,
                   commit_timestamp = Some ts, commit_request_metadata = cp_committed_metadata p\<rparr>
      | None \<Rightarrow> Inr \<lparr>commit_offset = cp_committed_offset p, commit_leader_epoch = cp_committed_leader_epoch p,
                   commit_timestamp = None, commit_request_metadata = cp_committed_metadata p\<rparr>)"

fun requested_commits :: "(topition \<times> offset_commit_partition) list \<Rightarrow> error + (topition \<times> offset_commit_request) list" where
  "requested_commits [] = Inr []"
| "requested_commits ((tp, p) # ps) =
     (case offset_commit_request_of p of
        Inl err \<Rightarrow> Inl err
      | Inr oc \<Rightarrow> (case requested_commits ps of Inl err \<Rightarrow> Inl err | Inr ocs \<Rightarrow> Inr ((tp, oc) # ocs)))"

definition commit_partitions ::
    "(string \<times> offset_commit_partition list option) list \<Rightarrow> (topition \<times> offset_commit_partition) list" where
  "commit_partitions ts =
     concat (map (\<lambda>(name, ps). case ps of None \<Rightarrow> []
       | Some ps \<Rightarrow> map (\<lambda>p. (Topition name (cp_partition_index p), p)) ps) ts)"

text \<open>\<open>Inner::commit_offset\<close>.\<close>

definition commit_offsets :: "'s storage \<Rightarrow> offset_commit_detail \<Rightarrow> ('s, body) op" where
  "commit_offsets st d s =
     (if (case cd_retention_time_ms d of Some ms \<Rightarrow> ms < 0 | None \<Rightarrow> False) then (Inl (SansIo TryFromInt), s)
      else case cd_topics d of
          None \<Rightarrow> (Inr (OffsetCommitResponse (Some 0) None), s)
        | Some ts \<Rightarrow>
            (case requested_commits (commit_partitions ts) of
               Inl err \<Rightarrow> (Inl err, s)
             | Inr offsets \<Rightarrow>
                 and_then (st_offset_commit st (cd_group_id d) (cd_retention_time_ms d) offsets)
                   (\<lambda>value. ok (OffsetCommitResponse (Some 0)
                      (Some (map (apsnd Some) (by_topic (\<lambda>(tp, code). (partition tp, code)) value))))) s))"

definition w_offset_commit ::
    "'s storage \<Rightarrow> system_time \<Rightarrow> offset_commit_detail \<Rightarrow> wrapper \<Rightarrow> 's \<Rightarrow> (wrapper \<times> body) \<times> 's" where
  "w_offset_commit st now d w s =
     (case w_fence now d w of
        (Some code, w) \<Rightarrow> ((w, offset_commit_response d code), s)
      | (None, w) \<Rightarrow>
          (case commit_offsets st d s of
             (Inr b, s) \<Rightarrow> ((w, b), s)
           | (Inl _, s) \<Rightarrow> ((w, offset_commit_response d UnknownMemberId), s)))"

subsection \<open>Fetch\<close>

definition topitions_of :: "(string \<times> int list option) list \<Rightarrow> topition list" where
  "topitions_of ts = concat (map (\<lambda>(name, ps). case ps of None \<Rightarrow> [] | Some ps \<Rightarrow> map (Topition name) ps) ts)"

definition fetch_topic_partition :: "topition \<times> int \<Rightarrow> offset_fetch_partition" where
  "fetch_topic_partition = (\<lambda>(tp, offset). \<lparr>fp_partition_index = partition tp, fp_committed_offset = offset,
     fp_committed_leader_epoch = Some (-1), fp_metadata = Some '''', fp_error_code = NoError\<rparr>)"

definition fetch_group_partition :: "topition \<times> int \<Rightarrow> offset_fetch_partition" where
  "fetch_group_partition = (\<lambda>(tp, offset). \<lparr>fp_partition_index = partition tp, fp_committed_offset = offset,
     fp_committed_leader_epoch = Some (-1), fp_metadata = None, fp_error_code = NoError\<rparr>)"

type_synonym fetched_group = "string \<times> (string \<times> offset_fetch_partition list) list \<times> error_code"

fun fetch_groups ::
    "'s storage \<Rightarrow> bool option \<Rightarrow> (string \<times> (string \<times> int list option) list option) list \<Rightarrow>
     ('s, fetched_group list) op" where
  "fetch_groups st require_stable [] s = (Inr [], s)"
| "fetch_groups st require_stable ((g, ts) # gs) s =
     and_then
       (case ts of
          Some ts \<Rightarrow> st_offset_fetch st (Some g) (topitions_of ts) require_stable
        | None \<Rightarrow> st_committed_offset_topitions st g)
       (\<lambda>offsets. and_then (fetch_groups st require_stable gs)
          (\<lambda>rs. ok ((g, by_topic fetch_group_partition (entries offsets), NoError) # rs))) s"

definition fetch_offset ::
    "'s storage \<Rightarrow> string option \<Rightarrow> (string \<times> int list option) list option \<Rightarrow>
     (string \<times> (string \<times> int list option) list option) list option \<Rightarrow> bool option \<Rightarrow> ('s, body) op" where
  "fetch_offset st g ts gs require_stable =
     and_then
       (case ts of
          Some ts \<Rightarrow> and_then (st_offset_fetch st g (topitions_of ts) require_stable)
            (\<lambda>offsets. ok (Some (by_topic fetch_topic_partition (entries offsets))))
        | None \<Rightarrow> ok None)
       (\<lambda>ts. and_then (case gs of Some gs \<Rightarrow> and_then (fetch_groups st require_stable gs) (\<lambda>rs. ok (Some rs)) | None \<Rightarrow> ok None)
          (\<lambda>gs. ok (OffsetFetchResponse (Some 0) ts (Some NoError) gs)))"

section \<open>The controller\<close>

record coord_env =
  ce_now :: "nat \<Rightarrow> system_time"
  ce_uuid :: "nat \<Rightarrow> string"

record 's node =
  nd_store :: 's
  nd_wrappers :: "(string, wrapper \<times> version option) fmap"
  nd_ticks :: nat

definition with_storage :: "'s \<Rightarrow> 's node" where
  "with_storage s = \<lparr>nd_store = s, nd_wrappers = fmempty, nd_ticks = 0\<rparr>"

definition read_clock :: "coord_env \<Rightarrow> 's node \<Rightarrow> system_time \<times> 's node" where
  "read_clock ce n = (ce_now ce (nd_ticks n), n\<lparr>nd_ticks := Suc (nd_ticks n)\<rparr>)"

text \<open>\<open>wrappers.remove(group_id).unwrap_or_else(..)\<close>\<close>

definition take_wrapper ::
    "coord_env \<Rightarrow> string \<Rightarrow> (system_time \<Rightarrow> forming inner) \<Rightarrow> 's node \<Rightarrow> (wrapper \<times> version option) \<times> 's node" where
  "take_wrapper ce g fresh n =
     (case fmlookup (nd_wrappers n) g of
        Some wv \<Rightarrow> (wv, n\<lparr>nd_wrappers := fmdrop g (nd_wrappers n)\<rparr>)
      | None \<Rightarrow> (let (now, n) = read_clock ce n in ((Wrapper_Forming (fresh now), None), n)))"

definition put_wrapper :: "string \<Rightarrow> wrapper \<Rightarrow> version \<Rightarrow> 's node \<Rightarrow> 's node" where
  "put_wrapper g w v n = n\<lparr>nd_wrappers := fmupd g (w, Some v) (nd_wrappers n)\<rparr>"

datatype turn = Return "error + body" | Continue

text \<open>\<open>update_group\<close>, and what every loop does when it is refused.\<close>

definition update_stored ::
    "'s storage \<Rightarrow> string \<Rightarrow> wrapper \<Rightarrow> version option \<Rightarrow> 's node \<Rightarrow> (update_error + version) \<times> 's node" where
  "update_stored st g w v n =
     (let (r, s) = st_update_group st g (group_detail_of w) v (nd_store n) in (r, n\<lparr>nd_store := s\<rparr>))"

definition update_refused :: "string \<Rightarrow> update_error \<Rightarrow> 's node \<Rightarrow> turn \<times> 's node" where
  "update_refused g err n =
     (case err of
        Outdated current version \<Rightarrow> (Continue, put_wrapper g (with_storage_group_detail current) version n)
      | UpdateError err \<Rightarrow> (Return (Inl err), n)
      | UpdateSerdeJson \<Rightarrow> (Return (Inl SerdeJson), n)
      | MissingEtag \<Rightarrow> (Return (Inl (Message ''missing e-tag'')), n)
      | UpdateUuid \<Rightarrow> (Return (Inl (Message ''uuid'')), n))"

partial_function (option) run_turns :: "('n \<Rightarrow> turn \<times> 'n) \<Rightarrow> 'n \<Rightarrow> ((error + body) \<times> 'n) option" where
  "run_turns f n = (case f n of (Return r, n') \<Rightarrow> Some (r, n') | (Continue, n') \<Rightarrow> run_turns f n')"

subsection \<open>Heartbeat, leave, offset commit and offset fetch\<close>

text \<open>The end of a turn that answers as soon as its group is stored.\<close>

definition write_back ::
    "'s storage \<Rightarrow> string \<Rightarrow> wrapper \<Rightarrow> version option \<Rightarrow> body \<Rightarrow> 's node \<Rightarrow> turn \<times> 's node" where
  "write_back st g w v b n =
     (let (r, n) = update_stored st g w v n
      in case r of Inr v \<Rightarrow> (Return (Inr b), put_wrapper g w v n) | Inl err \<Rightarrow> update_refused g err n)"

definition heartbeat_turn ::
    "'s storage \<Rightarrow> coord_env \<Rightarrow> string \<Rightarrow> int \<Rightarrow> string \<Rightarrow> string option \<Rightarrow> 's node \<Rightarrow> turn \<times> 's node" where
  "heartbeat_turn st ce g gen mid inst n =
     (let ((w, v), n) = take_wrapper ce g inner_new n;
          (now, n) = read_clock ce n;
          w = (if inst = None then missed_heartbeat mid now w else w);
          (w, b) = w_heartbeat now gen mid w
      in write_back st g w v b n)"

definition ctl_heartbeat ::
    "'s storage \<Rightarrow> coord_env \<Rightarrow> string \<Rightarrow> int \<Rightarrow> string \<Rightarrow> string option \<Rightarrow> 's node \<Rightarrow> ((error + body) \<times> 's node) option" where
  "ctl_heartbeat st ce g gen mid inst = run_turns (heartbeat_turn st ce g gen mid inst)"

definition leave_turn ::
    "'s storage \<Rightarrow> coord_env \<Rightarrow> string \<Rightarrow> string option \<Rightarrow> member_identity list option \<Rightarrow> 's node \<Rightarrow> turn \<times> 's node" where
  "leave_turn st ce g mid ids n =
     (let ((w, v), n) = take_wrapper ce g inner_new n;
          (now, n) = read_clock ce n;
          w = missed_heartbeat (case mid of Some mid \<Rightarrow> mid | None \<Rightarrow> []) now w;
          (w, b) = w_leave mid ids w
      in write_back st g w v b n)"

definition ctl_leave ::
    "'s storage \<Rightarrow> coord_env \<Rightarrow> string \<Rightarrow> string option \<Rightarrow> member_identity list option \<Rightarrow> 's node \<Rightarrow>
     ((error + body) \<times> 's node) option" where
  "ctl_leave st ce g mid ids = run_turns (leave_turn st ce g mid ids)"

definition offset_commit_turn ::
    "'s storage \<Rightarrow> coord_env \<Rightarrow> offset_commit_detail \<Rightarrow> 's node \<Rightarrow> turn \<times> 's node" where
  "offset_commit_turn st ce d n =
     (let g = cd_group_id d;
          ((w, v), n) = take_wrapper ce g inner_new n;
          (now, n) = read_clock ce n;
          ((w, b), s) = w_offset_commit st now d w (nd_store n)
      in write_back st g w v b (n\<lparr>nd_store := s\<rparr>))"

definition ctl_offset_commit ::
    "'s storage \<Rightarrow> coord_env \<Rightarrow> offset_commit_detail \<Rightarrow> 's node \<Rightarrow> ((error + body) \<times> 's node) option" where
  "ctl_offset_commit st ce d = run_turns (offset_commit_turn st ce d)"

text \<open>The group of \<open>offset_fetch\<close> is a new one, and an error of the storage reaches a \<open>todo!()\<close>.\<close>

definition ctl_offset_fetch ::
    "'s storage \<Rightarrow> string option \<Rightarrow> (string \<times> int list option) list option \<Rightarrow>
     (string \<times> (string \<times> int list option) list option) list option \<Rightarrow> bool option \<Rightarrow> 's node \<Rightarrow> (error + body) \<times> 's node" where
  "ctl_offset_fetch st g ts gs require_stable n =
     (case fetch_offset st g ts gs require_stable (nd_store n) of
        (Inr b, s) \<Rightarrow> (Inr b, n\<lparr>nd_store := s\<rparr>)
      | (Inl _, s) \<Rightarrow> (Inl Panic, n\<lparr>nd_store := s\<rparr>))"

subsection \<open>Join and sync\<close>

text \<open>Times are \<open>u128\<close> milliseconds: a negative timeout becomes a very large one.\<close>

definition as_u128 :: "int \<Rightarrow> int" where
  "as_u128 x = x mod 2 ^ 128"

definition PAUSE_MS :: int where
  "PAUSE_MS = 3000"

definition join_default :: "join_request \<Rightarrow> system_time \<Rightarrow> forming inner" where
  "join_default q now = (inner_new now)\<lparr>in_session_timeout_ms := jq_session_timeout_ms q,
     in_rebalance_timeout_ms := jq_rebalance_timeout_ms q\<rparr>"

text \<open>The end of a turn that may have to wait: \<open>decide\<close> is what to do after some time since the request
  started.\<close>

definition write_back_wait ::
    "'s storage \<Rightarrow> coord_env \<Rightarrow> string \<Rightarrow> system_time \<Rightarrow> wrapper \<Rightarrow> version option \<Rightarrow> (int \<Rightarrow> turn) \<Rightarrow> 's node \<Rightarrow>
     turn \<times> 's node" where
  "write_back_wait st ce g started w v decide n =
     (let (r, n) = update_stored st g w v n
      in case r of
           Inl err \<Rightarrow> update_refused g err n
         | Inr v \<Rightarrow>
             (let (later, n) = read_clock ce n;
                  elapsed = later - started
              in if elapsed < 0 then (Return (Inl SystemTimeError), n)
                 else (decide elapsed, put_wrapper g w v n)))"

definition join_turn ::
    "'s storage \<Rightarrow> coord_env \<Rightarrow> string \<Rightarrow> join_request \<Rightarrow> system_time \<Rightarrow> 's node \<Rightarrow> turn \<times> 's node" where
  "join_turn st ce g q started n =
     (let (now, n) = read_clock ce n;
          ((w, v), n) = take_wrapper ce g (join_default q) n;
          w = (if jq_group_instance_id q = None then missed_heartbeat (jq_member_id q) now w else w)
      in case w_join now (ce_uuid ce (nd_ticks n)) q w of
           Inl err \<Rightarrow> (Return (Inl err), n)
         | Inr (w, b) \<Rightarrow>
             write_back_wait st ce g started w v
               (\<lambda>elapsed.
                  if jq_group_instance_id q \<noteq> None \<and> elapsed < PAUSE_MS then Continue
                  else if is_member_id_required b then Return (Inr b)
                  else if elapsed < as_u128 (w_session_timeout_ms w) div 2 then Continue
                  else Return (Inr b)) n)"

definition ctl_join ::
    "'s storage \<Rightarrow> coord_env \<Rightarrow> string \<Rightarrow> join_request \<Rightarrow> 's node \<Rightarrow> ((error + body) \<times> 's node) option" where
  "ctl_join st ce g q n = (let (started, n) = read_clock ce n in run_turns (join_turn st ce g q started) n)"

definition sync_turn ::
    "'s storage \<Rightarrow> coord_env \<Rightarrow> string \<Rightarrow> int \<Rightarrow> string \<Rightarrow> string option \<Rightarrow>
     sync_group_request_assignment list option \<Rightarrow> system_time \<Rightarrow> 's node \<Rightarrow> turn \<times> 's node" where
  "sync_turn st ce g gen mid inst as started n =
     (let (now, n) = read_clock ce n;
          ((w, v), n) = take_wrapper ce g inner_new n;
          w = (if inst = None then missed_heartbeat mid now w else w)
      in case w_sync gen mid as w of
           Inl err \<Rightarrow> (Return (Inl err), n)
         | Inr (w, b) \<Rightarrow>
             write_back_wait st ce g started w v
               (\<lambda>elapsed.
                  if inst \<noteq> None \<and> elapsed < PAUSE_MS then Continue
                  else if is_assigned w b then Return (Inr b)
                  else if elapsed < (as_u128 (w_session_timeout_ms w) * 8) mod 2 ^ 128 div 10 then Continue
                  else Return (set_error_code b RebalanceInProgress)) n)"

definition ctl_sync ::
    "'s storage \<Rightarrow> coord_env \<Rightarrow> string \<Rightarrow> int \<Rightarrow> string \<Rightarrow> string option \<Rightarrow>
     sync_group_request_assignment list option \<Rightarrow> 's node \<Rightarrow> ((error + body) \<times> 's node) option" where
  "ctl_sync st ce g gen mid inst as n =
     (let (started, n) = read_clock ce n in run_turns (sync_turn st ce g gen mid inst as started) n)"

end
