(* ===== verification/Controller_Spec.thy ===== *)
theory Controller_Spec
  imports Group_Controller Engine_Admin
begin

text \<open>
  What the group coordinator guarantees over a store with an optimistic update: the contract of the store
  (\<open>coordinator_store\<close>) and its interpretation on the nvme engine, that every request returns, what a sync is answered
  with, brokers that share a store, and the offsets of a group from the commit to the fetch.
\<close>

section \<open>What the coordinator relies on\<close>

text \<open>
  A swap of the stored group: the expected version was the stored one, only this group changes, and the new
  version is, as long as the store has fresh ones, one that has not been issued before and is never issued again.
\<close>

definition cas_swap ::
    "('s \<Rightarrow> string \<Rightarrow> (group_detail \<times> version) option) \<Rightarrow> ('s \<Rightarrow> version set) \<Rightarrow> ('s \<Rightarrow> bool) \<Rightarrow>
     string \<Rightarrow> group_detail \<Rightarrow> version option \<Rightarrow> version \<Rightarrow> 's \<Rightarrow> 's \<Rightarrow> bool" where
  "cas_swap held future fresh g d v v' s s' \<longleftrightarrow>
     map_option snd (held s g) = v \<and> held s' = (held s)(g \<mapsto> (d, v')) \<and> future s' \<subseteq> future s \<and>
     (fresh s \<longrightarrow> v' \<in> future s \<and> v' \<notin> future s')"

locale coordinator_store =
  fixes st :: "'s storage"
    and held :: "'s \<Rightarrow> string \<Rightarrow> (group_detail \<times> version) option"
    and future :: "'s \<Rightarrow> version set"
    and fresh :: "'s \<Rightarrow> bool"
  assumes updated: "st_update_group st g d v s = (Inr v', s') \<Longrightarrow> cas_swap held future fresh g d v v' s s'"
    and outdated: "st_update_group st g d v s = (Inl (Outdated d0 v0), s') \<Longrightarrow>
      s' = s \<and> held s g = Some (d0, v0) \<and> v \<noteq> Some v0"
    and failed: "st_update_group st g d v s = (Inl err, s') \<Longrightarrow>
      held s' = held s \<and> future s' \<subseteq> future s \<or> (\<exists>v'. cas_swap held future fresh g d v v' s s')"
    and commits: "st_offset_commit st g retention offsets s = (r, s') \<Longrightarrow> held s' = held s \<and> future s' \<subseteq> future s"
begin

definition current :: "string \<Rightarrow> 's node \<Rightarrow> bool" where
  "current g n \<longleftrightarrow> (\<exists>w v d. fmlookup (nd_wrappers n) g = Some (w, Some v) \<and> held (nd_store n) g = Some (d, v))"

lemma update_not_outdated:
  assumes "held (nd_store n) g = Some (d, v)" and "update_stored st g w (Some v) n = (Inl err, n')"
  shows "\<exists>r. update_refused g err n' = (Return r, n')"
proof (cases err)
  case (Outdated d0 v0)
  with assms(2) have "st_update_group st g (group_detail_of w) (Some v) (nd_store n) = (Inl (Outdated d0 v0), nd_store n')"
    by (auto simp: update_stored_def split: prod.splits)
  from outdated [OF this] assms(1) show ?thesis by simp
qed (simp_all add: update_refused_def)

lemma update_again:
  assumes "update_stored st g w v n = (Inl err, n1)" and "update_refused g err n1 = (Continue, n')"
  shows "current g n' \<and> nd_ticks n' = nd_ticks n"
proof -
  obtain d0 v0 where err: "err = Outdated d0 v0"
    and n': "n' = put_wrapper g (with_storage_group_detail d0) v0 n1"
    using assms(2) by (auto simp: update_refused_def split: update_error.splits)
  obtain s1 where s1: "st_update_group st g (group_detail_of w) v (nd_store n) = (Inl (Outdated d0 v0), s1)"
    and n1: "n1 = n\<lparr>nd_store := s1\<rparr>"
    using assms(1) err by (auto simp: update_stored_def split: prod.splits)
  from outdated [OF s1] show ?thesis
    unfolding current_def n' n1 by (simp add: put_wrapper_def)
qed

lemma update_current:
  assumes "update_stored st g w v n = (Inr v', n')"
  shows "held (nd_store n') g = Some (group_detail_of w, v') \<and> nd_ticks n' = nd_ticks n"
proof -
  obtain s1 where s1: "st_update_group st g (group_detail_of w) v (nd_store n) = (Inr v', s1)"
    and n': "n' = n\<lparr>nd_store := s1\<rparr>"
    using assms by (auto simp: update_stored_def split: prod.splits)
  from updated [OF s1] show ?thesis by (simp add: n' cas_swap_def)
qed

lemma take_current:
  assumes "current g n" and "take_wrapper ce g initial n = ((w, v), n')"
  shows "\<exists>v0 d. v = Some v0 \<and> held (nd_store n') g = Some (d, v0)"
  using assms by (auto simp: current_def take_wrapper_def)

lemma take_ticks: "take_wrapper ce g initial n = ((w, v), n') \<Longrightarrow> nd_ticks n \<le> nd_ticks n' \<and> nd_store n' = nd_store n"
  by (auto simp: take_wrapper_def read_clock_def split: option.splits)

end

text \<open>A loop returns when it cannot go on from a current cache once enough ticks have passed.\<close>

lemma run_turns_return:
  assumes step: "\<And>n n'. f n = (Continue, n') \<Longrightarrow> Q n' \<and> nd_ticks n < nd_ticks n'"
    and stop: "\<And>n n'. Q n \<Longrightarrow> T \<le> nd_ticks n \<Longrightarrow> f n \<noteq> (Continue, n')"
  shows "\<exists>r n'. run_turns f n = Some (r, n')"
proof -
  have main: "\<exists>r n'. run_turns f n = Some (r, n')" if "Q n" for n
    using that
  proof (induction "T - nd_ticks n" arbitrary: n rule: less_induct)
    case less
    obtain t n1 where f: "f n = (t, n1)" by (cases "f n")
    show ?case
    proof (cases t)
      case (Return r)
      then show ?thesis using f by (subst run_turns.simps) simp
    next
      case Continue
      with f step [of n n1] have "Q n1" "nd_ticks n < nd_ticks n1" by auto
      moreover have "nd_ticks n < T" using stop [OF less.prems] f Continue by (meson not_le)
      ultimately have "\<exists>r n'. run_turns f n1 = Some (r, n')"
        by (intro less.hyps) auto
      then show ?thesis using f Continue by (subst run_turns.simps) simp
    qed
  qed
  obtain t n1 where f: "f n = (t, n1)" by (cases "f n")
  show ?thesis
  proof (cases t)
    case (Return r)
    then show ?thesis using f by (subst run_turns.simps) simp
  next
    case Continue
    with f step have "Q n1" by blast
    then have "\<exists>r n'. run_turns f n1 = Some (r, n')" by (rule main)
    then show ?thesis using f Continue by (subst run_turns.simps) simp
  qed
qed

context coordinator_store
begin

lemma write_back_continue:
  "write_back st g w v b n = (Continue, n') \<Longrightarrow> current g n' \<and> nd_ticks n' = nd_ticks n"
  unfolding write_back_def Let_def by (auto split: prod.splits sum.splits dest: update_again)

lemma write_back_current:
  "write_back st g w (Some v) b n = (Continue, n') \<Longrightarrow> \<forall>d. held (nd_store n) g \<noteq> Some (d, v)"
  unfolding write_back_def Let_def by (auto split: prod.splits sum.splits dest: update_not_outdated)

lemma write_back_wait_continue:
  assumes "write_back_wait st ce g started w v decide n = (Continue, n')"
  shows "current g n' \<and> nd_ticks n \<le> nd_ticks n'"
proof -
  obtain r n1 where u: "update_stored st g w v n = (r, n1)" by (cases "update_stored st g w v n")
  show ?thesis
  proof (cases r)
    case (Inl err)
    then have "update_refused g err n1 = (Continue, n')"
      using assms u by (simp add: write_back_wait_def)
    then show ?thesis using update_again u Inl by force
  next
    case (Inr v')
    then have n': "n' = put_wrapper g w v' (snd (read_clock ce n1))"
      using assms u by (auto simp: write_back_wait_def Let_def split: prod.splits if_splits)
    then show ?thesis
      using update_current [of g w v n v' n1] u Inr
      by (simp add: current_def put_wrapper_def read_clock_def)
  qed
qed

lemma write_back_wait_current:
  assumes "write_back_wait st ce g started w (Some v) decide n = (Continue, n')"
    and "held (nd_store n) g = Some (d, v)"
  shows "decide (ce_now ce (nd_ticks n) - started) = Continue"
proof -
  obtain r n1 where u: "update_stored st g w (Some v) n = (r, n1)" by (cases "update_stored st g w (Some v) n")
  show ?thesis
  proof (cases r)
    case (Inl err)
    from update_not_outdated [OF assms(2) u [unfolded Inl]] obtain r' where "update_refused g err n1 = (Return r', n1)"
      by blast
    then show ?thesis using assms(1) u Inl by (simp add: write_back_wait_def)
  next
    case (Inr v')
    have "nd_ticks n1 = nd_ticks n"
      using update_current [OF u [unfolded Inr]] by simp
    then show ?thesis
      using assms(1) u Inr by (auto simp: write_back_wait_def read_clock_def Let_def split: if_splits)
  qed
qed

lemma heartbeat_returns: "\<exists>r n'. ctl_heartbeat st ce g gen mid inst n = Some (r, n')"
  unfolding ctl_heartbeat_def
proof (rule run_turns_return [where Q = "current g" and T = 0])
  show "heartbeat_turn st ce g gen mid inst n = (Continue, n') \<Longrightarrow> current g n' \<and> nd_ticks n < nd_ticks n'" for n n'
    unfolding heartbeat_turn_def Let_def
    by (auto simp: read_clock_def split: prod.splits dest!: write_back_continue take_ticks)
  show "current g n \<Longrightarrow> heartbeat_turn st ce g gen mid inst n \<noteq> (Continue, n')" for n n'
    unfolding heartbeat_turn_def Let_def
    by (auto simp: read_clock_def split: prod.splits dest!: take_current write_back_current)
qed

lemma leave_returns: "\<exists>r n'. ctl_leave st ce g mid ids n = Some (r, n')"
  unfolding ctl_leave_def
proof (rule run_turns_return [where Q = "current g" and T = 0])
  show "leave_turn st ce g mid ids n = (Continue, n') \<Longrightarrow> current g n' \<and> nd_ticks n < nd_ticks n'" for n n'
    unfolding leave_turn_def Let_def
    by (auto simp: read_clock_def split: prod.splits dest!: write_back_continue take_ticks)
  show "current g n \<Longrightarrow> leave_turn st ce g mid ids n \<noteq> (Continue, n')" for n n'
    unfolding leave_turn_def Let_def
    by (auto simp: read_clock_def split: prod.splits dest!: take_current write_back_current)
qed

lemma offset_commit_keeps:
  assumes "w_offset_commit st now d w s = ((w', b), s')"
  shows "held s' = held s \<and> future s' \<subseteq> future s"
proof -
  have "held s2 = held s \<and> future s2 \<subseteq> future s" if c: "commit_offsets st d s = (r, s2)" for r s2
  proof -
    consider "s2 = s" | offsets r' where "st_offset_commit st (cd_group_id d) (cd_retention_time_ms d) offsets s = (r', s2)"
      using c by (auto simp: commit_offsets_def and_then_def split: if_splits option.splits sum.splits prod.splits)
    then show ?thesis using commits by cases blast+
  qed
  then show ?thesis
    using assms by (auto simp: w_offset_commit_def split: prod.splits option.splits sum.splits)
qed

lemma offset_commit_returns: "\<exists>r n'. ctl_offset_commit st ce d n = Some (r, n')"
  unfolding ctl_offset_commit_def
proof (rule run_turns_return [where Q = "current (cd_group_id d)" and T = 0])
  show "offset_commit_turn st ce d n = (Continue, n') \<Longrightarrow> current (cd_group_id d) n' \<and> nd_ticks n < nd_ticks n'" for n n'
    unfolding offset_commit_turn_def Let_def
    by (auto simp: read_clock_def split: prod.splits dest!: write_back_continue take_ticks)
  show "current (cd_group_id d) n \<Longrightarrow> offset_commit_turn st ce d n \<noteq> (Continue, n')" for n n'
    unfolding offset_commit_turn_def Let_def
    by (auto simp: read_clock_def split: prod.splits dest!: take_current write_back_current offset_commit_keeps)
qed

text \<open>A loop that waits returns once the clock has passed everything it may wait for.\<close>

lemma join_returns:
  assumes "\<And>t. \<exists>k. \<forall>j \<ge> k. t \<le> ce_now ce j"
  shows "\<exists>r n'. ctl_join st ce g q n = Some (r, n')"
proof -
  define started where "started = ce_now ce (nd_ticks n)"
  obtain T where T: "\<And>j. T \<le> j \<Longrightarrow> started + 2 ^ 128 \<le> ce_now ce j"
    using assms by blast
  have late: "\<not> ce_now ce j - started < PAUSE_MS" "\<not> ce_now ce j - started < as_u128 x div 2" if "T \<le> j" for j x
  proof -
    have "as_u128 x < 2 ^ 128" "0 \<le> as_u128 x" by (simp_all add: as_u128_def)
    then have "as_u128 x div 2 \<le> 2 ^ 128" by linarith
    then show "\<not> ce_now ce j - started < as_u128 x div 2" "\<not> ce_now ce j - started < PAUSE_MS"
      using T [OF that] by (simp_all add: PAUSE_MS_def)
  qed
  have "\<exists>r n'. run_turns (join_turn st ce g q started) m = Some (r, n')" for m
  proof (rule run_turns_return [where Q = "current g" and T = T])
    show "join_turn st ce g q started n = (Continue, n') \<Longrightarrow> current g n' \<and> nd_ticks n < nd_ticks n'" for n n'
      unfolding join_turn_def Let_def
      by (auto simp: read_clock_def split: prod.splits sum.splits dest!: write_back_wait_continue take_ticks)
    show "join_turn st ce g q started n \<noteq> (Continue, n')" if "current g n" "T \<le> nd_ticks n" for n n'
    proof
      assume "join_turn st ce g q started n = (Continue, n')"
      then obtain w v n1 w' b where take: "take_wrapper ce g (join_default q) (n\<lparr>nd_ticks := Suc (nd_ticks n)\<rparr>) = ((w, v), n1)"
        and wb: "write_back_wait st ce g started w' v
               (\<lambda>elapsed.
                  if jq_group_instance_id q \<noteq> None \<and> elapsed < PAUSE_MS then Continue
                  else if is_member_id_required b then Return (Inr b)
                  else if elapsed < as_u128 (w_session_timeout_ms w') div 2 then Continue
                  else Return (Inr b)) n1 = (Continue, n')"
        unfolding join_turn_def Let_def by (auto simp: read_clock_def split: prod.splits sum.splits)
      have cur: "current g (n\<lparr>nd_ticks := Suc (nd_ticks n)\<rparr>)" using that(1) by (simp add: current_def)
      from take_current [OF cur take] obtain v0 d where "v = Some v0" "held (nd_store n1) g = Some (d, v0)" by blast
      moreover have "T \<le> nd_ticks n1" using take_ticks [OF take] that(2) by simp
      ultimately show False
        using write_back_wait_current [OF wb [unfolded \<open>v = Some v0\<close>]] late [of "nd_ticks n1"]
        by (auto split: if_splits)
    qed
  qed
  then show ?thesis by (simp add: ctl_join_def read_clock_def started_def)
qed

lemma sync_returns:
  assumes "\<And>t. \<exists>k. \<forall>j \<ge> k. t \<le> ce_now ce j"
  shows "\<exists>r n'. ctl_sync st ce g gen mid inst as n = Some (r, n')"
proof -
  define started where "started = ce_now ce (nd_ticks n)"
  obtain T where T: "\<And>j. T \<le> j \<Longrightarrow> started + 2 ^ 128 \<le> ce_now ce j"
    using assms by blast
  have late: "\<not> ce_now ce j - started < PAUSE_MS" "\<not> ce_now ce j - started < (as_u128 x * 8) mod 2 ^ 128 div 10" if "T \<le> j" for j x
  proof -
    have "(as_u128 x * 8) mod 2 ^ 128 < 2 ^ 128" "0 \<le> (as_u128 x * 8) mod 2 ^ 128" by simp_all
    then have "(as_u128 x * 8) mod 2 ^ 128 div 10 \<le> 2 ^ 128" by linarith
    then show "\<not> ce_now ce j - started < (as_u128 x * 8) mod 2 ^ 128 div 10" "\<not> ce_now ce j - started < PAUSE_MS"
      using T [OF that] by (simp_all add: PAUSE_MS_def)
  qed
  have "\<exists>r n'. run_turns (sync_turn st ce g gen mid inst as started) m = Some (r, n')" for m
  proof (rule run_turns_return [where Q = "current g" and T = T])
    show "sync_turn st ce g gen mid inst as started n = (Continue, n') \<Longrightarrow> current g n' \<and> nd_ticks n < nd_ticks n'" for n n'
      unfolding sync_turn_def Let_def
      by (auto simp: read_clock_def split: prod.splits sum.splits dest!: write_back_wait_continue take_ticks)
    show "sync_turn st ce g gen mid inst as started n \<noteq> (Continue, n')" if "current g n" "T \<le> nd_ticks n" for n n'
    proof
      assume "sync_turn st ce g gen mid inst as started n = (Continue, n')"
      then obtain w v n1 w' b where take: "take_wrapper ce g inner_new (n\<lparr>nd_ticks := Suc (nd_ticks n)\<rparr>) = ((w, v), n1)"
        and wb: "write_back_wait st ce g started w' v
               (\<lambda>elapsed.
                  if inst \<noteq> None \<and> elapsed < PAUSE_MS then Continue
                  else if is_assigned w' b then Return (Inr b)
                  else if elapsed < (as_u128 (w_session_timeout_ms w') * 8) mod 2 ^ 128 div 10 then Continue
                  else Return (set_error_code b RebalanceInProgress)) n1 = (Continue, n')"
        unfolding sync_turn_def Let_def by (auto simp: read_clock_def split: prod.splits sum.splits)
      have cur: "current g (n\<lparr>nd_ticks := Suc (nd_ticks n)\<rparr>)" using that(1) by (simp add: current_def)
      from take_current [OF cur take] obtain v0 d where "v = Some v0" "held (nd_store n1) g = Some (d, v0)" by blast
      moreover have "T \<le> nd_ticks n1" using take_ticks [OF take] that(2) by simp
      ultimately show False
        using write_back_wait_current [OF wb [unfolded \<open>v = Some v0\<close>]] late [of "nd_ticks n1"]
        by (auto split: if_splits)
    qed
  qed
  then show ?thesis by (simp add: ctl_sync_def read_clock_def started_def)
qed

end

section \<open>The nvme engine keeps the contract\<close>

definition version_at :: "env \<Rightarrow> nat \<Rightarrow> version" where
  "version_at env t = version_from_uuid env (env_uuid env t)"

lemma wal_append_groups:
  "wal_append env r e = (x, e') \<Longrightarrow> eng_groups e' = eng_groups e \<and> eng_ticks e' = Suc (eng_ticks e)"
  by (auto simp: wal_append_def log_record_def tick_def split: io_outcome.splits)

lemma swap_group_cases:
  assumes "swap_group g d v fresh e = (r, e')"
  obtains "r = Inr fresh" "e' = e\<lparr>eng_groups := fmupd g (d, fresh) (eng_groups e)\<rparr>"
      "map_option snd (fmlookup (eng_groups e) g) = v"
  | d0 v0 where "r = Inl (Outdated d0 v0)" "e' = e" "fmlookup (eng_groups e) g = Some (d0, v0)" "v \<noteq> Some v0"
  | err where "r = Inl (UpdateError err)" "e' = e"
  using assms by (auto simp: swap_group_def split: option.splits prod.splits if_splits)

lemma update_group_cases:
  assumes "update_group env g d v e = (r, e')"
  obtains (swapped) "r = Inr (version_at env (eng_ticks e)) \<or> (\<exists>err. r = Inl (UpdateError err))"
      "eng_groups e' = fmupd g (d, version_at env (eng_ticks e)) (eng_groups e)" "eng_ticks e' = Suc (eng_ticks e)"
      "map_option snd (fmlookup (eng_groups e) g) = v"
  | (outdated) d0 v0 where "r = Inl (Outdated d0 v0)" "e' = e" "fmlookup (eng_groups e) g = Some (d0, v0)" "v \<noteq> Some v0"
  | (failed) err where "r = Inl (UpdateError err)" "e' = e"
proof -
  obtain r1 e1 where sw: "swap_group g d v (version_at env (eng_ticks e)) e = (r1, e1)"
    by (cases "swap_group g d v (version_at env (eng_ticks e)) e")
  from sw show ?thesis
  proof (cases rule: swap_group_cases)
    case 1
    obtain x e2 where w: "wal_append env (GroupUpdate g d (version_at env (eng_ticks e))) e1 = (x, e2)"
      by (cases "wal_append env (GroupUpdate g d (version_at env (eng_ticks e))) e1")
    have re: "(r, e') = (case x of Inl err \<Rightarrow> Inl (UpdateError err) | Inr _ \<Rightarrow> Inr (version_at env (eng_ticks e)), e2)"
      using assms sw 1(1) w by (auto simp: update_group_def version_at_def split: sum.splits)
    show ?thesis
      by (rule swapped) (use re wal_append_groups [OF w] 1 in \<open>auto split: sum.splits\<close>)
  next
    case (2 d0 v0)
    then show ?thesis using assms sw by (auto simp: update_group_def version_at_def intro: outdated)
  next
    case (3 err)
    then show ?thesis using assms sw by (auto simp: update_group_def version_at_def intro: failed)
  qed
qed

abbreviation nvme_held :: "engine \<Rightarrow> string \<Rightarrow> (group_detail \<times> version) option" where
  "nvme_held e \<equiv> fmlookup (eng_groups e)"

text \<open>The versions the engine will issue before tick \<open>N\<close>, and whether they are all different.\<close>

abbreviation nvme_future :: "env \<Rightarrow> nat \<Rightarrow> engine \<Rightarrow> version set" where
  "nvme_future env N e \<equiv> version_at env ` {eng_ticks e..<N}"

abbreviation nvme_fresh :: "env \<Rightarrow> nat \<Rightarrow> engine \<Rightarrow> bool" where
  "nvme_fresh env N e \<equiv> inj_on (version_at env) {..<N} \<and> eng_ticks e < N"

lemma nvme_swap:
  assumes "eng_groups e' = fmupd g (d, version_at env (eng_ticks e)) (eng_groups e)" "eng_ticks e' = Suc (eng_ticks e)"
    "map_option snd (fmlookup (eng_groups e) g) = v"
  shows "cas_swap nvme_held (nvme_future env N) (nvme_fresh env N) g d v (version_at env (eng_ticks e)) e e'"
proof -
  have "version_at env (eng_ticks e) \<notin> nvme_future env N e'" if "nvme_fresh env N e"
    using that assms(2) by (auto dest: inj_onD)
  moreover have "nvme_future env N e' \<subseteq> nvme_future env N e"
    using assms(2) by (intro image_mono) auto
  ultimately show ?thesis
    using assms by (simp add: cas_swap_def fun_eq_iff)
qed

lemma offset_commit_groups:
  assumes "offset_commit env g offsets e = (r, e')"
  shows "eng_groups e' = eng_groups e \<and> eng_ticks e \<le> eng_ticks e'"
  using assms
  by (auto simp: offset_commit_def Let_def and_then_def split: if_splits prod.splits sum.splits dest!: wal_append_groups)

interpretation nvme: coordinator_store "nvme_storage env" nvme_held "nvme_future env N" "nvme_fresh env N"
  for env N
proof
  fix g d v s v' s'
  assume "st_update_group (nvme_storage env) g d v s = (Inr v', s')"
  then have "update_group env g d v s = (Inr v', s')" by (simp add: nvme_storage_def)
  then show "cas_swap nvme_held (nvme_future env N) (nvme_fresh env N) g d v v' s s'"
    by (cases rule: update_group_cases) (auto intro: nvme_swap)
next
  fix g d v s d0 v0 s'
  assume "st_update_group (nvme_storage env) g d v s = (Inl (Outdated d0 v0), s')"
  then have "update_group env g d v s = (Inl (Outdated d0 v0), s')" by (simp add: nvme_storage_def)
  then show "s' = s \<and> nvme_held s g = Some (d0, v0) \<and> v \<noteq> Some v0"
    by (cases rule: update_group_cases) auto
next
  fix g d v s err s'
  assume "st_update_group (nvme_storage env) g d v s = (Inl err, s')"
  then have "update_group env g d v s = (Inl err, s')" by (simp add: nvme_storage_def)
  then show "nvme_held s' = nvme_held s \<and> nvme_future env N s' \<subseteq> nvme_future env N s \<or>
      (\<exists>v'. cas_swap nvme_held (nvme_future env N) (nvme_fresh env N) g d v v' s s')"
  proof (cases rule: update_group_cases)
    case swapped
    then show ?thesis by (blast intro: nvme_swap)
  qed auto
next
  fix g retention offsets s r s'
  assume "st_offset_commit (nvme_storage env) g retention offsets s = (r, s')"
  then have "eng_groups s' = eng_groups s" "eng_ticks s \<le> eng_ticks s'"
    using offset_commit_groups by (auto simp: nvme_storage_def)
  then show "nvme_held s' = nvme_held s \<and> nvme_future env N s' \<subseteq> nvme_future env N s"
    by (auto intro!: image_mono)
qed


section \<open>Answers to sync\<close>

text \<open>A loop that returns does so in a last turn, which starts in a state that every turn maintains.\<close>

lemma run_turns_last:
  assumes "run_turns f n = Some (r, n')" and "I n"
    and "\<And>m m'. I m \<Longrightarrow> f m = (Continue, m') \<Longrightarrow> I m'"
  shows "\<exists>m. I m \<and> f m = (Return r, n')"
proof -
  have "g = f \<longrightarrow> I n \<longrightarrow> (\<exists>m. I m \<and> f m = (Return (fst y), snd y))" if "run_turns g n = Some y" for g n y
    using that
  proof (rule run_turns.raw_induct [rotated])
    fix run h m y
    assume IH: "\<And>g m y. run g m = Some y \<Longrightarrow> g = f \<longrightarrow> I m \<longrightarrow> (\<exists>m. I m \<and> f m = (Return (fst y), snd y))"
      and y: "(case h m of (Return r, n') \<Rightarrow> Some (r, n') | (Continue, n') \<Rightarrow> run h n') = Some y"
    show "h = f \<longrightarrow> I m \<longrightarrow> (\<exists>m. I m \<and> f m = (Return (fst y), snd y))"
    proof (intro impI)
      assume h: "h = f" and m: "I m"
      obtain t m' where t: "f m = (t, m')" by (cases "f m")
      show "\<exists>m. I m \<and> f m = (Return (fst y), snd y)"
      proof (cases t)
        case (Return x)
        with y t h have "y = (x, m')" by simp
        with m t Return show ?thesis by auto
      next
        case Continue
        with y t h have "run f m' = Some y" by simp
        from IH [OF this] assms(3) [OF m] t Continue show ?thesis by blast
      qed
    qed
  qed
  from this [OF assms(1)] assms(2) show ?thesis by simp
qed

lemma w_sync_body: "w_sync gen mid as w = Inr (w', b) \<Longrightarrow> \<exists>r. b = SyncGroupResponse r"
  by (auto simp: w_sync_def forming_sync_def formed_sync_def Let_def split: wrapper.splits option.splits if_splits)

lemma sync_turn_answer:
  assumes "sync_turn st ce g gen mid inst as started n = (Return (Inr b), n')"
  shows "\<exists>r. b = SyncGroupResponse r \<and>
    (sr_error_code r = NoError \<and> sr_assignment r \<noteq> [] \<or> sr_error_code r = RebalanceInProgress)"
proof -
  obtain w v n1 w1 b1 where sync: "w_sync gen mid as w = Inr (w1, b1)"
    and wb: "write_back_wait st ce g started w1 v
      (\<lambda>elapsed. if inst \<noteq> None \<and> elapsed < PAUSE_MS then Continue
         else if is_assigned w1 b1 then Return (Inr b1)
         else if elapsed < (as_u128 (w_session_timeout_ms w1) * 8) mod 2 ^ 128 div 10 then Continue
         else Return (set_error_code b1 RebalanceInProgress)) n1 = (Return (Inr b), n')"
    using assms unfolding sync_turn_def Let_def by (auto split: prod.splits sum.splits)
  from w_sync_body [OF sync] obtain r1 where b1: "b1 = SyncGroupResponse r1" by blast
  from wb have "is_assigned w1 b1 \<and> b = b1 \<or> set_error_code b1 RebalanceInProgress = Inr b"
    unfolding write_back_wait_def Let_def
    by (auto simp: update_refused_def split: prod.splits sum.splits if_splits update_error.splits)
  then show ?thesis by (auto simp: b1 is_assigned_def set_error_code_def)
qed

text \<open>C34: What a sync is answered with.  Whatever the storage does, a sync that is answered carries either no error and a
  non-empty assignment, or \<open>RebalanceInProgress\<close>: the errors of the state machine for an unknown member and for
  an illegal generation never reach the client.\<close>

theorem sync_answers:
  assumes "ctl_sync st ce g gen mid inst as n = Some (Inr b, n')"
  shows "\<exists>r. b = SyncGroupResponse r \<and>
    (sr_error_code r = NoError \<and> sr_assignment r \<noteq> [] \<or> sr_error_code r = RebalanceInProgress)"
proof -
  obtain started m where "run_turns (sync_turn st ce g gen mid inst as started) m = Some (Inr b, n')"
    using assms by (auto simp: ctl_sync_def split: prod.splits)
  from run_turns_last [OF this, of "\<lambda>_. True"] obtain m'
    where "sync_turn st ce g gen mid inst as started m' = (Return (Inr b), n')" by blast
  then show ?thesis by (rule sync_turn_answer)
qed

section \<open>Brokers that share a store\<close>

text \<open>
  Any number of brokers with their caches, and the requests in flight.  A request takes the group out of its
  broker's cache (or starts from an empty one), works on it, and writes it back; between these steps anything else
  may happen.  A request may be abandoned, a broker may lose its cache, and the store may do other work that leaves
  the groups alone.  A flight is the broker, the group id, the group as taken, the expected version and the group
  as it is now.
\<close>

record 's system =
  sy_store :: 's
  sy_caches :: "(nat \<times> string, wrapper \<times> version option) fmap"
  sy_flights :: "(nat, nat \<times> string \<times> wrapper \<times> version option \<times> wrapper) fmap"

definition write_result :: "nat \<Rightarrow> string \<Rightarrow> wrapper \<Rightarrow> update_error + version \<Rightarrow>
    (nat \<times> string, wrapper \<times> version option) fmap \<Rightarrow> (nat \<times> string, wrapper \<times> version option) fmap" where
  "write_result b g w r cs =
     (case r of
        Inr v \<Rightarrow> fmupd (b, g) (w, Some v) cs
      | Inl (Outdated d v) \<Rightarrow> fmupd (b, g) (with_storage_group_detail d, Some v) cs
      | Inl _ \<Rightarrow> cs)"

inductive sys_step ::
    "'s storage \<Rightarrow> ('s \<Rightarrow> string \<Rightarrow> (group_detail \<times> version) option) \<Rightarrow> ('s \<Rightarrow> version set) \<Rightarrow> bool \<Rightarrow> 's system \<Rightarrow> 's system \<Rightarrow> bool"
  for st held future static where
  take: "fmlookup (sy_caches y) (b, g) = Some (w, v) \<Longrightarrow> fmlookup (sy_flights y) t = None \<Longrightarrow>
    sys_step st held future static y (y\<lparr>sy_caches := fmdrop (b, g) (sy_caches y),
      sy_flights := fmupd t (b, g, w, v, w) (sy_flights y)\<rparr>)"
| start: "fmlookup (sy_flights y) t = None \<Longrightarrow> group_ok (Wrapper_Forming i) \<Longrightarrow> in_members i = fmempty \<Longrightarrow>
    sys_step st held future static y (y\<lparr>sy_flights := fmupd t (b, g, Wrapper_Forming i, None, Wrapper_Forming i) (sy_flights y)\<rparr>)"
| work: "fmlookup (sy_flights y) t = Some (b, g, w0, v, w) \<Longrightarrow> group_step static w w' \<Longrightarrow>
    sys_step st held future static y (y\<lparr>sy_flights := fmupd t (b, g, w0, v, w') (sy_flights y)\<rparr>)"
| store_back: "fmlookup (sy_flights y) t = Some (b, g, w0, v, w) \<Longrightarrow>
    st_update_group st g (group_detail_of w) v (sy_store y) = (r, s) \<Longrightarrow>
    sys_step st held future static y (y\<lparr>sy_store := s, sy_caches := write_result b g w r (sy_caches y),
      sy_flights := fmdrop t (sy_flights y)\<rparr>)"
| abandon: "sys_step st held future static y (y\<lparr>sy_flights := fmdrop t (sy_flights y)\<rparr>)"
| forget: "sys_step st held future static y (y\<lparr>sy_caches := fmfilter P (sy_caches y)\<rparr>)"
| other: "held s = held (sy_store y) \<Longrightarrow> future s \<subseteq> future (sy_store y) \<Longrightarrow>
    sys_step st held future static y (y\<lparr>sy_store := s\<rparr>)"

text \<open>A group as a broker holds it, and as it is stored.\<close>

definition represents :: "wrapper \<Rightarrow> group_detail \<Rightarrow> bool" where
  "represents w d \<longleftrightarrow> d = group_detail_of w \<or> w = with_storage_group_detail d"

fun assigned_of :: "group_detail \<Rightarrow> (string, bytes) fmap option" where
  "assigned_of d = (case group_status d of Forming _ _ _ \<Rightarrow> None | Formed _ _ _ a \<Rightarrow> Some a)"

declare assigned_of.simps [simp del]

lemma represents_view:
  "represents w d \<Longrightarrow> w_generation_id w = generation_id d \<and> w_assignments w = assigned_of d"
  by (cases w) (auto simp: represents_def group_detail_of_def with_storage_group_detail_def Let_def assigned_of.simps
      split: group_state.splits)

lemma represents_self [simp]: "represents w (group_detail_of w)"
  by (simp add: represents_def)

lemma represents_reload [simp]: "represents (with_storage_group_detail d) d"
  by (simp add: represents_def)

text \<open>The stored group has moved on: a later generation, or the same one with the same assignments.\<close>

definition moved_on :: "group_detail \<Rightarrow> group_detail \<Rightarrow> bool" where
  "moved_on d d' \<longleftrightarrow> generation_id d < generation_id d' \<or>
     generation_id d = generation_id d' \<and> (\<forall>a. assigned_of d = Some a \<longrightarrow> assigned_of d' = Some a)"

lemma moved_on_refl: "moved_on d d"
  by (simp add: moved_on_def)

lemma moved_on_trans: "moved_on d d' \<Longrightarrow> moved_on d' d'' \<Longrightarrow> moved_on d d''"
  by (auto simp: moved_on_def)

lemma advances_moved_on: "represents w d \<Longrightarrow> advances w w' \<Longrightarrow> moved_on d (group_detail_of w')"
  using represents_view [of w d] represents_view [of w' "group_detail_of w'"]
  by (auto simp: advances_def moved_on_def)

definition no_overflow :: "'s system \<Rightarrow> bool" where
  "no_overflow y \<longleftrightarrow> (\<forall>t b g w0 v w. fmlookup (sy_flights y) t = Some (b, g, w0, v, w) \<longrightarrow>
     fits_signed 32 (w_generation_id w + 1))"

context coordinator_store
begin

definition view_ok :: "'s \<Rightarrow> string \<Rightarrow> wrapper \<Rightarrow> version \<Rightarrow> bool" where
  "view_ok s g w v \<longleftrightarrow> v \<notin> future s \<and> (\<forall>d. held s g = Some (d, v) \<longrightarrow> represents w d)"

definition sys_ok :: "'s system \<Rightarrow> bool" where
  "sys_ok y \<longleftrightarrow>
     (\<forall>b g w v. fmlookup (sy_caches y) (b, g) = Some (w, v) \<longrightarrow> (\<exists>v'. v = Some v' \<and> view_ok (sy_store y) g w v')) \<and>
     (\<forall>t b g w0 v w. fmlookup (sy_flights y) t = Some (b, g, w0, v, w) \<longrightarrow>
        advances w0 w \<and> (\<forall>v'. v = Some v' \<longrightarrow> view_ok (sy_store y) g w0 v')) \<and>
     (\<forall>g d v. held (sy_store y) g = Some (d, v) \<longrightarrow> v \<notin> future (sy_store y))"

lemma sys_okD:
  assumes "sys_ok y"
  shows "fmlookup (sy_caches y) (b, g) = Some (w, v) \<Longrightarrow> \<exists>v'. v = Some v' \<and> view_ok (sy_store y) g w v'"
    and "fmlookup (sy_flights y) t = Some (b, g, w0, v, w) \<Longrightarrow> advances w0 w"
    and "fmlookup (sy_flights y) t = Some (b, g, w0, Some v', w) \<Longrightarrow> view_ok (sy_store y) g w0 v'"
    and "held (sy_store y) g = Some (d, v'') \<Longrightarrow> v'' \<notin> future (sy_store y)"
  using assms unfolding sys_ok_def by simp_all

lemma sys_okI:
  assumes "\<And>b g w v. fmlookup (sy_caches y) (b, g) = Some (w, v) \<Longrightarrow> \<exists>v'. v = Some v' \<and> view_ok (sy_store y) g w v'"
    and "\<And>t b g w0 v w. fmlookup (sy_flights y) t = Some (b, g, w0, v, w) \<Longrightarrow> advances w0 w"
    and "\<And>t b g w0 v w. fmlookup (sy_flights y) t = Some (b, g, w0, Some v, w) \<Longrightarrow> view_ok (sy_store y) g w0 v"
    and "\<And>g d v. held (sy_store y) g = Some (d, v) \<Longrightarrow> v \<notin> future (sy_store y)"
  shows "sys_ok y"
  unfolding sys_ok_def
proof (intro conjI allI impI, goal_cases)
  case (3 t b g w0 v w v')
  then show ?case by (simp add: assms(3))
qed (erule assms)+

text \<open>What the store may do to the groups in one step.\<close>

definition store_step :: "'s \<Rightarrow> 's \<Rightarrow> bool" where
  "store_step s s' \<longleftrightarrow> held s' = held s \<and> future s' \<subseteq> future s \<or>
     (\<exists>g d v v'. cas_swap held future fresh g d v v' s s')"

lemma view_ok_step:
  assumes "fresh s" and "store_step s s'" and "view_ok s g w v"
  shows "view_ok s' g w v"
  using assms unfolding view_ok_def store_step_def cas_swap_def by (auto split: if_splits)

lemma issued_step:
  assumes "fresh s" and "store_step s s'" and "\<And>g d v. held s g = Some (d, v) \<Longrightarrow> v \<notin> future s"
    and "held s' g = Some (d, v)"
  shows "v \<notin> future s'"
  using assms unfolding store_step_def cas_swap_def by (auto split: if_splits)

lemma sys_ok_store:
  assumes "fresh (sy_store y)" and "sys_ok y" and "store_step (sy_store y) s"
    and "\<And>b g w v. fmlookup cs (b, g) = Some (w, v) \<Longrightarrow>
      fmlookup (sy_caches y) (b, g) = Some (w, v) \<or> (\<exists>v'. v = Some v' \<and> view_ok s g w v')"
    and "\<And>t f. fmlookup fs t = Some f \<Longrightarrow> fmlookup (sy_flights y) t = Some f"
  shows "sys_ok (y\<lparr>sy_store := s, sy_caches := cs, sy_flights := fs\<rparr>)"
proof (rule sys_okI, goal_cases)
  case (1 b g w v)
  then have "fmlookup (sy_caches y) (b, g) = Some (w, v) \<or> (\<exists>v'. v = Some v' \<and> view_ok s g w v')"
    by (intro assms(4)) simp
  then show ?case
  proof
    assume "fmlookup (sy_caches y) (b, g) = Some (w, v)"
    from sys_okD(1) [OF assms(2) this] obtain v' where "v = Some v'" "view_ok (sy_store y) g w v'" by blast
    then show ?thesis using view_ok_step [OF assms(1,3)] by simp
  qed simp
next
  case (2 t b g w0 v w)
  then have "fmlookup (sy_flights y) t = Some (b, g, w0, v, w)" using assms(5) by simp
  then show ?case by (rule sys_okD(2) [OF assms(2)])
next
  case (3 t b g w0 v w)
  then have "fmlookup (sy_flights y) t = Some (b, g, w0, Some v, w)" using assms(5) by simp
  then have "view_ok (sy_store y) g w0 v" by (rule sys_okD(3) [OF assms(2)])
  then show ?case using view_ok_step [OF assms(1,3)] by simp
next
  case (4 g d v)
  then show ?case using issued_step [OF assms(1,3)] sys_okD(4) [OF assms(2)] by simp
qed

lemma update_store_step:
  assumes "st_update_group st g d v s = (r, s')"
  shows "store_step s s'"
proof (cases r)
  case (Inl err)
  from failed [OF assms [unfolded Inl]] show ?thesis unfolding store_step_def by blast
next
  case (Inr v')
  from updated [OF assms [unfolded Inr]] show ?thesis unfolding store_step_def by blast
qed

lemma write_result_ok:
  assumes "fresh s" and "st_update_group st g (group_detail_of w) v s = (r, s')"
    and "\<And>g d v. held s g = Some (d, v) \<Longrightarrow> v \<notin> future s"
    and "fmlookup (write_result b g w r cs) (b', g') = Some (w', v')"
  shows "fmlookup cs (b', g') = Some (w', v') \<or> (\<exists>v''. v' = Some v'' \<and> view_ok s' g' w' v'')"
proof (cases "fmlookup cs (b', g') = Some (w', v')")
  case False
  show ?thesis
  proof (cases r)
    case (Inr v0)
    then have new: "g' = g" "w' = w" "v' = Some v0"
      using assms(4) False by (simp_all add: write_result_def split: if_splits)
    from updated [OF assms(2) [unfolded Inr]] assms(1) have "view_ok s' g w v0"
      unfolding view_ok_def cas_swap_def by simp
    then show ?thesis using new by simp
  next
    case (Inl err)
    then obtain d0 v0 where err: "err = Outdated d0 v0"
      using assms(4) False by (cases err) (simp_all add: write_result_def)
    then have new: "g' = g" "w' = with_storage_group_detail d0" "v' = Some v0"
      using assms(4) False Inl by (simp_all add: write_result_def split: if_splits)
    from outdated [OF assms(2) [unfolded Inl err]] have "s' = s" "held s g = Some (d0, v0)"
      by simp_all
    then have "view_ok s' g (with_storage_group_detail d0) v0"
      using assms(3) [of g d0 v0] unfolding view_ok_def by simp
    then show ?thesis using new by simp
  qed
qed simp

lemma sys_step_ok:
  assumes "fresh (sy_store y)" and "sys_step st held future False y y'" and "no_overflow y" and "sys_ok y"
  shows "sys_ok y'"
  using assms(2,1,3,4)
proof (induction rule: sys_step.induct)
  case (take y b g w v t)
  obtain v' where "v = Some v'" "view_ok (sy_store y) g w v'"
    using sys_okD(1) [OF take(5) take(1)] by blast
  with take show ?case
    by (intro sys_okI) (auto split: if_splits intro: advances_refl sys_okD(1-3) [OF take(5)] dest: sys_okD(4) [OF take(5)])
next
  case (start y t i b g)
  then show ?case
    by (intro sys_okI) (auto split: if_splits intro: advances_refl sys_okD(1-3) [OF start(6)] dest: sys_okD(4) [OF start(6)])
next
  case (work y t b g w0 v w w')
  have "fits_signed 32 (w_generation_id w + 1)"
    using work(1,4) unfolding no_overflow_def by blast
  then have "advances w0 w'"
    using sys_okD(2) [OF work(5) work(1)] group_step_advances [OF work(2)] advances_trans by blast
  with work show ?case
    by (intro sys_okI) (auto split: if_splits intro: sys_okD(1-3) [OF work(5)] dest: sys_okD(4) [OF work(5)])
next
  case (store_back y t b g w0 v w r s)
  show ?case
  proof (rule sys_ok_store [OF store_back(3) store_back(5) update_store_step [OF store_back(2)]])
    fix b' g' w' v'
    assume "fmlookup (write_result b g w r (sy_caches y)) (b', g') = Some (w', v')"
    then show "fmlookup (sy_caches y) (b', g') = Some (w', v') \<or> (\<exists>v''. v' = Some v'' \<and> view_ok s g' w' v'')"
      by (rule write_result_ok [OF store_back(3) store_back(2) sys_okD(4) [OF store_back(5)], rotated])
  qed (simp split: if_splits)
next
  case (abandon y t)
  then show ?case
    by (intro sys_okI) (auto split: if_splits intro: sys_okD(1-3) [OF abandon(3)] dest: sys_okD(4) [OF abandon(3)])
next
  case (forget y P)
  then show ?case
    by (intro sys_okI) (auto split: if_splits intro: sys_okD(1-3) [OF forget(3)] dest: sys_okD(4) [OF forget(3)])
next
  case (other s y)
  have "sys_ok (y\<lparr>sy_store := s, sy_caches := sy_caches y, sy_flights := sy_flights y\<rparr>)"
    by (rule sys_ok_store [OF other(3) other(5)]) (use other in \<open>auto simp: store_step_def\<close>)
  then show ?case by simp
qed

lemma sys_step_moves:
  assumes "sys_step st held future False y y'" and "sys_ok y" and "held (sy_store y) g = Some (d, v)"
  shows "\<exists>d' v'. held (sy_store y') g = Some (d', v') \<and> moved_on d d'"
  using assms
proof (induction rule: sys_step.induct)
  case (store_back y t b g0 w0 v0 w r s)
  have swap: "\<exists>d' v'. held s g = Some (d', v') \<and> moved_on d d'"
    if "cas_swap held future fresh g0 (group_detail_of w) v0 v1 (sy_store y) s" for v1
  proof (cases "g0 = g")
    case True
    with that store_back(4) have "v0 = Some v" "held s g = Some (group_detail_of w, v1)"
      by (auto simp: cas_swap_def)
    moreover have "represents w0 d"
      using sys_okD(3) [OF store_back(3)] store_back(1,4) \<open>v0 = Some v\<close> True by (auto simp: view_ok_def)
    ultimately show ?thesis
      using advances_moved_on sys_okD(2) [OF store_back(3) store_back(1)] by blast
  next
    case False
    with that store_back(4) show ?thesis by (auto simp: cas_swap_def intro: moved_on_refl)
  qed
  show ?case
  proof (cases r)
    case (Inl err)
    then have "held s = held (sy_store y) \<or> (\<exists>v1. cas_swap held future fresh g0 (group_detail_of w) v0 v1 (sy_store y) s)"
      using failed [of g0 "group_detail_of w" v0 "sy_store y" err s] store_back(2) by blast
    then show ?thesis
      using store_back(4) swap by (auto intro: moved_on_refl)
  next
    case (Inr v1)
    then show ?thesis
      using updated [of g0 "group_detail_of w" v0 "sy_store y" v1 s] store_back(2) swap by simp
  qed
qed (auto intro: moved_on_refl)

lemma shared_store:
  assumes "(\<lambda>a b. sys_step st held future False a b \<and> no_overflow a \<and> fresh (sy_store a))\<^sup>*\<^sup>* y y'"
    and "sys_ok y" and "held (sy_store y) g = Some (d, v)"
  shows "\<exists>d' v'. held (sy_store y') g = Some (d', v') \<and> moved_on d d'"
proof -
  have "sys_ok y' \<and> (\<exists>d' v'. held (sy_store y') g = Some (d', v') \<and> moved_on d d')"
    using assms(1)
  proof (induction rule: rtranclp_induct)
    case base
    then show ?case using assms(2,3) by (auto intro: moved_on_refl)
  next
    case (step y1 y2)
    then obtain d1 v1 where "held (sy_store y1) g = Some (d1, v1)" "moved_on d d1" by blast
    then show ?case
      using step sys_step_ok [of y1 y2] sys_step_moves [of y1 y2 g d1 v1] moved_on_trans by blast
  qed
  then show ?thesis by blast
qed

end

text \<open>C6: Brokers that share a store agree on assignments.  Any number of brokers with their own caches serve requests of
  dynamic members on the same groups, interleaved in any way at the storage calls, with abandoned requests, lost
  caches and failing writes.  Over the nvme engine, while the versions it issues are distinct and no generation
  overflows, a stored group stays stored, its generation never decreases, and as long as the generation is the
  same a formed group keeps its assignments: no update is lost to a concurrent one.\<close>

theorem shared_store_one_assignment:
  assumes "inj_on (version_at env) {..<N}"
    and "sy_caches y = fmempty" and "sy_flights y = fmempty"
    and "\<And>g d v. fmlookup (eng_groups (sy_store y)) g = Some (d, v) \<Longrightarrow> v \<notin> nvme_future env N (sy_store y)"
    and "(\<lambda>a b. sys_step (nvme_storage env) nvme_held (nvme_future env N) False a b \<and> no_overflow a \<and>
           eng_ticks (sy_store a) < N)\<^sup>*\<^sup>* y y'"
    and "fmlookup (eng_groups (sy_store y)) g = Some (d, v)"
  shows "\<exists>d' v'. fmlookup (eng_groups (sy_store y')) g = Some (d', v') \<and> generation_id d \<le> generation_id d' \<and>
    (generation_id d = generation_id d' \<longrightarrow> assigned_of d \<noteq> None \<longrightarrow> assigned_of d' = assigned_of d)"
proof -
  have ok: "nvme.sys_ok env N y"
    by (rule nvme.sys_okI) (use assms(2,3,4) in auto)
  have run: "(\<lambda>a b. sys_step (nvme_storage env) nvme_held (nvme_future env N) False a b \<and> no_overflow a \<and>
      nvme_fresh env N (sy_store a))\<^sup>*\<^sup>* y y'"
    using assms(1,5) by simp
  from nvme.shared_store [OF run ok assms(6)] show ?thesis
    by (auto simp: moved_on_def)
qed

section \<open>Committed offsets\<close>

lemma in_by_topic:
  "(name, rs) \<in> set (by_topic f xs) \<longleftrightarrow>
     name \<in> (\<lambda>(tp, _). topic tp) ` set xs \<and> rs = map f (filter (\<lambda>(tp, _). topic tp = name) xs)"
  by (auto simp: by_topic_def image_iff fset_of_list.rep_eq)

lemma requested_commits_Inr:
  "requested_commits ps = Inr ocs \<Longrightarrow>
   list_all2 (\<lambda>(tp, p) (tp', oc). tp' = tp \<and> offset_commit_request_of p = Inr oc) ps ocs"
  by (induction ps arbitrary: ocs rule: requested_commits.induct) (auto split: sum.splits)

lemma list_all2_map_of:
  assumes "list_all2 (\<lambda>(k, a) (k', b). k' = k \<and> R a b) xs ys"
  shows "rel_option R (map_of (rev xs) k) (map_of (rev ys) k)"
proof -
  have "list_all2 (\<lambda>(k, a) (k', b). k' = k \<and> R a b) (rev xs) (rev ys)"
    using assms by (simp add: list.rel_mono_strong list_all2_rev)
  then show ?thesis
    by (induction rule: list_all2_induct) (auto split: prod.splits)
qed

lemma offset_commit_stores:
  assumes "offset_commit env g offsets e = (Inr codes, e')" and "(tp, NoError) \<in> set codes"
  shows "fmlookup (eng_offsets e') (g, tp) = map_of (rev offsets) tp \<and> map_of (rev offsets) tp \<noteq> None"
proof -
  define taken where "taken = filter (\<lambda>(tp, _). known_topic e (topic tp)) offsets"
  have codes: "codes = map (\<lambda>(tp, _). (tp, if known_topic e (topic tp) then NoError else UnknownTopicOrPartition)) offsets"
    and off: "eng_offsets e' = fold (\<lambda>(tp, oc). fmupd (g, tp) oc) taken (eng_offsets e)"
    using assms(1)
    by (auto simp: offset_commit_def Let_def and_then_def taken_def wal_append_def log_record_def tick_def
        split: if_splits prod.splits sum.splits io_outcome.splits)
  have known: "known_topic e (topic tp)" "tp \<in> fst ` set offsets"
    using assms(2) unfolding codes by (force split: if_splits)+
  have fold_eq: "fold (\<lambda>(tp, oc). fmupd (g, tp) oc) xs m = fold (\<lambda>(k, v). fmupd k v) (map (\<lambda>(tp, oc). ((g, tp), oc)) xs) m" for xs m
    by (induction xs arbitrary: m) auto
  have "fmlookup (eng_offsets e') (g, tp) =
      (case map_of (rev (map (\<lambda>(tp, oc). ((g, tp), oc)) taken)) (g, tp) of None \<Rightarrow> fmlookup (eng_offsets e) (g, tp) | Some v \<Rightarrow> Some v)"
    unfolding off fold_eq by (rule fmlookup_fold_upd)
  moreover have "map_of (map (\<lambda>(tp, oc). ((g, tp), oc)) xs) (g, tp) = map_of xs tp" for xs :: "(topition \<times> offset_commit_request) list"
    by (induction xs) auto
  moreover have "map_of (filter (\<lambda>(tp, _). known_topic e (topic tp)) xs) tp = map_of xs tp" for xs :: "(topition \<times> offset_commit_request) list"
    using known(1) by (induction xs) auto
  moreover have "map_of (rev offsets) tp \<noteq> None"
    using known(2) by (simp add: map_of_eq_None_iff)
  ultimately show ?thesis
    by (auto simp: taken_def rev_map rev_filter)
qed

lemma w_fence_code: "w_fence now d w = (Some code, w') \<Longrightarrow> code = UnknownMemberId \<or> code = IllegalGeneration"
  by (auto simp: w_fence_def offset_commit_fence_def Let_def split: wrapper.splits if_splits)

lemma refused_response:
  assumes "offset_commit_response d code = OffsetCommitResponse th (Some answer)" and "(t, Some ps) \<in> set answer"
    and "(p, code') \<in> set ps"
  shows "code' = code"
proof -
  obtain qs :: "offset_commit_partition list option"
    where "Some ps = map_option (map (\<lambda>p. (cp_partition_index p, code))) qs"
    using assms(1,2) by (auto simp: offset_commit_response_def)
  then show ?thesis using assms(3) by (cases qs) auto
qed

lemma write_back_Return:
  assumes "write_back st g w v b n = (Return (Inr b'), n')"
  shows "b' = b \<and> (\<exists>v' n1. update_stored st g w v n = (Inr v', n1) \<and> n' = put_wrapper g w v' n1)"
  using assms by (auto simp: write_back_def update_refused_def split: prod.splits sum.splits update_error.splits)

lemma w_offset_commit_stores:
  assumes "w_offset_commit (nvme_storage env) now d w e = ((w', OffsetCommitResponse th (Some answer)), e')"
    and "(t, Some ps) \<in> set answer" and "(p, NoError) \<in> set ps"
  shows "\<exists>part oc. map_of (rev (commit_partitions (the (cd_topics d)))) (Topition t p) = Some part \<and>
    offset_commit_request_of part = Inr oc \<and> fmlookup (eng_offsets e') (cd_group_id d, Topition t p) = Some oc"
proof -
  let ?b = "OffsetCommitResponse th (Some answer)"
  have "commit_offsets (nvme_storage env) d e = (Inr ?b, e')"
    using assms refused_response [OF _ assms(2,3)]
    by (auto simp: w_offset_commit_def split: prod.splits option.splits sum.splits dest!: w_fence_code)
  then obtain ts offsets codes where ts: "cd_topics d = Some ts"
    and offsets: "requested_commits (commit_partitions ts) = Inr offsets"
    and codes: "offset_commit env (cd_group_id d) offsets e = (Inr codes, e')"
    and answer: "answer = map (apsnd Some) (by_topic (\<lambda>(tp, code). (partition tp, code)) codes)"
    by (auto simp: commit_offsets_def nvme_storage_def and_then_def split: if_splits option.splits sum.splits prod.splits)
  have "(t, ps) \<in> set (by_topic (\<lambda>(tp, code). (partition tp, code)) codes)"
    using assms(2) unfolding answer by auto
  then have "(Topition t p, NoError) \<in> set codes"
    using assms(3) by (auto simp: in_by_topic) (metis topition.collapse)
  from offset_commit_stores [OF codes this]
  obtain oc where oc: "fmlookup (eng_offsets e') (cd_group_id d, Topition t p) = Some oc" "map_of (rev offsets) (Topition t p) = Some oc"
    by auto
  have "rel_option (\<lambda>p oc. offset_commit_request_of p = Inr oc)
      (map_of (rev (commit_partitions ts)) (Topition t p)) (map_of (rev offsets) (Topition t p))"
    by (rule list_all2_map_of [OF requested_commits_Inr [OF offsets]])
  then show ?thesis
    using oc ts by (auto simp: option_rel_Some2)
qed

lemma update_group_offsets: "update_group env g d v e = (r, e') \<Longrightarrow> eng_offsets e' = eng_offsets e"
  by (auto simp: update_group_def swap_group_def wal_append_def log_record_def tick_def
      split: prod.splits sum.splits option.splits if_splits io_outcome.splits)

text \<open>C31: An offset commit that is acknowledged is stored.  When the coordinator answers an offset commit with no error for a
  partition, the engine holds for that group and partition the last offset, leader epoch, timestamp and metadata the request
  gives for it, and an offset fetch of the group answers with that offset.\<close>

theorem acknowledged_commit_is_stored:
  assumes "ctl_offset_commit (nvme_storage env) ce d n = Some (Inr (OffsetCommitResponse th (Some answer)), n')"
    and "(t, Some ps) \<in> set answer" and "(p, NoError) \<in> set ps"
  shows "\<exists>part oc. map_of (rev (commit_partitions (the (cd_topics d)))) (Topition t p) = Some part \<and>
    offset_commit_request_of part = Inr oc \<and>
    fmlookup (eng_offsets (nd_store n')) (cd_group_id d, Topition t p) = Some oc \<and>
    fmlookup (offset_fetch (Some (cd_group_id d)) [Topition t p] (nd_store n')) (Topition t p) = Some (cp_committed_offset part)"
proof -
  from run_turns_last [OF assms(1) [unfolded ctl_offset_commit_def], of "\<lambda>_. True"] obtain m
    where "offset_commit_turn (nvme_storage env) ce d m = (Return (Inr (OffsetCommitResponse th (Some answer))), n')"
    by blast
  then obtain now w w' v b e e' m1 where
    c: "w_offset_commit (nvme_storage env) now d w e = ((w', b), e')"
    and wb: "write_back (nvme_storage env) (cd_group_id d) w' v b (m1\<lparr>nd_store := e'\<rparr>) =
      (Return (Inr (OffsetCommitResponse th (Some answer))), n')"
    unfolding offset_commit_turn_def Let_def by (auto split: prod.splits)
  note c = c [folded conjunct1 [OF write_back_Return [OF wb]]]
  from write_back_Return [OF wb] have "eng_offsets (nd_store n') = eng_offsets e'"
    by (auto simp: update_stored_def put_wrapper_def nvme_storage_def split: prod.splits dest!: update_group_offsets)
  moreover from w_offset_commit_stores [OF c assms(2,3)] obtain part oc
    where "map_of (rev (commit_partitions (the (cd_topics d)))) (Topition t p) = Some part"
      "offset_commit_request_of part = Inr oc" "fmlookup (eng_offsets e') (cd_group_id d, Topition t p) = Some oc"
    by blast
  moreover from this(2) have "commit_offset oc = cp_committed_offset part"
    by (auto simp: offset_commit_request_of_def split: option.splits if_splits)
  ultimately show ?thesis by (simp add: offset_fetch_def)
qed

lemma fetch_map:
  "fmlookup (fold (\<lambda>tp. fmupd tp (f tp)) tps m) tp = (if tp \<in> set tps then Some (f tp) else fmlookup m tp)"
  by (induction tps arbitrary: m) auto

text \<open>C32: What an offset fetch is answered with.  A fetch of the offsets of a group is answered without an error, with each topic
  once, and lists exactly the requested partitions, each with the offset the engine holds for it, or \<open>-1\<close> where the
  group has not committed one.  The state is unchanged.\<close>

theorem offset_fetch_complete:
  "\<exists>answer. ctl_offset_fetch (nvme_storage env) (Some g) (Some ts) None require_stable n =
      (Inr (OffsetFetchResponse (Some 0) (Some answer) (Some NoError) None), n) \<and>
    distinct (map fst answer) \<and>
    (\<forall>t p offset. (\<exists>ps r. (t, ps) \<in> set answer \<and> r \<in> set ps \<and> fp_partition_index r = p \<and> fp_committed_offset r = offset) \<longleftrightarrow>
      Topition t p \<in> set (topitions_of ts) \<and>
      offset = (case fmlookup (eng_offsets (nd_store n)) (g, Topition t p) of None \<Rightarrow> -1 | Some oc \<Rightarrow> commit_offset oc))"
proof -
  define offsets where "offsets = offset_fetch (Some g) (topitions_of ts) (nd_store n)"
  define answer where "answer = by_topic fetch_topic_partition (entries offsets)"
  have run: "ctl_offset_fetch (nvme_storage env) (Some g) (Some ts) None require_stable n =
      (Inr (OffsetFetchResponse (Some 0) (Some answer) (Some NoError) None), n)"
    by (simp add: ctl_offset_fetch_def fetch_offset_def nvme_storage_def and_then_def answer_def offsets_def)
  have distinct: "distinct (map fst answer)"
    by (simp add: answer_def by_topic_def comp_def sorted_list_of_fset.rep_eq)
  have lookup: "fmlookup offsets tp = (if tp \<in> set (topitions_of ts)
      then Some (case fmlookup (eng_offsets (nd_store n)) (g, tp) of None \<Rightarrow> -1 | Some oc \<Rightarrow> commit_offset oc) else None)" for tp
    by (simp add: offsets_def offset_fetch_def fetch_map)
  have listed: "(\<exists>ps r. (t, ps) \<in> set answer \<and> r \<in> set ps \<and> fp_partition_index r = p \<and> fp_committed_offset r = offset) \<longleftrightarrow>
      fmlookup offsets (Topition t p) = Some offset" (is "?l \<longleftrightarrow> ?r") for t p offset
  proof
    assume ?l
    then obtain ps r where "(t, ps) \<in> set answer" "r \<in> set ps" "fp_partition_index r = p" "fp_committed_offset r = offset"
      by blast
    then show ?r
      by (auto simp: answer_def in_by_topic fetch_topic_partition_def) (metis topition.collapse)
  next
    assume r: ?r
    then have "(Topition t p, offset) \<in> set (entries offsets)" by simp
    then have "(t, map fetch_topic_partition (filter (\<lambda>(tp, _). topic tp = t) (entries offsets))) \<in> set answer"
      unfolding answer_def in_by_topic by (force simp del: in_entries)
    moreover have "fetch_topic_partition (Topition t p, offset) \<in>
        set (map fetch_topic_partition (filter (\<lambda>(tp, _). topic tp = t) (entries offsets)))"
      using r by simp
    ultimately show ?l by (force simp: fetch_topic_partition_def)
  qed
  show ?thesis
    using run distinct listed lookup by (auto intro!: exI [of _ answer])
qed

subsection \<open>A commit through a cold cache\<close>

lemma with_storage_members: "w_members (with_storage_group_detail gd) = fmmap member_of (members gd)"
  by (auto simp: with_storage_group_detail_def Let_def split: group_state.splits)

lemma fmmap_eq_empty [simp]: "fmmap f m = fmempty \<longleftrightarrow> m = fmempty"
  by (metis fmap_ext fmlookup_map fmempty_lookup option.map_disc_iff)

lemma fence_no_member:
  assumes "w_members w \<noteq> fmempty" and "cd_generation_id_or_member_epoch d = None" and "cd_member_id d = None"
  shows "w_fence now d w = (Some UnknownMemberId, w)"
  using assms by (cases w) (auto simp: w_fence_def offset_commit_fence_def)

text \<open>C33: A commit that is refused can still move the offset.  The coordinator has not cached a group (after a restart, or when
  another broker serves it), the stored group has members, and an offset commit arrives with neither a member id nor a
  generation, which must be refused while a group has members.  The request is validated first against an empty group and
  the offset is written before the version shows that this group is not the stored one: the answer is
  \<open>UnknownMemberId\<close>, and the offset has moved.\<close>

theorem cold_commit_moves_offset:
  assumes cold: "fmlookup (nd_wrappers n) g = None"
    and stored: "fmlookup (eng_groups (nd_store n)) g = Some (gd, v)" and nonempty: "members gd \<noteq> fmempty"
    and known: "known_topic (nd_store n) t" and all_done: "\<And>i. env_io env i = Done"
    and d: "d = \<lparr>cd_group_id = g, cd_generation_id_or_member_epoch = None, cd_member_id = None, cd_group_instance_id = None,
      cd_retention_time_ms = None, cd_topics = Some [(t, Some [p])]\<rparr>"
    and timestamp: "cp_commit_timestamp p = None"
  shows "\<exists>n'. ctl_offset_commit (nvme_storage env) ce d n = Some (Inr (offset_commit_response d UnknownMemberId), n') \<and>
    map_option commit_offset (fmlookup (eng_offsets (nd_store n')) (g, Topition t (cp_partition_index p))) =
      Some (cp_committed_offset p)"
proof -
  let ?tp = "Topition t (cp_partition_index p)"
  define oc where "oc = \<lparr>commit_offset = cp_committed_offset p, commit_leader_epoch = cp_committed_leader_epoch p,
    commit_timestamp = None, commit_request_metadata = cp_committed_metadata p\<rparr>"
  define e where "e = nd_store n"
  define e1 where "e1 = snd (wal_append env (GroupOffsetCommit g [(t, cp_partition_index p, oc)])
    (e\<lparr>eng_offsets := fmupd (g, ?tp) oc (eng_offsets e)\<rparr>))"
  have wal: "\<exists>e'. wal_append env r e0 = (Inr (), e') \<and> eng_groups e' = eng_groups e0 \<and> eng_offsets e' = eng_offsets e0" for r e0
    by (simp add: wal_append_def io_def all_done log_record_def tick_def)
  have commit: "offset_commit env g [(?tp, oc)] e = (Inr [(?tp, NoError)], e1)"
    using known wal [of "GroupOffsetCommit g [(t, cp_partition_index p, oc)]" "e\<lparr>eng_offsets := fmupd (g, ?tp) oc (eng_offsets e)\<rparr>"]
    by (auto simp: offset_commit_def e_def e1_def Let_def and_then_def)
  have e1: "eng_groups e1 = eng_groups e" "fmlookup (eng_offsets e1) (g, ?tp) = Some oc"
    using wal [of "GroupOffsetCommit g [(t, cp_partition_index p, oc)]" "e\<lparr>eng_offsets := fmupd (g, ?tp) oc (eng_offsets e)\<rparr>"]
    by (auto simp: e1_def)
  have stale: "update_group env g gd' None e1 = (Inl (Outdated gd v), e1)" for gd'
    using stored e1(1) by (simp add: update_group_def swap_group_def e_def)
  define n1 where "n1 = put_wrapper g (with_storage_group_detail gd) v (n\<lparr>nd_ticks := Suc (Suc (nd_ticks n)), nd_store := e1\<rparr>)"
  have turn1: "offset_commit_turn (nvme_storage env) ce d n = (Continue, n1)"
    using cold commit stale timestamp
    by (simp add: offset_commit_turn_def take_wrapper_def read_clock_def w_offset_commit_def w_fence_def offset_commit_fence_def
        d inner_new_def commit_offsets_def commit_partitions_def offset_commit_request_of_def nvme_storage_def
        write_back_def update_stored_def update_refused_def e_def [symmetric] oc_def [symmetric] n1_def by_topic_def and_then_def)
  have fence: "w_fence now d (with_storage_group_detail gd) = (Some UnknownMemberId, with_storage_group_detail gd)" for now
    by (rule fence_no_member) (simp_all add: with_storage_members nonempty d)
  obtain v2 e2 where swap: "update_group env g (group_detail_of (with_storage_group_detail gd)) (Some v) e1 = (Inr v2, e2)"
    "eng_offsets e2 = eng_offsets e1"
    using stored e1(1) by (auto simp: update_group_def swap_group_def e_def wal_append_def io_def all_done log_record_def tick_def)
  have "\<exists>n2. offset_commit_turn (nvme_storage env) ce d n1 = (Return (Inr (offset_commit_response d UnknownMemberId)), n2) \<and>
      nd_store n2 = e2"
    using swap(1) fence
    by (simp add: offset_commit_turn_def take_wrapper_def read_clock_def w_offset_commit_def n1_def put_wrapper_def d
        nvme_storage_def write_back_def update_stored_def)
  then obtain n2 where "offset_commit_turn (nvme_storage env) ce d n1 = (Return (Inr (offset_commit_response d UnknownMemberId)), n2)"
    "nd_store n2 = e2" by blast
  then have "ctl_offset_commit (nvme_storage env) ce d n = Some (Inr (offset_commit_response d UnknownMemberId), n2)"
    unfolding ctl_offset_commit_def by (subst run_turns.simps, simp add: turn1, subst run_turns.simps, simp)
  then show ?thesis
    using e1(2) swap(2) \<open>nd_store n2 = e2\<close> by (auto simp: oc_def)
qed

text \<open>The default \<open>-1\<close> of \<open>retention_time_ms\<close> is refused, for all partitions.\<close>

lemma negative_retention_refused:
  assumes "cd_retention_time_ms d = Some ms" and "ms < 0"
  shows "\<exists>w' code. code \<noteq> NoError \<and> w_offset_commit st now d w s = ((w', offset_commit_response d code), s)"
  using assms by (cases "w_fence now d w")
    (auto simp: w_offset_commit_def commit_offsets_def split: option.splits dest: w_fence_code)

section \<open>A concrete coordinator\<close>

definition demo_version :: version where
  "demo_version = \<lparr>e_tag = Some ''v'', version_id = None\<rparr>"

text \<open>An engine with one topic and one formed group, a node that has the group in its cache, and one that has not.\<close>

definition demo_store :: engine where
  "demo_store =
     (snd (create_topic plain_env \<lparr>topic_name = ''t'', num_partitions = 1, replication_factor = 1,
        assignments = None, configs = None\<rparr> blank_engine))
       \<lparr>eng_groups := fmupd ''g'' (group_detail_of (Wrapper_Formed demo_formed), demo_version) fmempty\<rparr>"

definition demo_node :: "engine node" where
  "demo_node = (with_storage demo_store)\<lparr>nd_wrappers := fmupd ''g'' (Wrapper_Formed demo_formed, Some demo_version) fmempty\<rparr>"

definition demo_partition :: offset_commit_partition where
  "demo_partition = \<lparr>cp_partition_index = 0, cp_committed_offset = 7, cp_commit_timestamp = None,
     cp_committed_leader_epoch = None, cp_committed_metadata = None\<rparr>"

definition demo_commit :: "string option \<Rightarrow> int option \<Rightarrow> offset_commit_detail" where
  "demo_commit mid gen = \<lparr>cd_group_id = ''g'', cd_generation_id_or_member_epoch = gen, cd_member_id = mid,
     cd_group_instance_id = None, cd_retention_time_ms = None, cd_topics = Some [(''t'', Some [demo_partition])]\<rparr>"


abbreviation demo_clock :: coord_env where
  "demo_clock \<equiv> \<lparr>ce_now = (\<lambda>_. 0), ce_uuid = (\<lambda>_. ''u'')\<rparr>"

lemma run_turns_Return:
  assumes "fst (f n) = Return r"
  shows "run_turns f n = Some (r, snd (f n))"
  using assms by (subst run_turns.simps) (simp add: case_prod_beta)

theorem sync_answers_witness:
  "\<exists>r n'. ctl_sync (nvme_storage plain_env) demo_clock ''g'' 0 ''b'' None None demo_node = Some (Inr (SyncGroupResponse r), n') \<and>
     (sr_error_code r = NoError \<and> sr_assignment r \<noteq> [] \<or> sr_error_code r = RebalanceInProgress)"
proof -
  have "fst (sync_turn (nvme_storage plain_env) demo_clock ''g'' 0 ''b'' None None (fst (read_clock demo_clock demo_node))
        (snd (read_clock demo_clock demo_node))) =
      Return (Inr (sync_body NoError (Some ''consumer'') (Some ''range'') [11]))"
    by code_simp
  from run_turns_Return [where f = "sync_turn (nvme_storage plain_env) demo_clock ''g'' 0 ''b'' None None
      (fst (read_clock demo_clock demo_node))", OF this] obtain b n'
    where r: "ctl_sync (nvme_storage plain_env) demo_clock ''g'' 0 ''b'' None None demo_node = Some (Inr b, n')"
    unfolding ctl_sync_def by (auto simp: case_prod_beta)
  with sync_answers [OF r] show ?thesis by blast
qed

theorem shared_store_one_assignment_witness:
  "\<exists>d' v'. fmlookup (eng_groups (sy_store (\<lparr>sy_store = demo_store, sy_caches = fmempty,
        sy_flights = fmupd 0 (1, ''g'', Wrapper_Forming (inner_new 0), None, Wrapper_Forming (inner_new 0)) fmempty\<rparr> :: engine system))) ''g'' =
      Some (d', v') \<and> generation_id (group_detail_of (Wrapper_Formed demo_formed)) \<le> generation_id d'"
proof -
  let ?env = "plain_env\<lparr>env_uuid_string := (\<lambda>u. if u = 0 then ''a'' else if u = 1 then ''b'' else ''c'')\<rparr>"
  let ?y = "\<lparr>sy_store = demo_store, sy_caches = fmempty, sy_flights = fmempty\<rparr> :: engine system"
  let ?y' = "?y\<lparr>sy_flights := fmupd 0 (1, ''g'', Wrapper_Forming (inner_new 0), None, Wrapper_Forming (inner_new 0)) fmempty\<rparr>"
  have ticks: "eng_ticks demo_store = 2" by code_simp
  have groups: "eng_groups demo_store = fmupd ''g'' (group_detail_of (Wrapper_Formed demo_formed), demo_version) fmempty"
    by (simp add: demo_store_def)
  have inj: "inj_on (version_at ?env) {..<3}"
    by (rule inj_onI) (auto simp: version_at_def version_from_uuid_def plain_env_def numeral_3_eq_3 less_Suc_eq)
  have issued: "v \<notin> nvme_future ?env 3 (sy_store ?y)" if "fmlookup (eng_groups (sy_store ?y)) g = Some (d, v)" for g d v
    using that by (auto simp: groups demo_version_def version_at_def version_from_uuid_def plain_env_def split: if_splits)
  have "sys_step (nvme_storage ?env) nvme_held (nvme_future ?env 3) False ?y
      (?y\<lparr>sy_flights := fmupd 0 (1, ''g'', Wrapper_Forming (inner_new 0), None, Wrapper_Forming (inner_new 0)) (sy_flights ?y)\<rparr>)"
    by (rule sys_step.start) (simp_all add: inner_new_def forming_default_def)
  then have "(\<lambda>a b. sys_step (nvme_storage ?env) nvme_held (nvme_future ?env 3) False a b \<and> no_overflow a \<and>
      eng_ticks (sy_store a) < 3)\<^sup>*\<^sup>* ?y ?y'"
    by (intro r_into_rtranclp) (simp add: no_overflow_def ticks)
  from shared_store_one_assignment [where g = "''g''" and d = "group_detail_of (Wrapper_Formed demo_formed)" and v = demo_version,
      OF inj _ _ issued this]
  show ?thesis by (simp add: groups)
qed

theorem acknowledged_commit_is_stored_witness:
  "\<exists>n'. map_option commit_offset (fmlookup (eng_offsets (nd_store n')) (''g'', Topition ''t'' 0)) = Some 7 \<and>
     ctl_offset_commit (nvme_storage plain_env) demo_clock (demo_commit (Some ''a'') (Some 0)) demo_node =
       Some (Inr (OffsetCommitResponse (Some 0) (Some [(''t'', Some [(0, NoError)])])), n')"
proof -
  let ?d = "demo_commit (Some ''a'') (Some 0)"
  have "fst (offset_commit_turn (nvme_storage plain_env) demo_clock ?d demo_node) =
      Return (Inr (OffsetCommitResponse (Some 0) (Some [(''t'', Some [(0, NoError)])])))"
    by code_simp
  from run_turns_Return [where f = "offset_commit_turn (nvme_storage plain_env) demo_clock ?d", OF this] obtain n' where r:
    "ctl_offset_commit (nvme_storage plain_env) demo_clock ?d demo_node =
       Some (Inr (OffsetCommitResponse (Some 0) (Some [(''t'', Some [(0, NoError)])])), n')"
    unfolding ctl_offset_commit_def by blast
  from acknowledged_commit_is_stored [OF r, of "''t''" "[(0, NoError)]" 0] show ?thesis
    using r by (auto simp: demo_commit_def demo_partition_def commit_partitions_def offset_commit_request_of_def)
qed

theorem cold_commit_moves_offset_witness:
  "\<exists>n'. ctl_offset_commit (nvme_storage plain_env) demo_clock (demo_commit None None) (with_storage demo_store) =
      Some (Inr (OffsetCommitResponse (Some 0) (Some [(''t'', Some [(0, UnknownMemberId)])])), n') \<and>
    map_option commit_offset (fmlookup (eng_offsets (nd_store n')) (''g'', Topition ''t'' 0)) = Some 7"
proof -
  have "fmlookup (eng_groups (nd_store (with_storage demo_store))) ''g'' =
      Some (group_detail_of (Wrapper_Formed demo_formed), demo_version)"
    by (simp add: with_storage_def demo_store_def)
  moreover have "members (group_detail_of (Wrapper_Formed demo_formed)) \<noteq> fmempty"
    by (simp add: group_detail_of_def demo_formed_def demo_forming_def)
  moreover have "known_topic (nd_store (with_storage demo_store)) ''t''" by code_simp
  moreover have "env_io plain_env i = Done" for i by (simp add: plain_env_def)
  moreover have "fmlookup (nd_wrappers (with_storage demo_store)) ''g'' = None" by (simp add: with_storage_def)
  moreover have "cp_commit_timestamp demo_partition = None" by (simp add: demo_partition_def)
  ultimately show ?thesis
    using cold_commit_moves_offset [of "with_storage demo_store" "''g''" _ _ "''t''" plain_env "demo_commit None None" demo_partition demo_clock]
    by (simp add: demo_commit_def offset_commit_response_def demo_partition_def)
qed

end
