(* ===== verification/Consumer_Codec.thy ===== *)
theory Consumer_Codec
  imports Group_State
begin

text \<open>
  The consumer protocol of \<open>tansu-sans-io/src/consumer.rs\<close> and \<open>consumer/codec.rs\<close>: the subscription a
  member sends in its join request and the assignment it receives from a sync, with their byte encodings.
  They go through \<open>Encoder::new\<close> and \<open>Decoder::new\<close>, which have no message metadata: every integer
  is written big-endian as it is, and no sequence gets a length besides the one written by the codec itself.
  A Rust \<open>String\<close> is the string of its UTF-8 bytes.
\<close>

section \<open>Strings as bytes\<close>

definition utf8 :: "string \<Rightarrow> bytes" where
  "utf8 = map (\<lambda>c. word_of_nat (of_char c))"

definition of_utf8 :: "bytes \<Rightarrow> string" where
  "of_utf8 = map (\<lambda>b. char_of (unat b))"

text \<open>What \<open>String::from_utf8\<close> accepts: no overlong forms, no surrogates, nothing above U+10FFFF.\<close>

definition between :: "byte \<Rightarrow> nat \<Rightarrow> nat \<Rightarrow> bool" where
  "between b lo hi \<longleftrightarrow> lo \<le> unat b \<and> unat b \<le> hi"

fun utf8_valid :: "bytes \<Rightarrow> bool" where
  "utf8_valid [] = True"
| "utf8_valid (a # bs) =
     (if between a 0 127 then utf8_valid bs
      else if between a 194 223 then
        (case bs of b # rest \<Rightarrow> between b 128 191 \<and> utf8_valid rest | _ \<Rightarrow> False)
      else if between a 224 239 then
        (case bs of b # c # rest \<Rightarrow>
             between b (if unat a = 224 then 160 else 128) (if unat a = 237 then 159 else 191)
             \<and> between c 128 191 \<and> utf8_valid rest
         | _ \<Rightarrow> False)
      else if between a 240 244 then
        (case bs of b # c # d # rest \<Rightarrow>
             between b (if unat a = 240 then 144 else 128) (if unat a = 244 then 143 else 191)
             \<and> between c 128 191 \<and> between d 128 191 \<and> utf8_valid rest
         | _ \<Rightarrow> False)
      else False)"

section \<open>Primitives\<close>

text \<open>\<open>read_exact\<close> of the decoder.\<close>

definition read_signed :: "nat \<Rightarrow> (bytes, int) op" where
  "read_signed n bs =
     (if length bs < n then (Inl (SansIo UnexpectedEof), bs) else (Inr (get_signed_be n bs), drop n bs))"

definition read_u8 :: "(bytes, byte) op" where
  "read_u8 bs = (case bs of [] \<Rightarrow> (Inl (SansIo UnexpectedEof), bs) | b # rest \<Rightarrow> (Inr b, rest))"

definition u16_string_encode :: "string \<Rightarrow> error + bytes" where
  "u16_string_encode s =
     (if length s < 2 ^ 16 then Inr (to_be 2 (int (length s)) @ utf8 s) else Inl (SansIo (Custom ''u16'')))"

definition string_of_bytes :: "bytes \<Rightarrow> (bytes, string) op" where
  "string_of_bytes bs = (if utf8_valid bs then ok (of_utf8 bs) else throw (SansIo (Custom ''from_utf8'')))"

definition u16_string_decode :: "(bytes, string) op" where
  "u16_string_decode = and_then (read_signed 2) (\<lambda>n.
     if n > 4096 then throw (SansIo (Custom ''maximum string size''))
     else and_then (decode_items read_u8 (nat n)) string_of_bytes)"

definition nullable_string_encode :: "string option \<Rightarrow> error + bytes" where
  "nullable_string_encode s = (case s of None \<Rightarrow> Inr (to_be 2 (-1)) | Some v \<Rightarrow> u16_string_encode v)"

definition nullable_string_decode :: "(bytes, string option) op" where
  "nullable_string_decode = and_then (read_signed 2) (\<lambda>n.
     if n = -1 then ok None
     else if n > 4096 then throw (SansIo (Custom ''maximum string size''))
     else and_then (decode_items read_u8 (nat n)) (\<lambda>bs. and_then (string_of_bytes bs) (\<lambda>v. ok (Some v))))"

definition user_data_encode :: "bytes option \<Rightarrow> error + bytes" where
  "user_data_encode d =
     (case d of
        None \<Rightarrow> Inr (to_be 4 (-1))
      | Some bs \<Rightarrow> if length bs < 2 ^ 32 then Inr (to_be 4 (int (length bs)) @ bs) else Inl (SansIo (Custom ''u32'')))"

definition user_data_decode :: "(bytes, bytes option) op" where
  "user_data_decode = and_then (read_signed 4) (\<lambda>n.
     if n = -1 then ok None else and_then (decode_items read_u8 (nat n)) (\<lambda>bs. ok (Some bs)))"

definition i32_encode :: "int \<Rightarrow> error + bytes" where
  "i32_encode x = Inr (to_be 4 x)"

definition array_encode :: "('a \<Rightarrow> error + bytes) \<Rightarrow> 'a list \<Rightarrow> error + bytes" where
  "array_encode enc xs =
     (if length xs < 2 ^ 32 then
        (case encode_items enc xs of Inl e \<Rightarrow> Inl e | Inr bs \<Rightarrow> Inr (to_be 4 (int (length xs)) @ bs))
      else Inl (SansIo (Custom ''u32'')))"

definition array_decode :: "(bytes, 'a) op \<Rightarrow> (bytes, 'a list) op" where
  "array_decode dec = and_then (read_signed 4) (\<lambda>n.
     if n > 1024 then throw (SansIo (Custom ''consumer maximum array length''))
     else if n < 0 then throw (SansIo (Custom ''length''))
     else decode_items dec (nat n))"

section \<open>Assignments\<close>

record topic_partition =
  tp_topic :: string
  tp_partitions :: "int list"

text \<open>The fields of a derived \<open>Serialize\<close>, one after the other.\<close>

fun concat_fields :: "(error + bytes) list \<Rightarrow> error + bytes" where
  "concat_fields [] = Inr []"
| "concat_fields (f # fs) =
     (case f of Inl e \<Rightarrow> Inl e | Inr b \<Rightarrow> (case concat_fields fs of Inl e \<Rightarrow> Inl e | Inr bs \<Rightarrow> Inr (b @ bs)))"

definition topic_partition_encode :: "topic_partition \<Rightarrow> error + bytes" where
  "topic_partition_encode tp = concat_fields [u16_string_encode (tp_topic tp), array_encode i32_encode (tp_partitions tp)]"

definition topic_partition_decode :: "(bytes, topic_partition) op" where
  "topic_partition_decode = and_then u16_string_decode (\<lambda>t. and_then (array_decode (read_signed 4)) (\<lambda>ps.
     ok \<lparr>tp_topic = t, tp_partitions = ps\<rparr>))"

record member_assignment =
  ma_version :: int
  ma_assigned_partitions :: "topic_partition list"
  ma_user_data :: "bytes option"

definition member_assignment_encode :: "member_assignment \<Rightarrow> error + bytes" where
  "member_assignment_encode m = concat_fields [Inr (to_be 2 (ma_version m)),
     array_encode topic_partition_encode (ma_assigned_partitions m), user_data_encode (ma_user_data m)]"

definition member_assignment_decode :: "(bytes, member_assignment) op" where
  "member_assignment_decode = and_then (read_signed 2) (\<lambda>v.
     and_then (array_decode topic_partition_decode) (\<lambda>tps.
     and_then user_data_decode (\<lambda>d.
     ok \<lparr>ma_version = v, ma_assigned_partitions = tps, ma_user_data = d\<rparr>)))"

section \<open>Subscriptions\<close>

record consumer_subscription =
  cs_topics :: "string list"
  cs_user_data :: "bytes option"
  cs_owned_partitions :: "topic_partition list option"
  cs_generation_id :: "int option"
  cs_rack_id :: "string option"

definition subscription_default :: consumer_subscription where
  "subscription_default = \<lparr>cs_topics = [], cs_user_data = None, cs_owned_partitions = None,
     cs_generation_id = None, cs_rack_id = None\<rparr>"

record member_subscription =
  ms_version :: int
  ms_subscription :: consumer_subscription

text \<open>The versions of the wire format.\<close>

datatype subscription_wire =
    V0 "string list" "bytes option"
  | V1 "string list" "bytes option" "topic_partition list"
  | V2 "string list" "bytes option" "topic_partition list" int
  | V3 "string list" "bytes option" "topic_partition list" int "string option"

text \<open>A version without a wire format is a \<open>todo!\<close>.\<close>

definition to_wire :: "member_subscription \<Rightarrow> error + subscription_wire" where
  "to_wire m =
     (let s = ms_subscription m;
          owned = (case cs_owned_partitions s of None \<Rightarrow> [] | Some l \<Rightarrow> l);
          gen = (case cs_generation_id s of None \<Rightarrow> -1 | Some g \<Rightarrow> g)
      in if ms_version m = 0 then Inr (V0 (cs_topics s) (cs_user_data s))
         else if ms_version m = 1 then Inr (V1 (cs_topics s) (cs_user_data s) owned)
         else if ms_version m = 2 then Inr (V2 (cs_topics s) (cs_user_data s) owned gen)
         else if ms_version m = 3 then Inr (V3 (cs_topics s) (cs_user_data s) owned gen (cs_rack_id s))
         else Inl Panic)"

fun of_wire :: "subscription_wire \<Rightarrow> member_subscription" where
  "of_wire (V0 ts d) = \<lparr>ms_version = 0, ms_subscription = \<lparr>cs_topics = ts, cs_user_data = d,
     cs_owned_partitions = None, cs_generation_id = None, cs_rack_id = None\<rparr>\<rparr>"
| "of_wire (V1 ts d owned) = \<lparr>ms_version = 1, ms_subscription = \<lparr>cs_topics = ts, cs_user_data = d,
     cs_owned_partitions = Some owned, cs_generation_id = None, cs_rack_id = None\<rparr>\<rparr>"
| "of_wire (V2 ts d owned gen) = \<lparr>ms_version = 2, ms_subscription = \<lparr>cs_topics = ts, cs_user_data = d,
     cs_owned_partitions = Some owned, cs_generation_id = Some gen, cs_rack_id = None\<rparr>\<rparr>"
| "of_wire (V3 ts d owned gen rack) = \<lparr>ms_version = 3, ms_subscription = \<lparr>cs_topics = ts, cs_user_data = d,
     cs_owned_partitions = Some owned, cs_generation_id = Some gen, cs_rack_id = rack\<rparr>\<rparr>"

fun wire_fields :: "subscription_wire \<Rightarrow> (error + bytes) list" where
  "wire_fields (V0 ts d) = [Inr (to_be 2 0), array_encode u16_string_encode ts, user_data_encode d]"
| "wire_fields (V1 ts d owned) = [Inr (to_be 2 1), array_encode u16_string_encode ts, user_data_encode d,
     array_encode topic_partition_encode owned]"
| "wire_fields (V2 ts d owned gen) = [Inr (to_be 2 2), array_encode u16_string_encode ts, user_data_encode d,
     array_encode topic_partition_encode owned, i32_encode gen]"
| "wire_fields (V3 ts d owned gen rack) = [Inr (to_be 2 3), array_encode u16_string_encode ts, user_data_encode d,
     array_encode topic_partition_encode owned, i32_encode gen, nullable_string_encode rack]"

definition member_subscription_encode :: "member_subscription \<Rightarrow> error + bytes" where
  "member_subscription_encode m = (case to_wire m of Inl e \<Rightarrow> Inl e | Inr w \<Rightarrow> concat_fields (wire_fields w))"

definition wire_decode :: "(bytes, subscription_wire) op" where
  "wire_decode = and_then (read_signed 2) (\<lambda>v.
     if \<not> (0 \<le> v \<and> v \<le> 3) then throw (SansIo (Custom ''unsupported''))
     else and_then (array_decode u16_string_decode) (\<lambda>ts. and_then user_data_decode (\<lambda>d.
       if v = 0 then ok (V0 ts d)
       else and_then (array_decode topic_partition_decode) (\<lambda>owned.
         if v = 1 then ok (V1 ts d owned)
         else and_then (read_signed 4) (\<lambda>gen.
           if v = 2 then ok (V2 ts d owned gen)
           else and_then nullable_string_decode (\<lambda>rack. ok (V3 ts d owned gen rack)))))))"

definition member_subscription_decode :: "(bytes, member_subscription) op" where
  "member_subscription_decode = and_then wire_decode (\<lambda>w. ok (of_wire w))"

section \<open>Round trips\<close>

lemma length_utf8 [simp]: "length (utf8 s) = length s"
  by (simp add: utf8_def)

lemma of_utf8_utf8 [simp]: "of_utf8 (utf8 s) = s"
proof -
  have "char_of (unat (word_of_nat (of_char c) :: byte)) = c" for c :: char
    by (simp add: unat_of_nat)
  then show ?thesis by (simp add: of_utf8_def utf8_def comp_def)
qed

lemma read_signed_to_be [simp]:
  "fits_signed (8 * n) x \<Longrightarrow> 0 < n \<Longrightarrow> read_signed n (to_be n x @ rest) = (Inr x, rest)"
  by (simp add: read_signed_def)

lemma concat_fields_Inr:
  "concat_fields (f # fs) = Inr bs \<longleftrightarrow> (\<exists>b bs'. f = Inr b \<and> concat_fields fs = Inr bs' \<and> bs = b @ bs')"
  by (auto split: sum.splits)

interpretation u8_codec: byte_codec "\<lambda>b. Inr [b]" read_u8 "\<lambda>_. True"
  by unfold_locales (auto simp: read_u8_def)

lemma read_bytes [simp]: "decode_items read_u8 (length bs) (bs @ rest) = (Inr bs, rest)"
proof -
  have "encode_items (\<lambda>b. Inr [b]) bs = Inr bs" by (induction bs) auto
  then show ?thesis using u8_codec.decode_encode_items [of bs bs rest] by (simp add: list_all_iff)
qed

lemma read_utf8 [simp]: "decode_items read_u8 (length s) (utf8 s @ rest) = (Inr (utf8 s), rest)"
  using read_bytes [of "utf8 s"] by simp

definition string_ok :: "string \<Rightarrow> bool" where
  "string_ok s \<longleftrightarrow> length s \<le> 4096 \<and> utf8_valid (utf8 s)"

interpretation u16_string_codec: byte_codec u16_string_encode u16_string_decode string_ok
  by unfold_locales
    (auto simp: u16_string_encode_def u16_string_decode_def string_ok_def string_of_bytes_def fits_signed_def split: if_splits)

interpretation nullable_codec: byte_codec nullable_string_encode nullable_string_decode "pred_option string_ok"
proof
  fix x bs rest
  assume "pred_option string_ok x" "nullable_string_encode x = Inr bs"
  then show "nullable_string_decode (bs @ rest) = (Inr x, rest)"
    by (cases x) (auto simp: nullable_string_encode_def nullable_string_decode_def u16_string_encode_def string_ok_def
        string_of_bytes_def fits_signed_def split: if_splits)
qed

interpretation user_data_codec: byte_codec user_data_encode user_data_decode "pred_option (\<lambda>d. length d < 2 ^ 31)"
proof
  fix x bs rest
  assume "pred_option (\<lambda>d. length d < 2 ^ 31) x" "user_data_encode x = Inr bs"
  then show "user_data_decode (bs @ rest) = (Inr x, rest)"
    by (cases x) (auto simp: user_data_encode_def user_data_decode_def fits_signed_def split: if_splits)
qed

interpretation i32_codec: byte_codec i32_encode "read_signed 4" "fits_signed 32"
  by unfold_locales (auto simp: i32_encode_def)

context byte_codec
begin

lemma array_round_trip:
  "list_all good xs \<Longrightarrow> length xs \<le> 1024 \<Longrightarrow> array_encode enc xs = Inr bs \<Longrightarrow> array_decode dec (bs @ rest) = (Inr xs, rest)"
  by (auto simp: array_encode_def array_decode_def decode_encode_items fits_signed_def split: if_splits sum.splits)

end

definition topic_partition_ok :: "topic_partition \<Rightarrow> bool" where
  "topic_partition_ok tp \<longleftrightarrow> string_ok (tp_topic tp) \<and> list_all (fits_signed 32) (tp_partitions tp) \<and> length (tp_partitions tp) \<le> 1024"

interpretation topic_partition_codec: byte_codec topic_partition_encode topic_partition_decode topic_partition_ok
  by unfold_locales
    (auto simp: topic_partition_encode_def topic_partition_decode_def topic_partition_ok_def concat_fields_Inr
      u16_string_codec.dec_enc i32_codec.array_round_trip simp del: concat_fields.simps(2))

definition assignment_ok :: "member_assignment \<Rightarrow> bool" where
  "assignment_ok m \<longleftrightarrow> fits_signed 16 (ma_version m) \<and> list_all topic_partition_ok (ma_assigned_partitions m)
     \<and> length (ma_assigned_partitions m) \<le> 1024 \<and> pred_option (\<lambda>d. length d < 2 ^ 31) (ma_user_data m)"

interpretation assignment_codec: byte_codec member_assignment_encode member_assignment_decode assignment_ok
  by unfold_locales
    (auto simp: member_assignment_encode_def member_assignment_decode_def assignment_ok_def concat_fields_Inr
      user_data_codec.dec_enc topic_partition_codec.array_round_trip simp del: concat_fields.simps(2))

definition subscription_ok :: "consumer_subscription \<Rightarrow> bool" where
  "subscription_ok s \<longleftrightarrow> list_all string_ok (cs_topics s) \<and> length (cs_topics s) \<le> 1024
     \<and> pred_option (\<lambda>d. length d < 2 ^ 31) (cs_user_data s)
     \<and> pred_option (\<lambda>l. list_all topic_partition_ok l \<and> length l \<le> 1024) (cs_owned_partitions s)
     \<and> pred_option (fits_signed 32) (cs_generation_id s) \<and> pred_option string_ok (cs_rack_id s)"

lemma wire_round_trip:
  assumes "subscription_ok (ms_subscription m)" and "to_wire m = Inr w" and "concat_fields (wire_fields w) = Inr bs"
  shows "wire_decode (bs @ rest) = (Inr w, rest)"
proof -
  let ?s = "ms_subscription m"
  have owned: "list_all topic_partition_ok (case cs_owned_partitions ?s of None \<Rightarrow> [] | Some l \<Rightarrow> l)"
      "length (case cs_owned_partitions ?s of None \<Rightarrow> [] | Some l \<Rightarrow> l) \<le> 1024"
    and gen: "fits_signed 32 (case cs_generation_id ?s of None \<Rightarrow> -1 | Some g \<Rightarrow> g)"
    using assms(1) by (auto simp: subscription_ok_def fits_signed_def split: option.splits)
  have "fits_signed 16 0" "fits_signed 16 1" "fits_signed 16 2" "fits_signed 16 3" by (simp_all add: fits_signed_def)
  then show ?thesis
    using assms owned gen
    by (auto simp: to_wire_def Let_def subscription_ok_def wire_decode_def concat_fields_Inr user_data_codec.dec_enc
        u16_string_codec.array_round_trip topic_partition_codec.array_round_trip i32_codec.dec_enc nullable_codec.dec_enc
        simp del: concat_fields.simps(2) split: if_splits)
qed

text \<open>C29: The consumer protocol survives the wire.  An assignment within the limits of the decoder is decoded from its bytes to itself,
  whatever follows them.  A subscription is decoded to what its version carries: the topics and the user data always, the
  owned partitions from version 1, the generation from version 2 (\<open>-1\<close> when there is none) and the rack from version 3.\<close>

theorem consumer_protocol_round_trip:
  assumes "assignment_ok a" and "member_assignment_encode a = Inr bs"
    and "subscription_ok (ms_subscription m)" and "member_subscription_encode m = Inr ss"
  shows "member_assignment_decode (bs @ rest) = (Inr a, rest) \<and>
    (\<exists>s. member_subscription_decode (ss @ rest) = (Inr \<lparr>ms_version = ms_version m, ms_subscription = s\<rparr>, rest) \<and>
      cs_topics s = cs_topics (ms_subscription m) \<and> cs_user_data s = cs_user_data (ms_subscription m) \<and>
      cs_owned_partitions s = (if 1 \<le> ms_version m
        then Some (case cs_owned_partitions (ms_subscription m) of None \<Rightarrow> [] | Some l \<Rightarrow> l) else None) \<and>
      cs_generation_id s = (if 2 \<le> ms_version m
        then Some (case cs_generation_id (ms_subscription m) of None \<Rightarrow> -1 | Some g \<Rightarrow> g) else None) \<and>
      cs_rack_id s = (if 3 \<le> ms_version m then cs_rack_id (ms_subscription m) else None))"
proof -
  obtain w where w: "to_wire m = Inr w" "concat_fields (wire_fields w) = Inr ss"
    using assms(4) by (auto simp: member_subscription_encode_def split: sum.splits)
  have "member_subscription_decode (ss @ rest) = (Inr (of_wire w), rest)"
    using wire_round_trip [OF assms(3) w, of rest] by (simp add: member_subscription_decode_def)
  moreover have "of_wire w = \<lparr>ms_version = ms_version m, ms_subscription = ms_subscription (of_wire w)\<rparr>"
    using w(1) by (auto simp: to_wire_def Let_def split: if_splits)
  ultimately show ?thesis
    using w(1) assignment_codec.dec_enc [OF assms(1,2)]
    by (auto simp: to_wire_def Let_def split: if_splits)
qed

definition demo_assignment :: member_assignment where
  "demo_assignment = \<lparr>ma_version = 3, ma_assigned_partitions = [\<lparr>tp_topic = ''t0'', tp_partitions = [0, 2]\<rparr>], ma_user_data = None\<rparr>"

definition demo_subscription :: member_subscription where
  "demo_subscription = \<lparr>ms_version = 1, ms_subscription = subscription_default\<lparr>cs_topics := [''t0''], cs_rack_id := Some ''r''\<rparr>\<rparr>"

theorem consumer_protocol_round_trip_witness:
  "member_assignment_decode (projr (member_assignment_encode demo_assignment) @ [7]) = (Inr demo_assignment, [7])
   \<and> (\<exists>s. member_subscription_decode (projr (member_subscription_encode demo_subscription) @ [7]) =
        (Inr \<lparr>ms_version = 1, ms_subscription = s\<rparr>, [7]) \<and> cs_owned_partitions s = Some [] \<and> cs_rack_id s = None)"
proof -
  have ok: "assignment_ok demo_assignment" "subscription_ok (ms_subscription demo_subscription)"
    by (simp_all add: assignment_ok_def demo_assignment_def subscription_ok_def demo_subscription_def subscription_default_def
        topic_partition_ok_def string_ok_def fits_signed_def utf8_def between_def)
  have "member_assignment_encode demo_assignment = Inr (projr (member_assignment_encode demo_assignment))"
    "member_subscription_encode demo_subscription = Inr (projr (member_subscription_encode demo_subscription))"
    by (simp_all add: member_assignment_encode_def demo_assignment_def member_subscription_encode_def demo_subscription_def
        subscription_default_def to_wire_def array_encode_def topic_partition_encode_def u16_string_encode_def
        user_data_encode_def i32_encode_def)
  from consumer_protocol_round_trip [OF ok(1) this(1) ok(2) this(2), of "[7]"] show ?thesis
    by (auto simp: demo_subscription_def subscription_default_def)
qed


definition large_assignment :: member_assignment where
  "large_assignment = \<lparr>ma_version = 3, ma_assigned_partitions = [\<lparr>tp_topic = ''t0'', tp_partitions = replicate 1025 0\<rparr>],
     ma_user_data = None\<rparr>"

lemma encode_items_i32: "\<exists>bs. encode_items i32_encode ps = Inr bs"
  by (induction ps) (auto simp: i32_encode_def)


end
