(* ===== verification/Assignors.thy ===== *)
theory Assignors
  imports Consumer_Codec Engine_Read
begin

text \<open>
  The assignors of \<open>tansu-sans-io/src/consumer/assignor/\<close>: how the leader of a group divides the
  partitions of the subscribed topics between the members.  The range and the round-robin assignor are
  the algorithms; the uniform and the cooperative-sticky ones call the round-robin one.
\<close>

section \<open>The algorithms\<close>

text \<open>What the assignors read of a \<open>MetadataResponse\<close>.\<close>

record metadata_topic =
  mt_name :: "string option"
  mt_partitions :: "int list option"

text \<open>The topics each member subscribes to, the members in the order of their ids.\<close>

definition sorted_members :: "join_group_response_member list \<Rightarrow> join_group_response_member list" where
  "sorted_members = sort_key member_id"

definition member_topics :: "join_group_response_member \<Rightarrow> error + string list" where
  "member_topics m =
     (case member_subscription_decode (member_metadata m) of
        (Inl e, _) \<Rightarrow> Inl e
      | (Inr s, _) \<Rightarrow> Inr (cs_topics (ms_subscription s)))"

definition member_subs :: "join_group_response_member list \<Rightarrow> error + string list list" where
  "member_subs ordered = all_results (map member_topics ordered)"

definition encode_assignments ::
    "join_group_response_member list \<Rightarrow> topic_partition list list \<Rightarrow> error + sync_group_request_assignment list" where
  "encode_assignments ordered plan =
     all_results (map (\<lambda>(m, tps).
       case member_assignment_encode \<lparr>ma_version = 3, ma_assigned_partitions = tps, ma_user_data = None\<rparr> of
         Inl e \<Rightarrow> Inl e
       | Inr bs \<Rightarrow> Inr \<lparr>assignee = member_id m, assigned = bs\<rparr>) (zip ordered plan))"

text \<open>\<open>RangeAssignor\<close>: per topic, a contiguous range for each of its subscribers.  The slice of the partitions panics out of
  range.\<close>

fun range_members ::
    "nat \<Rightarrow> nat \<Rightarrow> string \<Rightarrow> int list \<Rightarrow> nat \<Rightarrow> nat \<Rightarrow> nat list \<Rightarrow> topic_partition list list \<Rightarrow>
     error + topic_partition list list" where
  "range_members allocation remainder name ps j offset [] plan = Inr plan"
| "range_members allocation remainder name ps j offset (i # is) plan =
     (let count = allocation + (if j < remainder then 1 else 0) in
      if count = 0 then range_members allocation remainder name ps (Suc j) offset is plan
      else if offset + count > length ps then Inl Panic
      else range_members allocation remainder name ps (Suc j) (offset + count) is
        (plan[i := plan ! i @ [\<lparr>tp_topic = name, tp_partitions = take count (drop offset ps)\<rparr>]]))"

definition topic_partitions_sorted :: "metadata_topic \<Rightarrow> int list" where
  "topic_partitions_sorted t = sorted_list_of_set (set (case mt_partitions t of None \<Rightarrow> [] | Some l \<Rightarrow> l))"

definition subscribed :: "string list list \<Rightarrow> string \<Rightarrow> nat list" where
  "subscribed subs name = filter (\<lambda>i. name \<in> set (subs ! i)) [0..<length subs]"

definition range_topic ::
    "string list list \<Rightarrow> metadata_topic \<Rightarrow> topic_partition list list \<Rightarrow> error + topic_partition list list" where
  "range_topic subs t plan =
     (case mt_name t of
        None \<Rightarrow> Inr plan
      | Some name \<Rightarrow>
          let is = subscribed subs name in
          if is = [] then Inr plan
          else let ps = topic_partitions_sorted t; n = length is
               in range_members (length ps div n) (length ps mod n) name ps 0 0 is plan)"

fun range_topics ::
    "string list list \<Rightarrow> metadata_topic list \<Rightarrow> topic_partition list list \<Rightarrow> error + topic_partition list list" where
  "range_topics subs [] plan = Inr plan"
| "range_topics subs (t # ts) plan =
     (case range_topic subs t plan of Inl e \<Rightarrow> Inl e | Inr plan' \<Rightarrow> range_topics subs ts plan')"

definition range_plan :: "string list list \<Rightarrow> metadata_topic list option \<Rightarrow> error + topic_partition list list" where
  "range_plan subs metadata =
     range_topics subs (case metadata of None \<Rightarrow> [] | Some ts \<Rightarrow> ts) (replicate (length subs) [])"

text \<open>\<open>RoundRobinAssignor\<close>: the partitions of all topics in order, each to the next member that subscribes to its topic.\<close>

definition metadata_topitions :: "metadata_topic list option \<Rightarrow> topition list" where
  "metadata_topitions metadata =
     sorted_list_of_set (set (concat (map (\<lambda>t. case mt_name t of
           None \<Rightarrow> []
         | Some name \<Rightarrow> map (Topition name) (case mt_partitions t of None \<Rightarrow> [] | Some l \<Rightarrow> l))
       (case metadata of None \<Rightarrow> [] | Some ts \<Rightarrow> ts))))"

text \<open>The inner loop: at most \<open>n\<close> members are asked.\<close>

fun next_member :: "string list list \<Rightarrow> string \<Rightarrow> nat \<Rightarrow> nat \<Rightarrow> nat option \<times> nat" where
  "next_member subs name 0 counter = (None, counter)"
| "next_member subs name (Suc k) counter =
     (let idx = counter mod length subs in
      if name \<in> set (subs ! idx) then (Some idx, Suc counter) else next_member subs name k (Suc counter))"

fun round_robin_loop ::
    "string list list \<Rightarrow> topition list \<Rightarrow> nat \<Rightarrow> topition list list \<Rightarrow> topition list list" where
  "round_robin_loop subs [] counter plan = plan"
| "round_robin_loop subs (t # ts) counter plan =
     (case next_member subs (topic t) (length subs) counter of
        (None, c) \<Rightarrow> round_robin_loop subs ts c plan
      | (Some i, c) \<Rightarrow> round_robin_loop subs ts c (plan[i := plan ! i @ [t]]))"

definition group_topics :: "topition list \<Rightarrow> topic_partition list" where
  "group_topics ts =
     map (\<lambda>(t, ps). \<lparr>tp_topic = t, tp_partitions = ps\<rparr>)
       (entries (fold (\<lambda>t m. fmupd (topic t) (entry_or [] m (topic t) @ [partition t]) m) ts fmempty))"

definition round_robin_plan :: "string list list \<Rightarrow> metadata_topic list option \<Rightarrow> topic_partition list list" where
  "round_robin_plan subs metadata =
     map group_topics (round_robin_loop subs (metadata_topitions metadata) 0 (replicate (length subs) []))"

section \<open>The interface\<close>

datatype assignor = Uniform | Range | RoundRobin | CooperativeSticky

fun assignor_name :: "assignor \<Rightarrow> string" where
  "assignor_name CooperativeSticky = ''cooperative-sticky''"
| "assignor_name Range = ''range''"
| "assignor_name RoundRobin = ''roundrobin''"
| "assignor_name Uniform = ''uniform''"

definition assignor_from_str :: "string \<Rightarrow> error + assignor" where
  "assignor_from_str s =
     (if s = ''cooperative-sticky'' then Inr CooperativeSticky
      else if s = ''range'' then Inr Range
      else if s = ''roundrobin'' then Inr RoundRobin
      else if s = ''uniform'' then Inr Uniform
      else Inl (SansIo (UnknownAssignor s)))"

definition round_robin_assign ::
    "join_group_response_member list \<Rightarrow> metadata_topic list option \<Rightarrow> error + sync_group_request_assignment list" where
  "round_robin_assign ms metadata =
     (let ordered = sorted_members ms in
      case member_subs ordered of
        Inl e \<Rightarrow> Inl e
      | Inr subs \<Rightarrow> encode_assignments ordered (round_robin_plan subs metadata))"

definition range_assign ::
    "join_group_response_member list \<Rightarrow> metadata_topic list option \<Rightarrow> error + sync_group_request_assignment list" where
  "range_assign ms metadata =
     (let ordered = sorted_members ms in
      case member_subs ordered of
        Inl e \<Rightarrow> Inl e
      | Inr subs \<Rightarrow>
          (case range_plan subs metadata of Inl e \<Rightarrow> Inl e | Inr plan \<Rightarrow> encode_assignments ordered plan))"

fun assign ::
    "assignor \<Rightarrow> join_group_response_member list \<Rightarrow> metadata_topic list option \<Rightarrow> error + sync_group_request_assignment list" where
  "assign CooperativeSticky ms metadata = round_robin_assign ms metadata"
| "assign Range ms metadata = range_assign ms metadata"
| "assign RoundRobin ms metadata = round_robin_assign ms metadata"
| "assign Uniform ms metadata = round_robin_assign ms metadata"

end
