(* ===== verification/Group_Consumer.thy ===== *)
theory Group_Consumer
  imports Assignors
begin

text \<open>
  The client side of a consumer group, \<open>GroupConsumer\<close> of \<open>tansu-sans-io/src/consumer.rs\<close>: a state machine
  without I/O.  \<open>next_action\<close> takes the last response of the coordinator and answers with the next request; an
  input that the state does not expect is a \<open>todo!\<close>.  A \<open>Duration\<close> is in milliseconds.  The optional
  \<open>on_assignment\<close> callback is the list of the calls made to it.
\<close>

section \<open>The consumer\<close>

datatype member_state =
    Outsider "int option" "string option" "member_assignment option"
  | Follower int string "member_assignment option"
  | Leader int string "member_assignment option"

record group_consumer =
  gc_group_id :: string
  gc_topics :: "string list"
  gc_rebalance_timeout :: int
  gc_session_timeout :: int
  gc_member_state :: member_state
  gc_metadata :: "metadata_topic list option"
  gc_on_assignment :: bool
  gc_calls :: "(string \<times> member_assignment) list"
  gc_errors :: "(error_code, 64 word) fmap"

definition REBALANCE_TIMEOUT_MS_DEFAULT :: int where
  "REBALANCE_TIMEOUT_MS_DEFAULT = 60000"

definition SESSION_TIMEOUT_MS_DEFAULT :: int where
  "SESSION_TIMEOUT_MS_DEFAULT = 10000"

definition consumer_build ::
    "string \<Rightarrow> string list \<Rightarrow> metadata_topic list option \<Rightarrow> bool \<Rightarrow> int option \<Rightarrow> int option \<Rightarrow> group_consumer" where
  "consumer_build g ts metadata callback rebalance session =
     \<lparr>gc_group_id = g, gc_topics = ts,
      gc_rebalance_timeout = (case rebalance of None \<Rightarrow> REBALANCE_TIMEOUT_MS_DEFAULT | Some t \<Rightarrow> t),
      gc_session_timeout = (case session of None \<Rightarrow> SESSION_TIMEOUT_MS_DEFAULT | Some t \<Rightarrow> t),
      gc_member_state = Outsider None None None, gc_metadata = metadata, gc_on_assignment = callback,
      gc_calls = [], gc_errors = fmempty\<rparr>"

fun ms_member_id :: "member_state \<Rightarrow> string option" where
  "ms_member_id (Outsider gen mid ma) = mid"
| "ms_member_id (Follower gen mid ma) = Some mid"
| "ms_member_id (Leader gen mid ma) = Some mid"

fun ms_generation_id :: "member_state \<Rightarrow> int option" where
  "ms_generation_id (Outsider gen mid ma) = gen"
| "ms_generation_id (Follower gen mid ma) = Some gen"
| "ms_generation_id (Leader gen mid ma) = Some gen"

fun ms_member_assignment :: "member_state \<Rightarrow> member_assignment option" where
  "ms_member_assignment (Outsider gen mid ma) = ma"
| "ms_member_assignment (Follower gen mid ma) = ma"
| "ms_member_assignment (Leader gen mid ma) = ma"

fun is_outsider :: "member_state \<Rightarrow> bool" where
  "is_outsider (Outsider gen mid ma) = True"
| "is_outsider (Follower gen mid ma) = False"
| "is_outsider (Leader gen mid ma) = False"

section \<open>Requests\<close>

text \<open>The fields that \<open>join_request\<close> leaves at their default (no group instance id) are not listed.\<close>

record consumer_join_request =
  cj_group_id :: string
  cj_session_timeout_ms :: int
  cj_rebalance_timeout_ms :: "int option"
  cj_member_id :: string
  cj_protocol_type :: string
  cj_protocols :: "join_group_request_protocol list option"
  cj_reason :: "string option"

record sync_group_request =
  sq_group_id :: string
  sq_generation_id :: int
  sq_member_id :: string
  sq_protocol_type :: "string option"
  sq_protocol_name :: "string option"
  sq_assignments :: "sync_group_request_assignment list option"

datatype client_request =
    JoinGroupRequest consumer_join_request
  | SyncGroupRequest sync_group_request
  | HeartbeatRequest (hq_group_id: string) (hq_generation_id: int) (hq_member_id: string)

definition ASSIGNORS :: "assignor list" where
  "ASSIGNORS = [Range, RoundRobin, Uniform, CooperativeSticky]"

definition join_protocol ::
    "group_consumer \<Rightarrow> int option \<Rightarrow> member_assignment option \<Rightarrow> assignor \<Rightarrow> error + join_group_request_protocol" where
  "join_protocol c gen ma a =
     (case member_subscription_encode
         \<lparr>ms_version = (case ma of None \<Rightarrow> 3 | Some x \<Rightarrow> ma_version x),
          ms_subscription = subscription_default
            \<lparr>cs_topics := gc_topics c,
             cs_owned_partitions := Some (case ma of None \<Rightarrow> [] | Some x \<Rightarrow> ma_assigned_partitions x),
             cs_generation_id := Some (case gen of None \<Rightarrow> -1 | Some g \<Rightarrow> g)\<rparr>\<rparr> of
        Inl e \<Rightarrow> Inl e
      | Inr bs \<Rightarrow> Inr \<lparr>protocol_label = assignor_name a, protocol_metadata = bs\<rparr>)"

definition join_protocols ::
    "group_consumer \<Rightarrow> int option \<Rightarrow> member_assignment option \<Rightarrow> error + join_group_request_protocol list" where
  "join_protocols c gen ma = all_results (map (join_protocol c gen ma) ASSIGNORS)"

definition consumer_join ::
    "group_consumer \<Rightarrow> int option \<Rightarrow> string option \<Rightarrow> member_assignment option \<Rightarrow> string \<Rightarrow> error + client_request" where
  "consumer_join c gen mid ma reason =
     (case join_protocols c gen ma of
        Inl e \<Rightarrow> Inl e
      | Inr ps \<Rightarrow> Inr (JoinGroupRequest
          \<lparr>cj_group_id = gc_group_id c, cj_session_timeout_ms = wrap_signed 32 (gc_session_timeout c),
           cj_rebalance_timeout_ms = Some (wrap_signed 32 (gc_rebalance_timeout c)),
           cj_member_id = (case mid of None \<Rightarrow> [] | Some m \<Rightarrow> m), cj_protocol_type = ''consumer'',
           cj_protocols = Some ps, cj_reason = Some reason\<rparr>))"

section \<open>The next action\<close>

definition count_error :: "error_code \<Rightarrow> group_consumer \<Rightarrow> group_consumer" where
  "count_error code c = c\<lparr>gc_errors := fmupd code (entry_or 0 (gc_errors c) code + 1) (gc_errors c)\<rparr>"

definition become :: "member_state \<Rightarrow> group_consumer \<Rightarrow> group_consumer" where
  "become st c = c\<lparr>gc_member_state := st\<rparr>"

text \<open>The state becomes an outsider's, and the join request is built from the same values.\<close>

definition rejoin ::
    "int option \<Rightarrow> string option \<Rightarrow> member_assignment option \<Rightarrow> string \<Rightarrow> (group_consumer, client_request) op" where
  "rejoin gen mid ma reason c =
     (let c = become (Outsider gen mid ma) c in (consumer_join c gen mid ma reason, c))"

definition sync_request ::
    "join_group_response \<Rightarrow> string \<Rightarrow> sync_group_request_assignment list \<Rightarrow> group_consumer \<Rightarrow> client_request" where
  "sync_request r mid as c = SyncGroupRequest
     \<lparr>sq_group_id = gc_group_id c, sq_generation_id = jr_generation_id r, sq_member_id = mid,
      sq_protocol_type = jr_protocol_type r, sq_protocol_name = jr_protocol_name r, sq_assignments = Some as\<rparr>"

definition chosen_assignor :: "string option \<Rightarrow> assignor" where
  "chosen_assignor pn =
     (case pn of None \<Rightarrow> Range | Some name \<Rightarrow> (case assignor_from_str name of Inl e \<Rightarrow> Range | Inr a \<Rightarrow> a))"

definition on_join ::
    "int option \<Rightarrow> string option \<Rightarrow> member_assignment option \<Rightarrow> join_group_response \<Rightarrow> (group_consumer, client_request) op" where
  "on_join gen mid ma r c =
     (if jr_error_code r = NotCoordinator then
        let c = count_error NotCoordinator c in (consumer_join c gen mid ma ''join'', c)
      else if jr_error_code r = MemberIdRequired then
        rejoin (Some (jr_generation_id r)) (Some (jr_member_id r)) ma ''join member id required''
          (count_error MemberIdRequired c)
      else if jr_error_code r = NoError \<and> jr_leader r = jr_member_id r then
        let c = become (Leader (jr_generation_id r) (jr_member_id r) None) (count_error NoError c)
        in (case assign (chosen_assignor (jr_protocol_name r)) (case jr_members r of None \<Rightarrow> [] | Some ms \<Rightarrow> ms) (gc_metadata c) of
              Inl e \<Rightarrow> Inl e
            | Inr as \<Rightarrow> Inr (sync_request r (jr_leader r) as c), c)
      else if jr_error_code r = NoError then
        let c = become (Follower (jr_generation_id r) (jr_member_id r) None) (count_error NoError c)
        in (Inr (sync_request r (jr_member_id r) [] c), c)
      else (Inl Panic, c))"

text \<open>\<open>role\<close> is the constructor of the state, \<open>Leader\<close> or \<open>Follower\<close>.\<close>

definition on_sync ::
    "(int \<Rightarrow> string \<Rightarrow> member_assignment option \<Rightarrow> member_state) \<Rightarrow> int \<Rightarrow> string \<Rightarrow> member_assignment option \<Rightarrow>
     sync_group_response \<Rightarrow> (group_consumer, client_request) op" where
  "on_sync role gen mid ma r c =
     (if sr_error_code r = NoError then
        let c = count_error NoError c in
        if sr_assignment r = [] then (Inl Panic, c)
        else (case fst (member_assignment_decode (sr_assignment r)) of
                Inl e \<Rightarrow> (Inl e, c)
              | Inr a \<Rightarrow>
                  let c = become (role gen mid (Some a)) c;
                      c = (if gc_on_assignment c then c\<lparr>gc_calls := gc_calls c @ [(gc_group_id c, a)]\<rparr> else c)
                  in (Inr (HeartbeatRequest (gc_group_id c) gen mid), c))
      else if sr_error_code r = RebalanceInProgress then
        let c = count_error RebalanceInProgress c in
        if sr_assignment r \<noteq> [] then (Inl Panic, c)
        else rejoin None (Some mid) ma ''join after sync with rebalance'' c
      else (Inl Panic, c))"

definition on_heartbeat ::
    "int \<Rightarrow> string \<Rightarrow> member_assignment option \<Rightarrow> error_code \<Rightarrow> (group_consumer, client_request) op" where
  "on_heartbeat gen mid ma code c =
     (if code = UnknownMemberId then
        rejoin None None None ''join after unknown member id'' (count_error UnknownMemberId c)
      else if code = RebalanceInProgress then
        rejoin (Some gen) (Some mid) ma ''join after rebalance'' (count_error RebalanceInProgress c)
      else if code = NoError then
        let c = count_error NoError c in (Inr (HeartbeatRequest (gc_group_id c) gen mid), c)
      else (Inl Panic, c))"

definition next_action :: "body option \<Rightarrow> (group_consumer, client_request) op" where
  "next_action input c =
     (case gc_member_state c of
        Outsider gen mid ma \<Rightarrow>
          (case input of
             None \<Rightarrow> (consumer_join c gen mid ma ''join'', c)
           | Some (JoinGroupResponse r) \<Rightarrow> on_join gen mid ma r c
           | _ \<Rightarrow> (Inl Panic, c))
      | Follower gen mid ma \<Rightarrow>
          (case input of
             Some (SyncGroupResponse r) \<Rightarrow> on_sync Follower gen mid ma r c
           | Some (HeartbeatResponse _ code) \<Rightarrow> on_heartbeat gen mid ma code c
           | _ \<Rightarrow> (Inl Panic, c))
      | Leader gen mid ma \<Rightarrow>
          (case input of
             Some (SyncGroupResponse r) \<Rightarrow> on_sync Leader gen mid ma r c
           | Some (HeartbeatResponse _ code) \<Rightarrow> on_heartbeat gen mid ma code c
           | _ \<Rightarrow> (Inl Panic, c)))"

end
