(* ===== verification/Assignor_Spec.thy ===== *)
theory Assignor_Spec
  imports Assignors
begin

text \<open>
  What an assignor promises: it divides the offered partitions between the subscribers, each to one of them, and evenly.
  The range assignor is shown equal to a closed form (each subscriber of a topic holds the slice of its rank), the
  round-robin loop to the list of its picks; both follow from these.
\<close>

section \<open>Every partition to one subscriber\<close>

subsection \<open>Ranges\<close>

definition range_start :: "nat \<Rightarrow> nat \<Rightarrow> nat \<Rightarrow> nat" where
  "range_start a r j = j * a + min j r"

definition range_count :: "nat \<Rightarrow> nat \<Rightarrow> nat \<Rightarrow> nat" where
  "range_count a r j = a + (if j < r then 1 else 0)"

definition slice :: "nat \<Rightarrow> nat \<Rightarrow> int list \<Rightarrow> nat \<Rightarrow> int list" where
  "slice a r ps j = take (range_count a r j) (drop (range_start a r j) ps)"

lemma range_start_Suc: "range_start a r (Suc j) = range_start a r j + range_count a r j"
  by (simp add: range_start_def range_count_def min_def)

lemma range_start_mono: "i \<le> j \<Longrightarrow> range_start a r i \<le> range_start a r j"
  by (induction j rule: nat_induct) (auto simp: range_start_Suc le_Suc_eq)

lemma range_start_all: "n \<noteq> 0 \<Longrightarrow> range_start (m div n) (m mod n) n = m"
  by (simp add: range_start_def min_absorb2 mod_le_divisor mult.commute)

lemma range_cover: "q < range_start a r n \<Longrightarrow> \<exists>j < n. range_start a r j \<le> q \<and> q < range_start a r (Suc j)"
proof (induction n)
  case 0
  then show ?case by (simp add: range_start_def)
next
  case (Suc n)
  then show ?case by (cases "q < range_start a r n") (auto intro: less_SucI)
qed

lemma in_slice:
  "p \<in> set (slice a r ps j) \<longleftrightarrow>
     (\<exists>q < length ps. ps ! q = p \<and> range_start a r j \<le> q \<and> q < range_start a r (Suc j))"
proof
  assume "p \<in> set (slice a r ps j)"
  then obtain k where "k < range_count a r j" "range_start a r j + k < length ps" "ps ! (range_start a r j + k) = p"
    by (auto simp: slice_def in_set_conv_nth)
  then show "\<exists>q < length ps. ps ! q = p \<and> range_start a r j \<le> q \<and> q < range_start a r (Suc j)"
    by (intro exI [of _ "range_start a r j + k"]) (simp add: range_start_Suc)
next
  assume "\<exists>q < length ps. ps ! q = p \<and> range_start a r j \<le> q \<and> q < range_start a r (Suc j)"
  then obtain q where "q < length ps" "ps ! q = p" "range_start a r j \<le> q" "q < range_start a r (Suc j)" by blast
  then show "p \<in> set (slice a r ps j)"
    by (auto simp: slice_def in_set_conv_nth range_start_Suc intro!: exI [of _ "q - range_start a r j"])
qed

lemma slices_partition:
  assumes "n \<noteq> 0" and "distinct ps" and "p \<in> set ps"
  shows "\<exists>!j. j < n \<and> p \<in> set (slice (length ps div n) (length ps mod n) ps j)"
proof -
  let ?a = "length ps div n" and ?r = "length ps mod n"
  obtain q where q: "q < length ps" "ps ! q = p" using assms(3) by (auto simp: in_set_conv_nth)
  then obtain j where j: "j < n" "range_start ?a ?r j \<le> q" "q < range_start ?a ?r (Suc j)"
    using range_cover [of q ?a ?r n] range_start_all [OF assms(1)] by auto
  show ?thesis
  proof (rule ex1I [of _ j])
    show "j < n \<and> p \<in> set (slice ?a ?r ps j)" using q j by (auto simp: in_slice)
  next
    fix k assume k: "k < n \<and> p \<in> set (slice ?a ?r ps k)"
    then obtain q' where "q' < length ps" "ps ! q' = p" "range_start ?a ?r k \<le> q'" "q' < range_start ?a ?r (Suc k)"
      by (auto simp: in_slice)
    moreover have "q' = q" using calculation(1,2) q nth_eq_iff_index_eq [OF assms(2), of q' q] by simp
    ultimately have "\<not> Suc k \<le> j" "\<not> Suc j \<le> k"
      using j(2,3) range_start_mono [of "Suc k" j ?a ?r] range_start_mono [of "Suc j" k ?a ?r] by linarith+
    then show "k = j" by simp
  qed
qed

lemma slice_subset: "set (slice a r ps j) \<subseteq> set ps"
  by (auto simp: slice_def dest: in_set_takeD in_set_dropD)

lemma slice_length:
  assumes "range_start a r (Suc j) \<le> length ps"
  shows "length (slice a r ps j) = range_count a r j"
  using assms by (simp add: slice_def range_start_Suc)

text \<open>The loop over the subscribers of a topic does not panic, and gives each its slice.\<close>

definition range_entry :: "nat \<Rightarrow> nat \<Rightarrow> string \<Rightarrow> int list \<Rightarrow> nat \<Rightarrow> topic_partition list" where
  "range_entry a r name ps j = (if range_count a r j = 0 then [] else [\<lparr>tp_topic = name, tp_partitions = slice a r ps j\<rparr>])"

lemma range_members_result:
  assumes "distinct is" and "\<forall>i \<in> set is. i < length plan" and "range_start a r (j + length is) \<le> length ps"
  shows "\<exists>plan'. range_members a r name ps j (range_start a r j) is plan = Inr plan' \<and> length plan' = length plan \<and>
    (\<forall>i. i \<notin> set is \<longrightarrow> plan' ! i = plan ! i) \<and>
    (\<forall>m < length is. plan' ! (is ! m) = plan ! (is ! m) @ range_entry a r name ps (j + m))"
  using assms
proof (induction "is" arbitrary: j plan)
  case Nil
  then show ?case by simp
next
  case (Cons i "is")
  let ?plan = "plan[i := plan ! i @ range_entry a r name ps j]"
  have le: "range_start a r (Suc j + length is) \<le> length ps" using Cons.prems(3) by simp
  have "distinct is" "\<forall>i \<in> set is. i < length ?plan" using Cons.prems(1,2) by auto
  from Cons.IH [OF this le] obtain plan' where IH:
    "range_members a r name ps (Suc j) (range_start a r (Suc j)) is ?plan = Inr plan'" "length plan' = length plan"
    "\<forall>k. k \<notin> set is \<longrightarrow> plan' ! k = ?plan ! k"
    "\<forall>m < length is. plan' ! (is ! m) = ?plan ! (is ! m) @ range_entry a r name ps (Suc j + m)" by auto
  have "range_start a r (Suc j) \<le> length ps"
    using le range_start_mono [of "Suc j" "Suc j + length is" a r] by simp
  then have run: "range_members a r name ps j (range_start a r j) (i # is) plan = Inr plan'"
    using IH(1) by (auto simp: Let_def range_start_Suc range_count_def range_entry_def slice_def split: if_splits)
  moreover have "plan' ! ((i # is) ! m) = plan ! ((i # is) ! m) @ range_entry a r name ps (j + m)" if "m < length (i # is)" for m
  proof (cases m)
    case 0
    then show ?thesis using IH(3) Cons.prems(1,2) by simp
  next
    case (Suc m')
    then have "is ! m' \<noteq> i" using that Cons.prems(1) by (auto dest: nth_mem)
    then show ?thesis using IH(4) that Suc by simp
  qed
  moreover have "plan' ! k = plan ! k" if "k \<notin> set (i # is)" for k using IH(3) that by simp
  ultimately show ?case using IH(2) by blast
qed

text \<open>The rank of a member among the subscribers of a topic, and its part of the topic.\<close>

definition rank :: "string list list \<Rightarrow> string \<Rightarrow> nat \<Rightarrow> nat" where
  "rank subs name i = length (filter (\<lambda>j. name \<in> set (subs ! j)) [0..<i])"

definition topic_share :: "string list list \<Rightarrow> metadata_topic \<Rightarrow> string \<Rightarrow> nat \<Rightarrow> int list" where
  "topic_share subs t name i =
     (let ps = topic_partitions_sorted t; n = length (subscribed subs name)
      in slice (length ps div n) (length ps mod n) ps (rank subs name i))"

definition range_part :: "string list list \<Rightarrow> nat \<Rightarrow> metadata_topic \<Rightarrow> topic_partition list" where
  "range_part subs i t =
     (case mt_name t of
        None \<Rightarrow> []
      | Some name \<Rightarrow>
          if name \<in> set (subs ! i) \<and> topic_share subs t name i \<noteq> []
          then [\<lparr>tp_topic = name, tp_partitions = topic_share subs t name i\<rparr>] else [])"

lemma subscribed_rank:
  assumes "i < length subs" and "name \<in> set (subs ! i)"
  shows "rank subs name i < length (subscribed subs name) \<and> subscribed subs name ! rank subs name i = i"
proof -
  have "[0..<length subs] = [0..<i] @ i # [Suc i..<length subs]"
    using assms(1) upt_add_eq_append [of 0 i "length subs - i"] by (simp add: upt_conv_Cons)
  then show ?thesis using assms(2) by (simp add: subscribed_def rank_def nth_append)
qed

lemma in_subscribed [simp]: "i \<in> set (subscribed subs name) \<longleftrightarrow> i < length subs \<and> name \<in> set (subs ! i)"
  by (auto simp: subscribed_def)

lemma distinct_subscribed [simp]: "distinct (subscribed subs name)"
  by (simp add: subscribed_def)

lemma rank_of_subscribed:
  assumes "j < length (subscribed subs name)"
  shows "rank subs name (subscribed subs name ! j) = j"
proof -
  let ?i = "subscribed subs name ! j"
  have "?i \<in> set (subscribed subs name)" using assms by (rule nth_mem)
  then have "rank subs name ?i < length (subscribed subs name)" "subscribed subs name ! rank subs name ?i = ?i"
    using subscribed_rank by auto
  then show ?thesis using assms nth_eq_iff_index_eq [OF distinct_subscribed] by blast
qed

lemma length_topic_share:
  assumes "i < length subs" and "name \<in> set (subs ! i)"
  shows "length (topic_share subs t name i) =
    range_count (length (topic_partitions_sorted t) div length (subscribed subs name))
      (length (topic_partitions_sorted t) mod length (subscribed subs name)) (rank subs name i)"
proof -
  let ?ps = "topic_partitions_sorted t" and ?n = "length (subscribed subs name)"
  have k: "rank subs name i < ?n" using subscribed_rank [OF assms] by simp
  then have n: "?n \<noteq> 0" by linarith
  have "range_start (length ?ps div ?n) (length ?ps mod ?n) (Suc (rank subs name i)) \<le> length ?ps"
    using range_start_mono [of "Suc (rank subs name i)" ?n "length ?ps div ?n" "length ?ps mod ?n"] range_start_all [OF n, of "length ?ps"] k by simp
  then show ?thesis by (simp add: topic_share_def Let_def slice_length)
qed

lemma range_topic_result:
  assumes "length plan = length subs"
  shows "range_topic subs t plan = Inr (map (\<lambda>i. plan ! i @ range_part subs i t) [0..<length subs])"
proof (cases "\<exists>name. mt_name t = Some name \<and> subscribed subs name \<noteq> []")
  case False
  then have "range_part subs i t = []" if "i < length subs" for i
    using that by (cases "mt_name t") (auto simp: range_part_def subscribed_def filter_empty_conv)
  then have "map (\<lambda>i. plan ! i @ range_part subs i t) [0..<length subs] = plan"
    using assms by (intro nth_equalityI) auto
  then show ?thesis using False by (cases "mt_name t") (auto simp: range_topic_def Let_def)
next
  case True
  then obtain name where name: "mt_name t = Some name" "subscribed subs name \<noteq> []" by blast
  let ?is = "subscribed subs name" and ?ps = "topic_partitions_sorted t"
  let ?n = "length ?is"
  let ?a = "length ?ps div ?n" and ?r = "length ?ps mod ?n"
  have "range_start ?a ?r ?n = length ?ps" using name(2) by (simp add: range_start_all)
  then obtain plan' where run: "range_members ?a ?r name ?ps 0 0 ?is plan = Inr plan'" "length plan' = length plan"
    "\<forall>i. i \<notin> set ?is \<longrightarrow> plan' ! i = plan ! i"
    "\<forall>m < ?n. plan' ! (?is ! m) = plan ! (?is ! m) @ range_entry ?a ?r name ?ps m"
    using range_members_result [of ?is plan ?a ?r 0 ?ps name] assms by (auto simp: range_start_def)
  have "plan' ! i = plan ! i @ range_part subs i t" if "i < length subs" for i
  proof (cases "name \<in> set (subs ! i)")
    case True
    let ?k = "rank subs name i"
    have k: "?k < ?n" "?is ! ?k = i" using subscribed_rank [OF that True] by auto
    have "length (topic_share subs t name i) = range_count ?a ?r ?k" using length_topic_share [OF that True] .
    then have "range_entry ?a ?r name ?ps ?k = range_part subs i t"
      unfolding range_entry_def range_part_def by (auto simp: True name(1) topic_share_def Let_def)
    then show ?thesis using run(4) k by metis
  next
    case False
    then show ?thesis using run(3) that by (simp add: range_part_def name(1))
  qed
  then have "plan' = map (\<lambda>i. plan ! i @ range_part subs i t) [0..<length subs]"
    using run(2) assms by (intro nth_equalityI) auto
  then show ?thesis using run(1) name by (simp add: range_topic_def Let_def)
qed

lemma range_topics_result:
  "length plan = length subs \<Longrightarrow>
   range_topics subs ts plan = Inr (map (\<lambda>i. plan ! i @ concat (map (range_part subs i) ts)) [0..<length subs])"
proof (induction ts arbitrary: plan)
  case Nil
  have "map (\<lambda>i. plan ! i) [0..<length subs] = plan" using Nil by (metis map_nth)
  then show ?case by simp
next
  case (Cons t ts)
  then show ?case by (simp add: range_topic_result cong: map_cong)
qed

lemma range_plan_result:
  "range_plan subs metadata =
     Inr (map (\<lambda>i. concat (map (range_part subs i) (case metadata of None \<Rightarrow> [] | Some ts \<Rightarrow> ts))) [0..<length subs])"
  unfolding range_plan_def by (simp add: range_topics_result cong: map_cong)


subsection \<open>Round robin\<close>

text \<open>Which member each partition goes to.\<close>

fun picks :: "string list list \<Rightarrow> topition list \<Rightarrow> nat \<Rightarrow> nat option list" where
  "picks subs [] counter = []"
| "picks subs (t # ts) counter =
     (let (pick, c) = next_member subs (topic t) (length subs) counter in pick # picks subs ts c)"

definition picked :: "nat \<Rightarrow> topition list \<Rightarrow> nat option list \<Rightarrow> topition list" where
  "picked i ts os = map fst (filter (\<lambda>(_, pick). pick = Some i) (zip ts os))"

lemma picked_simps [simp]:
  "picked i [] os = []"
  "picked i (t # ts) (pick # os) = (if pick = Some i then t # picked i ts os else picked i ts os)"
  by (simp_all add: picked_def)

lemma length_picks [simp]: "length (picks subs ts counter) = length ts"
  by (induction subs ts counter rule: picks.induct) (auto simp: Let_def split: prod.splits)

lemma next_member_Some:
  "next_member subs name k counter = (Some i, c) \<Longrightarrow> 0 < length subs \<Longrightarrow> i < length subs \<and> name \<in> set (subs ! i)"
  by (induction k arbitrary: counter) (auto simp: Let_def split: if_splits)

lemma next_member_None:
  "next_member subs name k counter = (None, c) \<Longrightarrow> m < k \<Longrightarrow> name \<notin> set (subs ! ((counter + m) mod length subs))"
proof (induction k arbitrary: counter m)
  case (Suc k)
  then show ?case using Suc.IH [of "Suc counter" "m - 1"] by (cases m) (auto simp: Let_def split: if_splits)
qed simp

lemma next_member_asks_all:
  assumes "next_member subs name (length subs) counter = (None, c)" and "i < length subs"
  shows "name \<notin> set (subs ! i)"
proof -
  let ?n = "length subs"
  let ?m = "(i + (?n - counter mod ?n)) mod ?n"
  have pos: "0 < ?n" using assms(2) by linarith
  then have "counter mod ?n < ?n" by (rule mod_less_divisor)
  then have "(counter mod ?n + (i + (?n - counter mod ?n))) mod ?n = i" using assms(2) by simp
  then have "(counter + ?m) mod ?n = i" by (simp add: mod_simps)
  moreover have "?m < ?n" using pos by (rule mod_less_divisor)
  ultimately show ?thesis using next_member_None [OF assms(1), of ?m] by simp
qed

lemma picks_subscribe:
  "q < length ts \<Longrightarrow> 0 < length subs \<Longrightarrow>
   (case picks subs ts counter ! q of
      None \<Rightarrow> \<forall>i < length subs. topic (ts ! q) \<notin> set (subs ! i)
    | Some i \<Rightarrow> i < length subs \<and> topic (ts ! q) \<in> set (subs ! i))"
proof (induction ts arbitrary: q counter)
  case (Cons t ts)
  obtain pick c where pc: "next_member subs (topic t) (length subs) counter = (pick, c)" by fastforce
  show ?case
  proof (cases q)
    case 0
    then show ?thesis
      using pc Cons.prems next_member_Some [of subs "topic t" "length subs" counter _ c]
        next_member_asks_all [of subs "topic t" counter c]
      by (cases pick) auto
  next
    case (Suc q')
    then show ?thesis using Cons.IH [of q' c] Cons.prems pc by (simp split: option.splits)
  qed
qed simp

lemma round_robin_loop_result:
  "length plan = length subs \<Longrightarrow>
   round_robin_loop subs ts counter plan =
     map (\<lambda>i. plan ! i @ picked i ts (picks subs ts counter)) [0..<length subs]"
proof (induction subs ts counter plan rule: round_robin_loop.induct)
  case (1 subs counter plan)
  then show ?case by (simp add: map_nth [symmetric] del: map_nth) (metis map_nth)
next
  case (2 subs t ts counter plan)
  obtain pick c where pc: "next_member subs (topic t) (length subs) counter = (pick, c)" by fastforce
  show ?case
  proof (cases pick)
    case None
    then show ?thesis using "2.IH"(1) [OF pc [symmetric, unfolded None]] "2.prems" pc by (simp cong: map_cong)
  next
    case (Some i)
    then show ?thesis
      using "2.IH"(2) [OF pc [symmetric, unfolded Some]] "2.prems" pc
      by (simp cong: map_cong add: nth_list_update)
  qed
qed

lemma in_picked:
  assumes "length os = length ts"
  shows "t \<in> set (picked i ts os) \<longleftrightarrow> (\<exists>q < length ts. ts ! q = t \<and> os ! q = Some i)"
  using assms by (auto simp: picked_def in_set_zip image_iff)

lemma distinct_picked: "distinct ts \<Longrightarrow> length os = length ts \<Longrightarrow> distinct (picked i ts os)"
  unfolding picked_def by (simp add: distinct_map_filter)


text \<open>Grouping the partitions of a member by topic keeps them.\<close>

definition pairs :: "topic_partition list \<Rightarrow> (string \<times> int) list" where
  "pairs tps = concat (map (\<lambda>tp. map (Pair (tp_topic tp)) (tp_partitions tp)) tps)"

lemma pairs_simps [simp]: "pairs [] = []" "pairs (x # xs) = map (Pair (tp_topic x)) (tp_partitions x) @ pairs xs"
  "pairs (xs @ ys) = pairs xs @ pairs ys"
  by (simp_all add: pairs_def)

lemma in_pairs: "(name, p) \<in> set (pairs tps) \<longleftrightarrow> (\<exists>tp \<in> set tps. tp_topic tp = name \<and> p \<in> set (tp_partitions tp))"
  by (auto simp: pairs_def)

lemma distinct_pairs:
  "distinct (map tp_topic tps) \<Longrightarrow> \<forall>tp \<in> set tps. distinct (tp_partitions tp) \<Longrightarrow> distinct (pairs tps)"
proof (induction tps)
  case (Cons a tps)
  have "tp_topic tp \<noteq> tp_topic a" if "tp \<in> set tps" for tp
    using imageI [OF that, of tp_topic] Cons.prems(1) by auto
  then show ?case using Cons by (auto simp: in_pairs distinct_map inj_on_def)
qed simp

lemma group_fold:
  "entry_or [] (fold (\<lambda>t m. fmupd (topic t) (entry_or [] m (topic t) @ [partition t]) m) ts m0) name =
     entry_or [] m0 name @ map partition (filter (\<lambda>t. topic t = name) ts)"
  by (induction ts arbitrary: m0) (auto simp: entry_or_def)

lemma group_fold_dom:
  "fmdom' (fold (\<lambda>t m. fmupd (topic t) (entry_or [] m (topic t) @ [partition t]) m) ts m0) = fmdom' m0 \<union> topic ` set ts"
  by (induction ts arbitrary: m0) auto

lemma group_topics_map:
  "group_topics ts = map (\<lambda>name. \<lparr>tp_topic = name, tp_partitions = map partition (filter (\<lambda>t. topic t = name) ts)\<rparr>)
     (sorted_list_of_set (topic ` set ts))"
proof -
  let ?m = "fold (\<lambda>t m. fmupd (topic t) (entry_or [] m (topic t) @ [partition t]) m) ts fmempty"
  have "entries ?m = map (\<lambda>k. (k, map partition (filter (\<lambda>t. topic t = k) ts))) (sorted_list_of_set (topic ` set ts))"
  proof (rule entries_unique)
    fix k v
    show "((k, v) \<in> set (map (\<lambda>k. (k, map partition (filter (\<lambda>t. topic t = k) ts))) (sorted_list_of_set (topic ` set ts))))
      = (fmlookup ?m k = Some v)"
    proof (cases "k \<in> topic ` set ts")
      case True
      then have "k \<in> fmdom' ?m" using group_fold_dom [of ts fmempty] by simp
      then obtain u where "fmlookup ?m k = Some u" unfolding fmlookup_dom'_iff by blast
      moreover from this have "u = map partition (filter (\<lambda>t. topic t = k) ts)"
        using group_fold [of ts fmempty k] by (simp add: entry_or_def [of _ ?m] entry_or_def [of _ fmempty])
      ultimately show ?thesis using True by auto
    next
      case False
      then have "k \<notin> fmdom' ?m" using group_fold_dom [of ts fmempty] by simp
      then have "fmlookup ?m k = None" unfolding fmlookup_dom'_iff by simp
      then show ?thesis using False by auto
    qed
  qed (auto simp: comp_def)
  then show ?thesis by (simp add: group_topics_def)
qed

lemma group_topics_distinct:
  assumes "distinct ts"
  shows "distinct (map tp_topic (group_topics ts)) \<and> (\<forall>tp \<in> set (group_topics ts). distinct (tp_partitions tp))"
proof -
  have "inj_on partition (set (filter (\<lambda>t. topic t = name) ts))" for name
    by (auto simp: inj_on_def intro: topition.expand)
  then show ?thesis using assms by (auto simp: group_topics_map comp_def distinct_map)
qed

lemma in_pairs_group: "(name, p) \<in> set (pairs (group_topics ts)) \<longleftrightarrow> Topition name p \<in> set ts"
proof -
  have "Topition name p \<in> set ts \<longleftrightarrow> (\<exists>t \<in> set ts. topic t = name \<and> partition t = p)" by force
  then show ?thesis by (auto simp: in_pairs group_topics_map)
qed

lemma length_pairs_group:
  assumes "distinct ts"
  shows "length (pairs (group_topics ts)) = length ts"
proof -
  have "set (pairs (group_topics ts)) = (\<lambda>t. (topic t, partition t)) ` set ts"
  proof (intro set_eqI)
    fix x :: "string \<times> int"
    show "x \<in> set (pairs (group_topics ts)) \<longleftrightarrow> x \<in> (\<lambda>t. (topic t, partition t)) ` set ts"
      by (cases x) (force simp: in_pairs_group)
  qed
  moreover have "inj_on (\<lambda>t. (topic t, partition t)) (set ts)" by (auto simp: inj_on_def intro: topition.expand)
  ultimately have "card (set (pairs (group_topics ts))) = card (set ts)" by (simp add: card_image)
  moreover have "distinct (pairs (group_topics ts))" using group_topics_distinct [OF assms] by (intro distinct_pairs) auto
  ultimately show ?thesis using assms by (simp add: distinct_card)
qed


subsection \<open>The division of the offered partitions\<close>

abbreviation topics_of :: "metadata_topic list option \<Rightarrow> metadata_topic list" where
  "topics_of metadata \<equiv> (case metadata of None \<Rightarrow> [] | Some ts \<Rightarrow> ts)"

abbreviation partitions_of :: "metadata_topic \<Rightarrow> int list" where
  "partitions_of t \<equiv> (case mt_partitions t of None \<Rightarrow> [] | Some l \<Rightarrow> l)"

definition offered :: "metadata_topic list option \<Rightarrow> string \<Rightarrow> int \<Rightarrow> bool" where
  "offered metadata name p \<longleftrightarrow> (\<exists>t \<in> set (topics_of metadata). mt_name t = Some name \<and> p \<in> set (partitions_of t))"

text \<open>A plan divides the offered partitions between the subscribers.\<close>

definition divides :: "string list list \<Rightarrow> metadata_topic list option \<Rightarrow> topic_partition list list \<Rightarrow> bool" where
  "divides subs metadata plan \<longleftrightarrow>
     length plan = length subs \<and>
     (\<forall>i < length subs. distinct (pairs (plan ! i)) \<and>
        (\<forall>(name, p) \<in> set (pairs (plan ! i)). name \<in> set (subs ! i) \<and> offered metadata name p)) \<and>
     (\<forall>name p. offered metadata name p \<and> (\<exists>i < length subs. name \<in> set (subs ! i)) \<longrightarrow>
        (\<exists>!i. i < length subs \<and> (name, p) \<in> set (pairs (plan ! i))))"

text \<open>What the decoder of an assignment accepts of the metadata.\<close>

definition metadata_ok :: "metadata_topic list option \<Rightarrow> bool" where
  "metadata_ok metadata \<longleftrightarrow>
     distinct (map mt_name (topics_of metadata)) \<and> length (topics_of metadata) \<le> 1024 \<and>
     (\<forall>t \<in> set (topics_of metadata). pred_option string_ok (mt_name t) \<and> list_all (fits_signed 32) (partitions_of t) \<and>
        length (partitions_of t) \<le> 1024)"

lemma offered_topic:
  assumes "metadata_ok metadata" and "offered metadata name p"
  shows "\<exists>!t. t \<in> set (topics_of metadata) \<and> mt_name t = Some name"
  using assms by (auto simp: offered_def metadata_ok_def distinct_map inj_on_def split: option.splits)

text \<open>Lists of topics that stay within those limits.\<close>

definition well_grouped :: "topic_partition list \<Rightarrow> bool" where
  "well_grouped tps \<longleftrightarrow> distinct (map tp_topic tps) \<and> (\<forall>tp \<in> set tps. distinct (tp_partitions tp) \<and> tp_partitions tp \<noteq> [])"

lemma well_grouped_pairs: "well_grouped tps \<Longrightarrow> distinct (pairs tps)"
  by (intro distinct_pairs) (auto simp: well_grouped_def)

lemma dividesI:
  assumes "length plan = length subs" and "list_all well_grouped plan"
    and "\<And>i name p. i < length subs \<Longrightarrow> (name, p) \<in> set (pairs (plan ! i)) \<Longrightarrow> name \<in> set (subs ! i) \<and> offered metadata name p"
    and "\<And>name p k. offered metadata name p \<Longrightarrow> k < length subs \<Longrightarrow> name \<in> set (subs ! k) \<Longrightarrow>
      \<exists>!i. i < length subs \<and> (name, p) \<in> set (pairs (plan ! i))"
  shows "divides subs metadata plan"
proof -
  have "distinct (pairs (plan ! i))" if "i < length subs" for i
    using assms(1,2) that by (auto simp: list_all_length intro: well_grouped_pairs)
  moreover have "\<forall>(name, p) \<in> set (pairs (plan ! i)). name \<in> set (subs ! i) \<and> offered metadata name p" if "i < length subs" for i
    using assms(3) that by auto
  moreover have "\<exists>!i. i < length subs \<and> (name, p) \<in> set (pairs (plan ! i))"
    if "offered metadata name p \<and> (\<exists>i < length subs. name \<in> set (subs ! i))" for name p
    using assms(4) that by blast
  ultimately show ?thesis unfolding divides_def using assms(1) by blast
qed

lemma well_grouped_ok:
  assumes "metadata_ok metadata" and "well_grouped tps"
    and within: "\<And>name p. (name, p) \<in> set (pairs tps) \<Longrightarrow> offered metadata name p"
  shows "assignment_ok \<lparr>ma_version = 3, ma_assigned_partitions = tps, ma_user_data = None\<rparr>"
proof -
  have topic: "\<exists>t \<in> set (topics_of metadata). mt_name t = Some (tp_topic tp) \<and> set (tp_partitions tp) \<subseteq> set (partitions_of t)"
    if tp: "tp \<in> set tps" for tp
  proof -
    have offered: "offered metadata (tp_topic tp) p" if "p \<in> set (tp_partitions tp)" for p
      using within [of "tp_topic tp" p] that tp by (auto simp: in_pairs)
    have "tp_partitions tp \<noteq> []" using assms(2) tp by (simp add: well_grouped_def)
    then have p: "hd (tp_partitions tp) \<in> set (tp_partitions tp)" by (rule hd_in_set)
    obtain t where t: "t \<in> set (topics_of metadata)" "mt_name t = Some (tp_topic tp)"
      and only: "\<And>t'. t' \<in> set (topics_of metadata) \<Longrightarrow> mt_name t' = Some (tp_topic tp) \<Longrightarrow> t' = t"
      using offered_topic [OF assms(1) offered [OF p]] by blast
    have "q \<in> set (partitions_of t)" if "q \<in> set (tp_partitions tp)" for q
      using offered [OF that] only unfolding offered_def by blast
    then show ?thesis using t by blast
  qed
  have "topic_partition_ok tp" if tp: "tp \<in> set tps" for tp
  proof -
    obtain t where t: "t \<in> set (topics_of metadata)" "mt_name t = Some (tp_topic tp)" "set (tp_partitions tp) \<subseteq> set (partitions_of t)"
      using topic [OF tp] by blast
    have ok: "string_ok (tp_topic tp)" "list_all (fits_signed 32) (partitions_of t)" "length (partitions_of t) \<le> 1024"
      using assms(1) t(1,2) by (auto simp: metadata_ok_def)
    have "length (tp_partitions tp) = card (set (tp_partitions tp))"
      using assms(2) tp by (simp add: well_grouped_def distinct_card)
    also have "\<dots> \<le> card (set (partitions_of t))" by (rule card_mono [OF finite_set t(3)])
    also have "\<dots> \<le> length (partitions_of t)" by (rule card_length)
    finally have "length (tp_partitions tp) \<le> 1024" using ok(3) by linarith
    moreover have "list_all (fits_signed 32) (tp_partitions tp)" using ok(2) t(3) unfolding list_all_iff by blast
    ultimately show ?thesis using ok(1) by (simp add: topic_partition_ok_def)
  qed
  moreover have "length tps \<le> 1024"
  proof -
    have "length tps = card (tp_topic ` set tps)"
      using assms(2) by (metis distinct_card length_map list.set_map well_grouped_def)
    also have "\<dots> = card (Some ` tp_topic ` set tps)" by (simp add: card_image)
    also have "\<dots> \<le> card (mt_name ` set (topics_of metadata))"
    proof (rule card_mono [OF finite_imageI [OF finite_set]], clarify)
      fix tp assume "tp \<in> set tps"
      then show "Some (tp_topic tp) \<in> mt_name ` set (topics_of metadata)" using topic by (metis imageI)
    qed
    also have "\<dots> \<le> length (topics_of metadata)" by (metis card_length length_map list.set_map)
    finally show ?thesis using assms(1) by (simp add: metadata_ok_def)
  qed
  ultimately show ?thesis by (simp add: assignment_ok_def list_all_iff fits_signed_def)
qed


lemma topic_partitions_sorted_set [simp]: "set (topic_partitions_sorted t) = set (partitions_of t)"
  "distinct (topic_partitions_sorted t)"
  by (simp_all only: topic_partitions_sorted_def set_sorted_list_of_set finite_set distinct_sorted_list_of_set)

lemma topic_share_within: "set (topic_share subs t name i) \<subseteq> set (partitions_of t)" "distinct (topic_share subs t name i)"
  using slice_subset [of _ _ "topic_partitions_sorted t"] by (auto simp: topic_share_def Let_def slice_def)

lemma topic_share_unique:
  assumes "p \<in> set (partitions_of t)" and "i < length subs" and "name \<in> set (subs ! i)"
  shows "\<exists>!i. i < length subs \<and> name \<in> set (subs ! i) \<and> p \<in> set (topic_share subs t name i)"
proof -
  let ?is = "subscribed subs name" and ?ps = "topic_partitions_sorted t"
  let ?slice = "slice (length ?ps div length ?is) (length ?ps mod length ?is) ?ps"
  have "length ?is \<noteq> 0" using subscribed_rank [OF assms(2,3)] by auto
  from slices_partition [OF this, of ?ps p] assms(1) obtain j where j: "j < length ?is" "p \<in> set (?slice j)"
    and only: "\<And>k. k < length ?is \<Longrightarrow> p \<in> set (?slice k) \<Longrightarrow> k = j" by auto
  have share: "topic_share subs t name k = ?slice (rank subs name k)" for k by (simp add: topic_share_def Let_def)
  show ?thesis
  proof (rule ex1I [of _ "?is ! j"])
    show "?is ! j < length subs \<and> name \<in> set (subs ! (?is ! j)) \<and> p \<in> set (topic_share subs t name (?is ! j))"
      using nth_mem [OF j(1)] j(2) rank_of_subscribed [OF j(1)] by (simp add: share)
  next
    fix k assume k: "k < length subs \<and> name \<in> set (subs ! k) \<and> p \<in> set (topic_share subs t name k)"
    then have "rank subs name k = j" using only subscribed_rank [of k subs name] share by metis
    then show "k = ?is ! j" using subscribed_rank [of k subs name] k by auto
  qed
qed

lemma in_range_part:
  "(name, p) \<in> set (pairs (concat (map (range_part subs i) ts))) \<longleftrightarrow>
   (\<exists>t \<in> set ts. mt_name t = Some name \<and> name \<in> set (subs ! i) \<and> p \<in> set (topic_share subs t name i))"
proof (induction ts)
  case (Cons t ts)
  then show ?case by (cases "mt_name t") (auto simp: range_part_def)
qed simp

lemma range_part_topics: "tp \<in> set (concat (map (range_part subs i) ts)) \<Longrightarrow> Some (tp_topic tp) \<in> mt_name ` set ts"
  by (auto simp: range_part_def split: option.splits if_splits intro: rev_image_eqI)

lemma range_part_grouped: "distinct (map mt_name ts) \<Longrightarrow> well_grouped (concat (map (range_part subs i) ts))"
proof (induction ts)
  case (Cons t ts)
  show ?case
  proof (cases "range_part subs i t")
    case Nil
    then show ?thesis using Cons by simp
  next
    case (Cons tp tps)
    then have tp: "mt_name t = Some (tp_topic tp)" "tps = []" "distinct (tp_partitions tp)" "tp_partitions tp \<noteq> []"
      using topic_share_within(2) by (auto simp: range_part_def split: option.splits if_splits)
    have "tp_topic tp' \<noteq> tp_topic tp" if "tp' \<in> set (concat (map (range_part subs i) ts))" for tp'
      using range_part_topics [OF that] Cons.prems tp(1) by auto
    then have "tp_topic tp \<notin> tp_topic ` set (concat (map (range_part subs i) ts))" by (metis imageE)
    then show ?thesis using Cons.IH Cons.prems Cons tp by (simp add: well_grouped_def)
  qed
qed (simp add: well_grouped_def)


lemma range_plan_divides:
  assumes "metadata_ok metadata"
  shows "\<exists>plan. range_plan subs metadata = Inr plan \<and> list_all well_grouped plan \<and> divides subs metadata plan"
proof -
  let ?ts = "topics_of metadata"
  let ?plan = "map (\<lambda>i. concat (map (range_part subs i) ?ts)) [0..<length subs]"
  have names: "distinct (map mt_name ?ts)" using assms by (simp add: metadata_ok_def)
  have grouped: "list_all well_grouped ?plan" using range_part_grouped [OF names] by (simp add: list_all_iff)
  have at: "?plan ! i = concat (map (range_part subs i) ?ts)" if "i < length subs" for i using that by simp
  have one: "\<exists>!i. i < length subs \<and> (name, p) \<in> set (pairs (?plan ! i))"
    if off: "offered metadata name p" and "k < length subs" "name \<in> set (subs ! k)" for name p k
  proof -
    obtain t where t: "t \<in> set ?ts" "mt_name t = Some name"
      and only: "\<And>t'. t' \<in> set ?ts \<Longrightarrow> mt_name t' = Some name \<Longrightarrow> t' = t"
      using offered_topic [OF assms off] by blast
    have p: "p \<in> set (partitions_of t)" using off only unfolding offered_def by blast
    have "(name, p) \<in> set (pairs (?plan ! i)) \<longleftrightarrow> name \<in> set (subs ! i) \<and> p \<in> set (topic_share subs t name i)"
      if "i < length subs" for i
      unfolding at [OF that] in_range_part using t only by blast
    then show ?thesis using topic_share_unique [OF p that(2,3)] by (metis (no_types, lifting))
  qed
  have sound: "name \<in> set (subs ! i) \<and> offered metadata name p"
    if "i < length subs" "(name, p) \<in> set (pairs (?plan ! i))" for i name p
    using that(2) topic_share_within(1) unfolding at [OF that(1)] in_range_part offered_def by blast
  have "divides subs metadata ?plan" using grouped sound one by (intro dividesI) auto
  then show ?thesis using grouped by (simp add: range_plan_result)
qed

lemma metadata_topitions_set: "Topition name p \<in> set (metadata_topitions metadata) \<longleftrightarrow> offered metadata name p"
proof -
  have "set (metadata_topitions metadata) = set (concat (map (\<lambda>t. case mt_name t of
           None \<Rightarrow> [] | Some name \<Rightarrow> map (Topition name) (partitions_of t)) (topics_of metadata)))"
    unfolding metadata_topitions_def by (rule set_sorted_list_of_set [OF finite_set])
  moreover have "Topition name p \<in> set (case mt_name t of None \<Rightarrow> [] | Some name \<Rightarrow> map (Topition name) (partitions_of t))
    \<longleftrightarrow> mt_name t = Some name \<and> p \<in> set (partitions_of t)" for t
    by (cases "mt_name t") auto
  ultimately show ?thesis unfolding offered_def by simp
qed

lemma distinct_metadata_topitions [simp]: "distinct (metadata_topitions metadata)"
  by (simp only: metadata_topitions_def distinct_sorted_list_of_set)

lemma round_robin_plan_at:
  "i < length subs \<Longrightarrow> round_robin_plan subs metadata ! i =
     group_topics (picked i (metadata_topitions metadata) (picks subs (metadata_topitions metadata) 0))"
  by (simp add: round_robin_plan_def round_robin_loop_result)

lemma group_topics_grouped: "distinct ts \<Longrightarrow> well_grouped (group_topics ts)"
  using group_topics_distinct [of ts] by (auto simp: well_grouped_def group_topics_map filter_empty_conv)

lemma round_robin_plan_divides:
  "list_all well_grouped (round_robin_plan subs metadata) \<and> divides subs metadata (round_robin_plan subs metadata)"
proof -
  let ?ts = "metadata_topitions metadata"
  let ?os = "picks subs ?ts 0"
  let ?plan = "round_robin_plan subs metadata"
  have len: "length ?plan = length subs" by (simp add: round_robin_plan_def round_robin_loop_result)
  have grouped: "list_all well_grouped ?plan"
    by (simp add: list_all_length len round_robin_plan_at group_topics_grouped distinct_picked)
  have held: "(name, p) \<in> set (pairs (?plan ! i)) \<longleftrightarrow> (\<exists>q < length ?ts. ?ts ! q = Topition name p \<and> ?os ! q = Some i)"
    if "i < length subs" for i name p
    using that by (simp add: round_robin_plan_at in_pairs_group in_picked)
  have sound: "name \<in> set (subs ! i) \<and> offered metadata name p"
    if i: "i < length subs" and h: "(name, p) \<in> set (pairs (?plan ! i))" for i name p
  proof -
    obtain q where q: "q < length ?ts" "?ts ! q = Topition name p" "?os ! q = Some i" using h held [OF i] by blast
    have "0 < length subs" using i by linarith
    then show ?thesis
      using picks_subscribe [OF q(1), of subs 0] q nth_mem [OF q(1)] by (simp add: metadata_topitions_set)
  qed
  have one: "\<exists>!i. i < length subs \<and> (name, p) \<in> set (pairs (?plan ! i))"
    if off: "offered metadata name p" and k: "k < length subs" "name \<in> set (subs ! k)" for name p k
  proof -
    obtain q where q: "q < length ?ts" "?ts ! q = Topition name p"
      using off metadata_topitions_set in_set_conv_nth by metis
    have "0 < length subs" using k(1) by linarith
    from picks_subscribe [OF q(1) this, of 0] obtain i where i: "?os ! q = Some i" "i < length subs"
      using q(2) k by (auto split: option.splits)
    show ?thesis
    proof (rule ex1I [of _ i])
      show "i < length subs \<and> (name, p) \<in> set (pairs (?plan ! i))" using held i q by blast
    next
      fix j assume j: "j < length subs \<and> (name, p) \<in> set (pairs (?plan ! j))"
      then obtain q' where "q' < length ?ts" "?ts ! q' = Topition name p" "?os ! q' = Some j" using held by blast
      moreover from this have "q' = q" using q nth_eq_iff_index_eq [OF distinct_metadata_topitions, of q' metadata q] by simp
      ultimately show "j = i" using i by simp
    qed
  qed
  have "divides subs metadata ?plan" using len grouped sound one by (intro dividesI) auto
  then show ?thesis using grouped by simp
qed

subsection \<open>The answer of an assignor\<close>

lemma encode_items_total:
  "(\<And>x. x \<in> set xs \<Longrightarrow> \<exists>b. enc x = Inr b) \<Longrightarrow> \<exists>bs. encode_items enc xs = Inr bs"
proof (induction xs)
  case (Cons x xs)
  then obtain b bs where "enc x = Inr b" "encode_items enc xs = Inr bs" by (metis list.set_intros)
  then show ?case by simp
qed simp

lemma array_encode_total:
  assumes "\<And>x. x \<in> set xs \<Longrightarrow> \<exists>b. enc x = Inr b" and "length xs \<le> 1024"
  shows "\<exists>bs. array_encode enc xs = Inr bs"
proof -
  obtain bs where "encode_items enc xs = Inr bs" using encode_items_total assms(1) by blast
  then show ?thesis using assms(2) by (simp add: array_encode_def)
qed

lemma topic_partition_encode_total: "topic_partition_ok tp \<Longrightarrow> \<exists>bs. topic_partition_encode tp = Inr bs"
  using array_encode_total [of "tp_partitions tp" i32_encode]
  by (auto simp: topic_partition_ok_def topic_partition_encode_def string_ok_def u16_string_encode_def i32_encode_def)

lemma assignment_round_trip:
  assumes "assignment_ok \<lparr>ma_version = 3, ma_assigned_partitions = tps, ma_user_data = None\<rparr>"
  shows "\<exists>bs. member_assignment_encode \<lparr>ma_version = 3, ma_assigned_partitions = tps, ma_user_data = None\<rparr> = Inr bs \<and>
    member_assignment_decode bs = (Inr \<lparr>ma_version = 3, ma_assigned_partitions = tps, ma_user_data = None\<rparr>, [])"
proof -
  obtain bs where "array_encode topic_partition_encode tps = Inr bs"
    using array_encode_total [of tps topic_partition_encode] topic_partition_encode_total assms
    by (auto simp: assignment_ok_def list_all_iff)
  then obtain out where "member_assignment_encode \<lparr>ma_version = 3, ma_assigned_partitions = tps, ma_user_data = None\<rparr> = Inr out"
    by (simp add: member_assignment_encode_def user_data_encode_def)
  then show ?thesis using assignment_codec.dec_enc [OF assms, of out "[]"] by simp
qed

definition read_back :: "sync_group_request_assignment list \<Rightarrow> ((error + member_assignment) \<times> bytes) list" where
  "read_back as = map (member_assignment_decode \<circ> assigned) as"

definition as_planned :: "topic_partition list list \<Rightarrow> ((error + member_assignment) \<times> bytes) list" where
  "as_planned plan = map (\<lambda>tps. (Inr \<lparr>ma_version = 3, ma_assigned_partitions = tps, ma_user_data = None\<rparr>, [])) plan"

lemma encode_assignments_result:
  "length ordered = length plan \<Longrightarrow>
   list_all (\<lambda>tps. assignment_ok \<lparr>ma_version = 3, ma_assigned_partitions = tps, ma_user_data = None\<rparr>) plan \<Longrightarrow>
   \<exists>as. encode_assignments ordered plan = Inr as \<and> map assignee as = map member_id ordered \<and> read_back as = as_planned plan"
proof (induction ordered plan rule: list_induct2)
  case Nil
  then show ?case by (simp add: encode_assignments_def read_back_def as_planned_def)
next
  case (Cons m ordered tps plan)
  then obtain as bs where "encode_assignments ordered plan = Inr as" "map assignee as = map member_id ordered" "read_back as = as_planned plan"
    "member_assignment_encode \<lparr>ma_version = 3, ma_assigned_partitions = tps, ma_user_data = None\<rparr> = Inr bs"
    "member_assignment_decode bs = (Inr \<lparr>ma_version = 3, ma_assigned_partitions = tps, ma_user_data = None\<rparr>, [])"
    using assignment_round_trip [of tps] by auto
  then show ?case by (auto simp: encode_assignments_def read_back_def as_planned_def)
qed

lemma length_all_results: "all_results rs = Inr xs \<Longrightarrow> length xs = length rs"
  by (induction rs arbitrary: xs rule: all_results.induct) (auto split: sum.splits)

lemma length_member_subs: "member_subs ordered = Inr subs \<Longrightarrow> length subs = length ordered"
  unfolding member_subs_def by (drule length_all_results) simp

text \<open>The plan behind each assignor.\<close>

definition plan_of :: "assignor \<Rightarrow> string list list \<Rightarrow> metadata_topic list option \<Rightarrow> topic_partition list list" where
  "plan_of a subs metadata =
     (if a = Range then map (\<lambda>i. concat (map (range_part subs i) (topics_of metadata))) [0..<length subs]
      else round_robin_plan subs metadata)"

lemma plan_of_divides:
  "metadata_ok metadata \<Longrightarrow> list_all well_grouped (plan_of a subs metadata) \<and> divides subs metadata (plan_of a subs metadata)"
  using range_plan_divides [of metadata subs] round_robin_plan_divides [of subs metadata]
  by (auto simp: plan_of_def range_plan_result)

lemma assign_result:
  assumes "metadata_ok metadata" and "member_subs (sorted_members ms) = Inr subs"
  shows "\<exists>as. assign a ms metadata = Inr as \<and> map assignee as = map member_id (sorted_members ms) \<and>
    read_back as = as_planned (plan_of a subs metadata)"
proof -
  let ?plan = "plan_of a subs metadata"
  have d: "list_all well_grouped ?plan" "divides subs metadata ?plan" using plan_of_divides [OF assms(1)] by auto
  have ok: "assignment_ok \<lparr>ma_version = 3, ma_assigned_partitions = ?plan ! i, ma_user_data = None\<rparr>" if i: "i < length ?plan" for i
  proof (rule well_grouped_ok [OF assms(1)])
    show "well_grouped (?plan ! i)" using d(1) i by (simp add: list_all_length)
    show "offered metadata name p" if "(name, p) \<in> set (pairs (?plan ! i))" for name p
      using d(2) i that unfolding divides_def by auto
  qed
  have "length (sorted_members ms) = length ?plan"
    using length_member_subs [OF assms(2)] d(2) by (simp add: divides_def)
  from encode_assignments_result [OF this] ok obtain as where
    "encode_assignments (sorted_members ms) ?plan = Inr as" "map assignee as = map member_id (sorted_members ms)" "read_back as = as_planned ?plan"
    by (auto simp: list_all_length)
  moreover have "assign a ms metadata = encode_assignments (sorted_members ms) ?plan"
    using assms(2) by (cases a) (simp_all add: range_assign_def round_robin_assign_def Let_def plan_of_def range_plan_result)
  ultimately show ?thesis by auto
qed

text \<open>C10: An assignor divides the partitions.  When every subscription decodes and the metadata names each topic once, within
  the limits of the consumer protocol, each of the four assignors answers, with one assignment per member in
  the order of the member ids.  The bytes decode to a plan in which every offered partition of a topic somebody
  subscribes to is held by exactly one member, once, and nobody holds a partition of a topic it does not subscribe to or that
  is not offered.\<close>

theorem assign_divides:
  assumes "metadata_ok metadata" and "member_subs (sorted_members ms) = Inr subs"
  shows "\<exists>as plan. assign a ms metadata = Inr as \<and> map assignee as = map member_id (sorted_members ms) \<and>
    read_back as = as_planned plan \<and> divides subs metadata plan"
  using assign_result [OF assms] plan_of_divides [OF assms(1)] by blast

section \<open>Balance\<close>

definition held_of :: "string \<Rightarrow> topic_partition list \<Rightarrow> nat" where
  "held_of name tps = length (filter (\<lambda>(n, _). n = name) (pairs tps))"

text \<open>Earlier members get at most one more than later ones, and never less.\<close>

definition balanced :: "nat set \<Rightarrow> (nat \<Rightarrow> nat) \<Rightarrow> bool" where
  "balanced is f \<longleftrightarrow> (\<forall>i \<in> is. \<forall>j \<in> is. i < j \<longrightarrow> f j \<le> f i \<and> f i \<le> Suc (f j))"

lemma range_count_balanced: "i \<le> j \<Longrightarrow> range_count a r j \<le> range_count a r i \<and> range_count a r i \<le> Suc (range_count a r j)"
  by (simp add: range_count_def)

lemma rank_mono: "i \<le> j \<Longrightarrow> rank subs name i \<le> rank subs name j"
  using upt_add_eq_append [of 0 i "j - i"] by (simp add: rank_def)

lemma held_of_append [simp]: "held_of name [] = 0" "held_of name (xs @ ys) = held_of name xs + held_of name ys"
  by (simp_all add: held_of_def)

lemma held_of_part:
  "held_of name (range_part subs i t) =
     (if mt_name t = Some name \<and> name \<in> set (subs ! i) then length (topic_share subs t name i) else 0)"
  by (cases "mt_name t") (auto simp: held_of_def range_part_def filter_empty_conv)

lemma range_balanced:
  assumes "distinct (map mt_name ts)"
  shows "balanced (set (subscribed subs name)) (\<lambda>i. held_of name (concat (map (range_part subs i) ts)))"
proof -
  have none: "held_of name (concat (map (range_part subs i) us)) = 0" if "Some name \<notin> mt_name ` set us" for us i
    using that by (induction us) (auto simp: held_of_part)
  have one: "held_of name (concat (map (range_part subs i) ts)) = length (topic_share subs t name i)"
    if t: "t \<in> set ts" "mt_name t = Some name" and "name \<in> set (subs ! i)" for t i
  proof -
    obtain us vs where us: "ts = us @ t # vs" using t(1) split_list by metis
    then have "Some name \<notin> mt_name ` set us" "Some name \<notin> mt_name ` set vs" using assms t(2) by auto
    then show ?thesis using that us by (simp add: none held_of_part)
  qed
  show ?thesis
  proof (cases "Some name \<in> mt_name ` set ts")
    case True
    then obtain t where t: "t \<in> set ts" "mt_name t = Some name" by auto
    show ?thesis
      unfolding balanced_def using range_count_balanced [OF rank_mono]
      by (simp add: one [OF t] length_topic_share)
  next
    case False
    then show ?thesis by (simp add: balanced_def none)
  qed
qed


lemma next_member_same:
  assumes "\<And>i. i < length subs \<Longrightarrow> set (subs ! i) = S" and "0 < length subs"
  shows "next_member subs name k counter =
    (if name \<in> S \<and> 0 < k then (Some (counter mod length subs), Suc counter) else (None, counter + k))"
  using assms by (induction k arbitrary: counter) (auto simp: Let_def)

lemma range_count_step:
  assumes "i < n"
  shows "range_count (Suc d div n) (Suc d mod n) i = range_count (d div n) (d mod n) i + (if i = d mod n then 1 else 0)"
  using assms by (auto simp: range_count_def mod_Suc div_Suc)

lemma round_robin_loop_sizes:
  assumes same: "\<And>i. i < length subs \<Longrightarrow> set (subs ! i) = S" and "0 < length subs"
  shows "length plan = length subs \<Longrightarrow> counter mod length subs = d mod length subs \<Longrightarrow>
    \<forall>i < length subs. length (plan ! i) = range_count (d div length subs) (d mod length subs) i \<Longrightarrow>
    \<exists>d'. \<forall>i < length subs. length (round_robin_loop subs ts counter plan ! i) = range_count (d' div length subs) (d' mod length subs) i"
proof (induction ts arbitrary: counter plan d)
  case Nil
  then show ?case by auto
next
  case (Cons t ts)
  let ?n = "length subs"
  note nm = next_member_same [OF same assms(2), of "topic t" ?n counter]
  show ?case
  proof (cases "topic t \<in> S")
    case True
    let ?c = "counter mod ?n"
    have "Suc counter mod ?n = Suc d mod ?n" using Cons.prems(2) by (metis mod_Suc_eq)
    moreover have "\<forall>i < ?n. length (plan[?c := plan ! ?c @ [t]] ! i) = range_count (Suc d div ?n) (Suc d mod ?n) i"
      using Cons.prems range_count_step [of _ ?n d] by (auto simp: nth_list_update)
    ultimately show ?thesis
      using Cons.IH [of "plan[?c := plan ! ?c @ [t]]" "Suc counter" "Suc d"] Cons.prems(1) nm True assms(2) by simp
  next
    case False
    then show ?thesis using Cons.IH [of plan "counter + ?n" d] Cons.prems nm by simp
  qed
qed

lemma round_robin_balanced:
  assumes "\<And>i. i < length subs \<Longrightarrow> set (subs ! i) = S"
  shows "balanced {..<length subs} (\<lambda>i. length (pairs (round_robin_plan subs metadata ! i)))"
proof (cases "length subs = 0")
  case False
  let ?ts = "metadata_topitions metadata" and ?n = "length subs"
  let ?loop = "round_robin_loop subs ?ts 0 (replicate ?n [])"
  have "\<forall>i < ?n. length (replicate ?n ([] :: topition list) ! i) = range_count (0 div ?n) (0 mod ?n) i"
    by (simp add: range_count_def)
  then obtain d where d: "\<forall>i < ?n. length (?loop ! i) = range_count (d div ?n) (d mod ?n) i"
    using round_robin_loop_sizes [OF assms, of "replicate ?n []" 0 0 ?ts] False by auto
  have "length (pairs (round_robin_plan subs metadata ! i)) = length (?loop ! i)" if "i < ?n" for i
    using that by (simp add: round_robin_plan_at length_pairs_group distinct_picked round_robin_loop_result)
  then show ?thesis using d range_count_balanced by (simp add: balanced_def)
qed (simp add: balanced_def)

text \<open>C28: The division is balanced.  Under the conditions of the division, the range assignor gives any two subscribers of a topic
  partition counts of that topic that differ by at most one, the earlier member id never the smaller.  The three
  others do so for the whole assignment, when all members subscribe to the same topics.\<close>

theorem assign_balanced:
  assumes "metadata_ok metadata" and "member_subs (sorted_members ms) = Inr subs"
  shows "\<exists>as plan. assign a ms metadata = Inr as \<and> read_back as = as_planned plan \<and>
    (if a = Range
     then \<forall>name. balanced {i. i < length subs \<and> name \<in> set (subs ! i)} (\<lambda>i. held_of name (plan ! i))
     else (\<forall>i < length subs. set (subs ! i) = set (subs ! 0)) \<longrightarrow>
       balanced {..<length subs} (\<lambda>i. length (pairs (plan ! i))))"
proof -
  let ?plan = "plan_of a subs metadata"
  obtain as where as: "assign a ms metadata = Inr as" "read_back as = as_planned ?plan" using assign_result [OF assms] by blast
  have names: "distinct (map mt_name (topics_of metadata))" using assms(1) by (simp add: metadata_ok_def)
  have "balanced {i. i < length subs \<and> name \<in> set (subs ! i)} (\<lambda>i. held_of name (?plan ! i))" if "a = Range" for name
    using range_balanced [OF names, of subs name] that by (simp add: balanced_def plan_of_def)
  moreover have "balanced {..<length subs} (\<lambda>i. length (pairs (?plan ! i)))"
    if "a \<noteq> Range" "\<forall>i < length subs. set (subs ! i) = set (subs ! 0)"
    using round_robin_balanced [of subs "set (subs ! 0)" metadata] that by (simp add: plan_of_def)
  ultimately show ?thesis using as by (intro exI [of _ as] exI [of _ ?plan]) simp
qed

section \<open>Witnesses\<close>

text \<open>Two members that subscribe to a topic of three partitions.\<close>

definition demo_member :: "string \<Rightarrow> join_group_response_member" where
  "demo_member i = \<lparr>member_id = i, group_instance_id = None, member_metadata = projr (member_subscription_encode demo_subscription)\<rparr>"

definition demo_members :: "join_group_response_member list" where
  "demo_members = [demo_member ''b'', demo_member ''a'']"

definition demo_metadata :: "metadata_topic list option" where
  "demo_metadata = Some [\<lparr>mt_name = Some ''t0'', mt_partitions = Some [2, 0, 1]\<rparr>]"

lemma demo_metadata_ok: "metadata_ok demo_metadata"
  by (simp add: metadata_ok_def demo_metadata_def string_ok_def fits_signed_def utf8_def between_def)

lemma demo_member_topics: "member_topics (demo_member i) = Inr [''t0'']"
proof -
  let ?w = "V1 [''t0''] None []"
  have w: "to_wire demo_subscription = Inr ?w"
    by (simp add: to_wire_def demo_subscription_def subscription_default_def)
  have ok: "subscription_ok (ms_subscription demo_subscription)"
    by (simp add: subscription_ok_def demo_subscription_def subscription_default_def string_ok_def utf8_def between_def)
  obtain bs where bs: "concat_fields (wire_fields ?w) = Inr bs"
    by (simp add: array_encode_def u16_string_encode_def user_data_encode_def)
  have "member_subscription_decode bs = (Inr (of_wire ?w), [])"
    using wire_round_trip [OF ok w bs, of "[]"] by (simp add: member_subscription_decode_def)
  then show ?thesis by (simp add: member_topics_def demo_member_def member_subscription_encode_def w bs del: wire_fields.simps concat_fields.simps)
qed

lemma demo_sorted: "sorted_members demo_members = [demo_member ''a'', demo_member ''b'']"
  by (simp add: sorted_members_def demo_members_def demo_member_def)

lemma demo_subs: "member_subs (sorted_members demo_members) = Inr [[''t0''], [''t0'']]"
  by (simp add: demo_sorted member_subs_def demo_member_topics)

theorem assign_divides_witness:
  "\<exists>as plan. assign Range demo_members demo_metadata = Inr as \<and> map assignee as = [''a'', ''b''] \<and>
     read_back as = as_planned plan \<and> divides [[''t0''], [''t0'']] demo_metadata plan"
  using assign_divides [OF demo_metadata_ok demo_subs, of Range] by (simp add: demo_sorted demo_member_def)

theorem assign_balanced_witness:
  "(\<exists>as plan. assign Range demo_members demo_metadata = Inr as \<and> read_back as = as_planned plan \<and>
      balanced {0, 1} (\<lambda>i. held_of ''t0'' (plan ! i))) \<and>
   (\<exists>as plan. assign CooperativeSticky demo_members demo_metadata = Inr as \<and> read_back as = as_planned plan \<and>
      balanced {..<2} (\<lambda>i. length (pairs (plan ! i))))"
proof -
  have s: "{i. i < length [[''t0''], [''t0'']] \<and> ''t0'' \<in> set ([[''t0''], [''t0'']] ! i)} = {0, 1}" by (auto simp: less_Suc_eq)
  have "\<exists>as plan. assign Range demo_members demo_metadata = Inr as \<and> read_back as = as_planned plan \<and>
      balanced {0, 1} (\<lambda>i. held_of ''t0'' (plan ! i))"
    using assign_balanced [OF demo_metadata_ok demo_subs, of Range] unfolding s [symmetric] by (simp del: assign.simps) blast
  moreover have "\<forall>i < length [[''t0''], [''t0'']]. set ([[''t0''], [''t0'']] ! i) = set ([[''t0''], [''t0'']] ! 0)"
    by (auto simp: less_Suc_eq)
  ultimately show ?thesis
    using assign_balanced [OF demo_metadata_ok demo_subs, of CooperativeSticky] by (simp del: assign.simps add: numeral_2_eq_2)
qed

end
