(* ===== verification/Consumer_Spec.thy ===== *)
theory Consumer_Spec
  imports Group_Consumer Assignor_Spec Group_Spec
begin

text \<open>
  The consumers of a group together with its coordinator: each \<open>GroupConsumer\<close> is linked to the state machine of
  \<open>Group_State\<close> by one message that is under way.  The invariant says what each consumer knows and holds; it gives that
  no partition is consumed twice.
\<close>

section \<open>Consumers and their coordinator\<close>

text \<open>What the broker passes to the coordinator; the client id is in the header of the frame.\<close>

definition coordinator_join :: "string option \<Rightarrow> consumer_join_request \<Rightarrow> join_request" where
  "coordinator_join client q =
     \<lparr>jq_client_id = client, jq_session_timeout_ms = cj_session_timeout_ms q,
      jq_rebalance_timeout_ms = cj_rebalance_timeout_ms q, jq_member_id = cj_member_id q,
      jq_group_instance_id = None, jq_protocol_type = cj_protocol_type q, jq_protocols = cj_protocols q\<rparr>"

text \<open>The consumers of a group, each with the message that is under way.\<close>

datatype mail = Idle | ToGroup client_request | ToConsumer body | Halted

record group_system =
  sy_group :: wrapper
  sy_consumers :: "group_consumer list"
  sy_mail :: "mail list"
  sy_issued :: "string fset"

fun input_of :: "mail \<Rightarrow> body option option" where
  "input_of Idle = Some None"
| "input_of (ToConsumer b) = Some (Some b)"
| "input_of _ = None"

definition set_consumer :: "nat \<Rightarrow> group_consumer \<Rightarrow> mail \<Rightarrow> group_system \<Rightarrow> group_system" where
  "set_consumer i c m s = s\<lparr>sy_consumers := (sy_consumers s)[i := c], sy_mail := (sy_mail s)[i := m]\<rparr>"

definition answered :: "nat \<Rightarrow> wrapper \<Rightarrow> body \<Rightarrow> group_system \<Rightarrow> group_system" where
  "answered i w b s = s\<lparr>sy_group := w, sy_mail := (sy_mail s)[i := ToConsumer b]\<rparr>"

text \<open>
  A consumer acts on what it received, or the coordinator handles a request, or the coordinator evicts
  silent members, handles a leave or a commit, or reads the group back from its store, or a consumer is lost and replaced by
  a new one.  The member ids that the coordinator makes up are new.
\<close>

inductive system_step :: "group_system \<Rightarrow> group_system \<Rightarrow> bool" where
  act: "i < length (sy_mail s) \<Longrightarrow> input_of (sy_mail s ! i) = Some input \<Longrightarrow>
    next_action input (sy_consumers s ! i) = (res, c) \<Longrightarrow>
    system_step s (set_consumer i c (case res of Inl _ \<Rightarrow> Halted | Inr q \<Rightarrow> ToGroup q) s)"
| handle_join: "i < length (sy_mail s) \<Longrightarrow> sy_mail s ! i = ToGroup (JoinGroupRequest q) \<Longrightarrow>
    w_join now uuid (coordinator_join client q) (sy_group s) = Inr (w, b) \<Longrightarrow>
    generated_member_id uuid client \<noteq> [] \<Longrightarrow> generated_member_id uuid client |\<notin>| sy_issued s \<Longrightarrow>
    system_step s ((answered i w b s)\<lparr>sy_issued := finsert (generated_member_id uuid client) (sy_issued s)\<rparr>)"
| handle_sync: "i < length (sy_mail s) \<Longrightarrow> sy_mail s ! i = ToGroup (SyncGroupRequest q) \<Longrightarrow>
    w_sync (sq_generation_id q) (sq_member_id q) (sq_assignments q) (sy_group s) = Inr (w, b) \<Longrightarrow>
    system_step s (answered i w b s)"
| handle_heartbeat: "i < length (sy_mail s) \<Longrightarrow> sy_mail s ! i = ToGroup (HeartbeatRequest g gen mid) \<Longrightarrow>
    w_heartbeat now gen mid (sy_group s) = (w, b) \<Longrightarrow>
    system_step s (answered i w b s)"
| evict: "system_step s (s\<lparr>sy_group := missed_heartbeat mid now (sy_group s)\<rparr>)"
| leave: "w_leave mids ids (sy_group s) = (w, b) \<Longrightarrow> system_step s (s\<lparr>sy_group := w\<rparr>)"
| commit: "w_fence now d (sy_group s) = (code, w) \<Longrightarrow> system_step s (s\<lparr>sy_group := w\<rparr>)"
| reload: "system_step s (s\<lparr>sy_group := with_storage_group_detail (group_detail_of (sy_group s))\<rparr>)"
| restart: "i < length (sy_mail s) \<Longrightarrow> metadata_ok metadata \<Longrightarrow>
    system_step s (set_consumer i (consumer_build g ts metadata callback rebalance session) Idle s)"

definition system_start :: "group_system \<Rightarrow> bool" where
  "system_start s \<longleftrightarrow> length (sy_mail s) = length (sy_consumers s) \<and> w_assignments (sy_group s) = None \<and>
     (\<forall>i < length (sy_mail s). sy_mail s ! i = Idle) \<and>
     list_all (\<lambda>c. gc_member_state c = Outsider None None None \<and> metadata_ok (gc_metadata c)) (sy_consumers s)"

section \<open>Exclusive assignments\<close>

definition apart :: "member_assignment \<Rightarrow> member_assignment \<Rightarrow> bool" where
  "apart a b \<longleftrightarrow> set (pairs (ma_assigned_partitions a)) \<inter> set (pairs (ma_assigned_partitions b)) = {}"

abbreviation reads_as :: "bytes \<Rightarrow> member_assignment \<Rightarrow> bool" where
  "reads_as bs a \<equiv> fst (member_assignment_decode bs) = Inr a"

definition exclusive :: "(string, bytes) fmap \<Rightarrow> bool" where
  "exclusive asg \<longleftrightarrow> (\<forall>m n b d x y. m \<noteq> n \<longrightarrow> fmlookup asg m = Some b \<longrightarrow> fmlookup asg n = Some d \<longrightarrow>
     reads_as b x \<longrightarrow> reads_as d y \<longrightarrow> apart x y)"

lemma exclusive_empty [simp]: "exclusive (collect_assignments [])"
  by (simp add: exclusive_def collect_assignments_def)

lemma divides_apart:
  assumes "divides subs metadata plan" and "i < length subs" "j < length subs" "i \<noteq> j"
  shows "set (pairs (plan ! i)) \<inter> set (pairs (plan ! j)) = {}"
proof -
  have False if x: "(name, p) \<in> set (pairs (plan ! i))" and y: "(name, p) \<in> set (pairs (plan ! j))" for name p
  proof -
    have "name \<in> set (subs ! i)" "offered metadata name p" using assms(1,2) x unfolding divides_def by auto
    then have "\<exists>!k. k < length subs \<and> (name, p) \<in> set (pairs (plan ! k))" using assms(1,2) unfolding divides_def by blast
    then show False using assms(2-4) x y by blast
  qed
  then show ?thesis by auto
qed

lemma assign_exclusive:
  assumes "metadata_ok metadata" and "assign a ms metadata = Inr as"
  shows "exclusive (collect_assignments as)"
proof -
  obtain subs where subs: "member_subs (sorted_members ms) = Inr subs"
    using assms(2) by (cases a) (auto simp: range_assign_def round_robin_assign_def Let_def split: sum.splits)
  let ?plan = "plan_of a subs metadata"
  have plan: "divides subs metadata ?plan" using plan_of_divides [OF assms(1)] by blast
  then have len: "length ?plan = length subs" by (simp add: divides_def)
  have rb: "read_back as = as_planned ?plan" using assign_result [OF assms(1) subs, of a] assms(2) by simp
  then have "length as = length ?plan" by (metis read_back_def as_planned_def length_map)
  then have at: "i < length subs \<and> (reads_as (assigned (as ! i)) x \<longrightarrow> ma_assigned_partitions x = ?plan ! i)"
    if "i < length as" for i x
    using that len arg_cong [OF rb, of "\<lambda>l. l ! i"] by (auto simp: read_back_def as_planned_def)
  have index: "\<exists>i < length as. assignee (as ! i) = m \<and> assigned (as ! i) = b" if "fmlookup (collect_assignments as) m = Some b" for m b
  proof -
    have "map_of (rev (map (\<lambda>a. (assignee a, assigned a)) as)) m = Some b" using that by (simp add: lookup_collect_assignments)
    then have "(m, b) \<in> set (map (\<lambda>a. (assignee a, assigned a)) as)" by (metis map_of_SomeD set_rev)
    then show ?thesis by (auto simp: in_set_conv_nth)
  qed
  show ?thesis
    unfolding exclusive_def
  proof (intro allI impI)
    fix m n b d x y
    assume neq: "m \<noteq> n" and "fmlookup (collect_assignments as) m = Some b" "fmlookup (collect_assignments as) n = Some d"
      and r: "reads_as b x" "reads_as d y"
    then obtain i j where "i < length as" "assignee (as ! i) = m" "assigned (as ! i) = b"
      "j < length as" "assignee (as ! j) = n" "assigned (as ! j) = d" using index by metis
    then show "apart x y" using divides_apart [OF plan, of i j] at [of i x] at [of j y] neq r by (auto simp: apart_def)
  qed
qed

section \<open>The invariant\<close>

fun membership :: "member_state \<Rightarrow> (int \<times> string) option" where
  "membership (Outsider gen mid ma) = None"
| "membership (Follower gen mid ma) = Some (gen, mid)"
| "membership (Leader gen mid ma) = Some (gen, mid)"

lemma membership_id: "membership st = Some (gen, mid) \<Longrightarrow> ms_member_id st = Some mid"
  by (cases st) auto

text \<open>The assignments a consumer has in a generation: the one it holds, and the one that is on its way.\<close>

definition in_hand :: "mail \<Rightarrow> bytes option" where
  "in_hand m = (case m of ToConsumer (SyncGroupResponse r) \<Rightarrow>
     if sr_error_code r = NoError then Some (sr_assignment r) else None | _ \<Rightarrow> None)"

definition claims :: "group_consumer \<Rightarrow> mail \<Rightarrow> int \<Rightarrow> string \<Rightarrow> member_assignment \<Rightarrow> bool" where
  "claims c m gen mid a \<longleftrightarrow> membership (gc_member_state c) = Some (gen, mid) \<and>
     (ms_member_assignment (gc_member_state c) = Some a \<or> (\<exists>b. in_hand m = Some b \<and> reads_as b a))"

definition knows :: "group_consumer \<Rightarrow> mail \<Rightarrow> string \<Rightarrow> bool" where
  "knows c m mid \<longleftrightarrow> ms_member_id (gc_member_state c) = Some mid \<or>
     (\<exists>r. m = ToConsumer (JoinGroupResponse r) \<and> jr_error_code r \<in> {NoError, MemberIdRequired} \<and> jr_member_id r = mid)"

lemma claims_knows: "claims c m gen mid a \<Longrightarrow> knows c m mid"
  by (auto simp: claims_def knows_def dest: membership_id)

fun request_ok :: "group_consumer \<Rightarrow> client_request \<Rightarrow> bool" where
  "request_ok c (JoinGroupRequest q) \<longleftrightarrow> is_outsider (gc_member_state c) \<and>
     cj_member_id q = (case ms_member_id (gc_member_state c) of None \<Rightarrow> [] | Some mid \<Rightarrow> mid)"
| "request_ok c (SyncGroupRequest q) \<longleftrightarrow> membership (gc_member_state c) = Some (sq_generation_id q, sq_member_id q) \<and>
     (\<forall>as. sq_assignments q = Some as \<longrightarrow> exclusive (collect_assignments as))"
| "request_ok c (HeartbeatRequest g gen mid) \<longleftrightarrow> membership (gc_member_state c) = Some (gen, mid)"

definition assigned_by :: "wrapper \<Rightarrow> string \<Rightarrow> member_assignment \<Rightarrow> bool" where
  "assigned_by w mid a \<longleftrightarrow> (\<exists>asg b. w_assignments w = Some asg \<and> fmlookup asg mid = Some b \<and> reads_as b a)"

definition group_exclusive :: "wrapper \<Rightarrow> bool" where
  "group_exclusive w \<longleftrightarrow> (\<forall>asg. w_assignments w = Some asg \<longrightarrow> exclusive asg)"

definition consumer_ok :: "group_consumer \<Rightarrow> mail \<Rightarrow> bool" where
  "consumer_ok c m \<longleftrightarrow> metadata_ok (gc_metadata c) \<and> (\<forall>q. m = ToGroup q \<longrightarrow> request_ok c q)"

definition system_ok :: "group_system \<Rightarrow> bool" where
  "system_ok s \<longleftrightarrow> length (sy_mail s) = length (sy_consumers s) \<and> group_exclusive (sy_group s) \<and>
     (\<forall>i < length (sy_mail s). consumer_ok (sy_consumers s ! i) (sy_mail s ! i)) \<and>
     (\<forall>i < length (sy_mail s). \<forall>mid. knows (sy_consumers s ! i) (sy_mail s ! i) mid \<longrightarrow> mid \<noteq> [] \<and> mid |\<in>| sy_issued s) \<and>
     (\<forall>i < length (sy_mail s). \<forall>j < length (sy_mail s). \<forall>mid.
        knows (sy_consumers s ! i) (sy_mail s ! i) mid \<longrightarrow> knows (sy_consumers s ! j) (sy_mail s ! j) mid \<longrightarrow> i = j) \<and>
     (\<forall>i < length (sy_mail s). \<forall>gen mid a. claims (sy_consumers s ! i) (sy_mail s ! i) gen mid a \<longrightarrow>
        gen \<le> w_generation_id (sy_group s) \<and> (gen = w_generation_id (sy_group s) \<longrightarrow> assigned_by (sy_group s) mid a)) \<and>
     (\<forall>i < length (sy_mail s). \<forall>j < length (sy_mail s). \<forall>gen mid mid' a b.
        i \<noteq> j \<longrightarrow> claims (sy_consumers s ! i) (sy_mail s ! i) gen mid a \<longrightarrow>
        claims (sy_consumers s ! j) (sy_mail s ! j) gen mid' b \<longrightarrow> apart a b)"

lemma assigned_by_advances:
  assumes "advances w w'" and "gen \<le> w_generation_id w" and "gen = w_generation_id w \<Longrightarrow> assigned_by w mid a"
  shows "gen \<le> w_generation_id w' \<and> (gen = w_generation_id w' \<longrightarrow> assigned_by w' mid a)"
  using assms by (auto simp: advances_def assigned_by_def)

lemma assigned_by_apart:
  "group_exclusive w \<Longrightarrow> assigned_by w m a \<Longrightarrow> assigned_by w n b \<Longrightarrow> m \<noteq> n \<Longrightarrow> apart a b"
  unfolding group_exclusive_def assigned_by_def exclusive_def by (metis option.inject)

lemma apart_sym: "apart a b \<Longrightarrow> apart b a"
  by (auto simp: apart_def)

text \<open>What a step has to show: it changes at most the \<open>i\<close>-th consumer, which learns at most a new member
  id, and gets at most an assignment that the group lists in its current generation.\<close>

lemma system_ok_update:
  assumes ok: "system_ok s" and adv: "advances (sy_group s) (sy_group s')" and ex: "group_exclusive (sy_group s')"
    and issued: "sy_issued s |\<subseteq>| sy_issued s'"
    and len: "length (sy_mail s') = length (sy_mail s)" "length (sy_consumers s') = length (sy_mail s)"
    and other: "\<And>j. j \<noteq> i \<Longrightarrow> sy_mail s' ! j = sy_mail s ! j \<and> sy_consumers s' ! j = sy_consumers s ! j"
    and self: "i < length (sy_mail s) \<Longrightarrow> consumer_ok (sy_consumers s' ! i) (sy_mail s' ! i)"
    and learns: "\<And>mid. i < length (sy_mail s) \<Longrightarrow> knows (sy_consumers s' ! i) (sy_mail s' ! i) mid \<Longrightarrow>
      knows (sy_consumers s ! i) (sy_mail s ! i) mid \<or> mid \<noteq> [] \<and> mid |\<notin>| sy_issued s \<and> mid |\<in>| sy_issued s'"
    and gets: "\<And>gen mid a. i < length (sy_mail s) \<Longrightarrow> claims (sy_consumers s' ! i) (sy_mail s' ! i) gen mid a \<Longrightarrow>
      claims (sy_consumers s ! i) (sy_mail s ! i) gen mid a \<or>
      gen = w_generation_id (sy_group s') \<and> assigned_by (sy_group s') mid a"
  shows "system_ok s'"
proof -
  let ?n = "length (sy_mail s)"
  have k: "knows (sy_consumers s ! j) (sy_mail s ! j) mid \<or> j = i \<and> mid \<noteq> [] \<and> mid |\<notin>| sy_issued s \<and> mid |\<in>| sy_issued s'"
    if "j < ?n" "knows (sy_consumers s' ! j) (sy_mail s' ! j) mid" for j mid
    using learns [of mid] other [of j] that by (cases "j = i") auto
  have old: "mid \<noteq> [] \<and> mid |\<in>| sy_issued s" if "j < ?n" "knows (sy_consumers s ! j) (sy_mail s ! j) mid" for j mid
    using ok that unfolding system_ok_def by blast
  have c: "claims (sy_consumers s ! j) (sy_mail s ! j) gen mid a \<or> j = i \<and> gen = w_generation_id (sy_group s') \<and> assigned_by (sy_group s') mid a"
    if "j < ?n" "claims (sy_consumers s' ! j) (sy_mail s' ! j) gen mid a" for j gen mid a
    using gets [of gen mid a] other [of j] that by (cases "j = i") auto
  have known: "mid \<noteq> [] \<and> mid |\<in>| sy_issued s'" if "j < ?n" "knows (sy_consumers s' ! j) (sy_mail s' ! j) mid" for j mid
    using k [OF that] old [OF that(1)] issued by blast
  have unique: "j = l"
    if jl: "j < ?n" "l < ?n" "knows (sy_consumers s' ! j) (sy_mail s' ! j) mid" "knows (sy_consumers s' ! l) (sy_mail s' ! l) mid" for j l mid
  proof -
    have "knows (sy_consumers s ! j) (sy_mail s ! j) mid \<and> knows (sy_consumers s ! l) (sy_mail s ! l) mid \<or> j = i \<and> l = i"
      using k [OF jl(1,3)] k [OF jl(2,4)] old [OF jl(1)] old [OF jl(2)] by blast
    then show ?thesis using ok jl(1,2) unfolding system_ok_def by blast
  qed
  have current: "gen \<le> w_generation_id (sy_group s') \<and> (gen = w_generation_id (sy_group s') \<longrightarrow> assigned_by (sy_group s') mid a)"
    if "j < ?n" "claims (sy_consumers s' ! j) (sy_mail s' ! j) gen mid a" for j gen mid a
  proof -
    have "gen \<le> w_generation_id (sy_group s) \<and> (gen = w_generation_id (sy_group s) \<longrightarrow> assigned_by (sy_group s) mid a)"
      if "claims (sy_consumers s ! j) (sy_mail s ! j) gen mid a" using ok \<open>j < ?n\<close> that unfolding system_ok_def by blast
    then show ?thesis using c [OF that] assigned_by_advances [OF adv] by blast
  qed
  have "apart a b"
    if jl: "j < ?n" "l < ?n" "j \<noteq> l" and cl: "claims (sy_consumers s' ! j) (sy_mail s' ! j) gen mid a"
      "claims (sy_consumers s' ! l) (sy_mail s' ! l) gen mid' b" for j l gen mid mid' a b
  proof (cases "gen = w_generation_id (sy_group s')")
    case True
    have "mid \<noteq> mid'" using unique [OF jl(1,2)] jl(3) claims_knows [OF cl(1)] claims_knows [OF cl(2)] by blast
    then show ?thesis
      using current [OF jl(1) cl(1)] current [OF jl(2) cl(2)] True assigned_by_apart [OF ex] by blast
  next
    case False
    then have "claims (sy_consumers s ! j) (sy_mail s ! j) gen mid a" "claims (sy_consumers s ! l) (sy_mail s ! l) gen mid' b"
      using c [OF jl(1) cl(1)] c [OF jl(2) cl(2)] by auto
    then show ?thesis using ok jl unfolding system_ok_def by blast
  qed
  moreover have "consumer_ok (sy_consumers s' ! j) (sy_mail s' ! j)" if "j < ?n" for j
    using self other [of j] ok that unfolding system_ok_def by (cases "j = i") auto
  ultimately show ?thesis
    unfolding system_ok_def len using ex known unique current by blast
qed

subsection \<open>The steps\<close>

lemma count_error_sel [simp]:
  "gc_member_state (count_error code c) = gc_member_state c" "gc_metadata (count_error code c) = gc_metadata c"
  "gc_group_id (count_error code c) = gc_group_id c"
  by (simp_all add: count_error_def)

lemma become_sel [simp]:
  "gc_member_state (become st c) = st" "gc_metadata (become st c) = gc_metadata c" "gc_group_id (become st c) = gc_group_id c"
  "gc_on_assignment (become st c) = gc_on_assignment c"
  by (simp_all add: become_def)

lemma consumer_join_ok:
  "consumer_join c gen mid ma reason = Inr q \<Longrightarrow> is_outsider (gc_member_state c) \<Longrightarrow>
   ms_member_id (gc_member_state c) = mid \<Longrightarrow> request_ok c q"
  by (auto simp: consumer_join_def split: sum.splits)

lemma rejoin_ok:
  "rejoin gen mid ma reason c = (res, c') \<Longrightarrow> gc_metadata c' = gc_metadata c \<and> gc_member_state c' = Outsider gen mid ma \<and>
   (\<forall>q. res = Inr q \<longrightarrow> request_ok c' q)"
  by (auto simp: rejoin_def Let_def intro: consumer_join_ok)

definition acts_ok :: "group_consumer \<Rightarrow> mail \<Rightarrow> error + client_request \<Rightarrow> group_consumer \<Rightarrow> bool" where
  "acts_ok c m res c' \<longleftrightarrow> gc_metadata c' = gc_metadata c \<and> (\<forall>q. res = Inr q \<longrightarrow> request_ok c' q) \<and>
     (\<forall>mid. ms_member_id (gc_member_state c') = Some mid \<longrightarrow> knows c m mid) \<and>
     (\<forall>gen mid a. membership (gc_member_state c') = Some (gen, mid) \<longrightarrow>
        ms_member_assignment (gc_member_state c') = Some a \<longrightarrow> claims c m gen mid a)"

lemma on_join_ok:
  assumes "metadata_ok (gc_metadata c)" and "gc_member_state c = Outsider gen mid ma" and "on_join gen mid ma r c = (res, c')"
  shows "acts_ok c (ToConsumer (JoinGroupResponse r)) res c'"
proof -
  consider (other) "jr_error_code r \<noteq> NoError" "jr_error_code r \<noteq> MemberIdRequired"
    | (id) "jr_error_code r = MemberIdRequired"
    | (leader) "jr_error_code r = NoError" "jr_leader r = jr_member_id r"
    | (follower) "jr_error_code r = NoError" "jr_leader r \<noteq> jr_member_id r" by blast
  then show ?thesis
  proof cases
    case other
    then have "c' = (if jr_error_code r = NotCoordinator then count_error NotCoordinator c else c)"
      and "\<And>q. res = Inr q \<Longrightarrow> consumer_join (count_error NotCoordinator c) gen mid ma ''join'' = Inr q \<and> jr_error_code r = NotCoordinator"
      using assms(3) by (auto simp: on_join_def Let_def split: if_splits)
    then show ?thesis using assms(2) by (auto simp: acts_ok_def knows_def intro: consumer_join_ok)
  next
    case id
    then have "rejoin (Some (jr_generation_id r)) (Some (jr_member_id r)) ma ''join member id required'' (count_error MemberIdRequired c) = (res, c')"
      using assms(3) by (simp add: on_join_def)
    then show ?thesis using rejoin_ok id by (fastforce simp: acts_ok_def knows_def)
  next
    case leader
    then show ?thesis
      using assms assign_exclusive
      by (auto simp: on_join_def acts_ok_def knows_def Let_def sync_request_def split: sum.splits)
  next
    case follower
    then show ?thesis
      using assms by (auto simp: on_join_def acts_ok_def knows_def Let_def sync_request_def)
  qed
qed

lemma on_sync_ok:
  assumes "role = Leader \<or> role = Follower" and "gc_member_state c = role gen mid ma" and "on_sync role gen mid ma r c = (res, c')"
  shows "acts_ok c (ToConsumer (SyncGroupResponse r)) res c'"
proof -
  have m: "membership (role g i x) = Some (g, i)" "ms_member_id (role g i x) = Some i" "ms_member_assignment (role g i x) = x" for g i x
    using assms(1) by auto
  consider (good) a where "sr_error_code r = NoError" "reads_as (sr_assignment r) a" "sr_assignment r \<noteq> []"
    | (rebalance) "sr_error_code r = RebalanceInProgress" "sr_assignment r = []"
    | (stop) e where "res = Inl e" "gc_metadata c' = gc_metadata c" "gc_member_state c' = gc_member_state c"
    using assms(3) by (auto simp: on_sync_def Let_def split: if_splits sum.splits)
  then show ?thesis
  proof cases
    case good
    then have "res = Inr (HeartbeatRequest (gc_group_id c) gen mid)" "gc_metadata c' = gc_metadata c" "gc_member_state c' = role gen mid (Some a)"
      using assms(3) by (auto simp: on_sync_def Let_def split: if_splits)
    then show ?thesis using good assms(2) m by (auto simp: acts_ok_def knows_def claims_def in_hand_def)
  next
    case rebalance
    then have "rejoin None (Some mid) ma ''join after sync with rebalance'' (count_error RebalanceInProgress c) = (res, c')"
      using assms(3) by (simp add: on_sync_def)
    then show ?thesis using rejoin_ok assms(2) m by (fastforce simp: acts_ok_def knows_def)
  next
    case stop
    then show ?thesis using assms(2) m by (auto simp: acts_ok_def knows_def claims_def)
  qed
qed

lemma on_heartbeat_ok:
  assumes "membership (gc_member_state c) = Some (gen, mid)" and "ms_member_assignment (gc_member_state c) = ma"
    and "on_heartbeat gen mid ma code c = (res, c')"
  shows "acts_ok c (ToConsumer (HeartbeatResponse t code)) res c'"
proof -
  consider (unknown) "code = UnknownMemberId" | (rebalance) "code = RebalanceInProgress"
    | (stay) "gc_metadata c' = gc_metadata c" "gc_member_state c' = gc_member_state c" "\<And>q. res = Inr q \<Longrightarrow> q = HeartbeatRequest (gc_group_id c) gen mid"
    using assms(3) by (auto simp: on_heartbeat_def Let_def split: if_splits)
  then show ?thesis
  proof cases
    case unknown
    then have "rejoin None None None ''join after unknown member id'' (count_error UnknownMemberId c) = (res, c')"
      using assms(3) by (simp add: on_heartbeat_def)
    then show ?thesis using rejoin_ok by (fastforce simp: acts_ok_def knows_def)
  next
    case rebalance
    then have "rejoin (Some gen) (Some mid) ma ''join after rebalance'' (count_error RebalanceInProgress c) = (res, c')"
      using assms(3) by (simp add: on_heartbeat_def)
    then show ?thesis using rejoin_ok membership_id [OF assms(1)] by (fastforce simp: acts_ok_def knows_def)
  next
    case stay
    then show ?thesis using assms(1,2) by (auto simp: acts_ok_def knows_def claims_def)
  qed
qed

lemma next_action_ok:
  assumes "metadata_ok (gc_metadata c)" and "input_of m = Some input" and "next_action input c = (res, c')"
  shows "acts_ok c m res c'"
proof -
  have stop: "acts_ok c m (Inl e) c" for e
    by (auto simp: acts_ok_def knows_def claims_def)
  consider "input = None" "m = Idle" | b where "input = Some b" "m = ToConsumer b"
    using assms(2) by (cases m) auto
  then show ?thesis
  proof cases
    case 1
    then show ?thesis
      using assms(3) stop
      by (cases "gc_member_state c") (auto simp: next_action_def acts_ok_def knows_def intro: consumer_join_ok)
  next
    case 2
    show ?thesis
    proof (cases "gc_member_state c")
      case (Outsider gen mid ma)
      then show ?thesis using assms 2 stop on_join_ok [OF assms(1) Outsider] by (cases b) (auto simp: next_action_def)
    next
      case (Follower gen mid ma)
      then show ?thesis
        using assms 2 stop on_sync_ok [of Follower c gen mid ma] on_heartbeat_ok [of c gen mid ma] by (cases b) (auto simp: next_action_def)
    next
      case (Leader gen mid ma)
      then show ?thesis
        using assms 2 stop on_sync_ok [of Leader c gen mid ma] on_heartbeat_ok [of c gen mid ma] by (cases b) (auto simp: next_action_def)
    qed
  qed
qed

lemma w_join_answer:
  assumes "w_join now uuid q w = Inr (w', b)" and "jq_group_instance_id q = None"
  shows "\<exists>r. b = JoinGroupResponse r \<and>
    (jr_error_code r = NoError \<longrightarrow> jr_member_id r = jq_member_id q \<and> jq_member_id q \<noteq> []) \<and>
    (jr_error_code r = MemberIdRequired \<longrightarrow> jr_member_id r = generated_member_id uuid (jq_client_id q))"
proof (cases w)
  case (Wrapper_Forming i)
  then show ?thesis
    using assms
    by (auto simp: w_join_def forming_join_def forming_join_id_required_def forming_join_member_def joining_member_id_def Let_def
        split: option.splits list.splits if_splits sum.splits)
next
  case (Wrapper_Formed i)
  then show ?thesis
    using assms
    by (auto simp: w_join_def formed_join_def formed_join_id_required_def formed_join_update_def formed_join_new_def
        joining_member_id_def joined_body_def Let_def split: option.splits if_splits)
qed

lemma w_sync_answer:
  assumes "w_sync gen mid as w = Inr (w', b)"
  shows "\<exists>r. b = SyncGroupResponse r \<and> (sr_error_code r = NoError \<longrightarrow> gen = w_generation_id w' \<and>
    w_assignments w' \<noteq> None \<and> sr_assignment r = (case fmlookup (the (w_assignments w')) mid of Some a \<Rightarrow> a | None \<Rightarrow> []))"
  using assms
  by (cases w) (auto simp: w_sync_def forming_sync_def formed_sync_def Let_def split: option.splits if_splits)

lemma w_sync_assignments:
  assumes "w_sync gen mid as w = Inr (w', b)" and "w_assignments w' = Some asg"
  shows "w_assignments w = Some asg \<or> (\<exists>l. as = Some l \<and> asg = collect_assignments l)"
  using assms
  by (cases w) (auto simp: w_sync_def forming_sync_def formed_sync_def Let_def split: option.splits if_splits)

text \<open>Only a sync forms a group.\<close>

lemma w_join_assignments:
  "w_join now uuid q w = Inr (w', b) \<Longrightarrow> w_assignments w' = Some asg \<Longrightarrow> w_assignments w = Some asg"
  by (cases w)
    (auto simp: w_join_def formed_join_def formed_join_id_required_def formed_join_update_def formed_join_new_def Let_def
      split: option.splits if_splits sum.splits)

lemma w_heartbeat_assignments:
  "w_heartbeat now gen mid w = (w', b) \<Longrightarrow> w_assignments w' = Some asg \<Longrightarrow> w_assignments w = Some asg"
  by (cases w)
    (auto simp: w_heartbeat_def formed_heartbeat_def formed_missed_heartbeat_def touch_def evict_members_def
      update_last_contact_def Let_def map_prod_def split: if_splits prod.splits)

lemma missed_heartbeat_assignments:
  "w_assignments (missed_heartbeat mid now w) = Some asg \<Longrightarrow> w_assignments w = Some asg"
  by (cases w)
    (auto simp: missed_heartbeat_def formed_missed_heartbeat_def evict_members_def update_last_contact_def Let_def
      split: if_splits prod.splits)

lemma w_leave_assignments: "w_leave mids ids w = (w', b) \<Longrightarrow> w_assignments w' = Some asg \<Longrightarrow> w_assignments w = Some asg"
  by (cases w) (auto simp: w_leave_def forming_leave_def formed_leave_def Let_def split: if_splits prod.splits)

lemma w_fence_assignments: "w_fence now d w = (code, w') \<Longrightarrow> w_assignments w' = Some asg \<Longrightarrow> w_assignments w = Some asg"
  by (cases w) (auto simp: w_fence_def offset_commit_fence_def touch_def Let_def split: if_splits prod.splits)

lemma reload_keeps:
  "w_assignments (with_storage_group_detail (group_detail_of w)) = w_assignments w"
  "w_generation_id (with_storage_group_detail (group_detail_of w)) = w_generation_id w"
  by (cases w; simp add: reload_forming reload_formed)+

lemma empty_unreadable: "\<not> reads_as [] a"
  by (simp add: member_assignment_decode_def and_then_def read_signed_def)

lemma system_ok_group:
  assumes "system_ok s" and "advances (sy_group s) w" and "\<And>asg. w_assignments w = Some asg \<Longrightarrow> w_assignments (sy_group s) = Some asg"
  shows "system_ok (s\<lparr>sy_group := w\<rparr>)"
proof (rule system_ok_update [OF assms(1), of _ 0])
  show "group_exclusive (sy_group (s\<lparr>sy_group := w\<rparr>))"
    using assms(1,3) by (auto simp: system_ok_def group_exclusive_def)
qed (use assms in \<open>auto simp: system_ok_def\<close>)

lemma system_ok_act:
  assumes "system_ok s" and "i < length (sy_mail s)" and "input_of (sy_mail s ! i) = Some input"
    and "next_action input (sy_consumers s ! i) = (res, c)"
  shows "system_ok (set_consumer i c (case res of Inl _ \<Rightarrow> Halted | Inr q \<Rightarrow> ToGroup q) s)" (is "system_ok (set_consumer i c ?m s)")
proof -
  have n: "length (sy_consumers s) = length (sy_mail s)" "metadata_ok (gc_metadata (sy_consumers s ! i))"
    using assms(1,2) by (auto simp: system_ok_def consumer_ok_def)
  have a: "acts_ok (sy_consumers s ! i) (sy_mail s ! i) res c" using next_action_ok [OF n(2) assms(3,4)] .
  have m: "in_hand ?m = None" "?m \<noteq> ToConsumer b" for b by (auto simp: in_hand_def split: sum.splits)
  show ?thesis
  proof (rule system_ok_update [OF assms(1), of _ i])
    show "consumer_ok (sy_consumers (set_consumer i c ?m s) ! i) (sy_mail (set_consumer i c ?m s) ! i)"
      using a n assms(2) by (auto simp: consumer_ok_def acts_ok_def set_consumer_def split: sum.splits)
  next
    fix mid
    assume "knows (sy_consumers (set_consumer i c ?m s) ! i) (sy_mail (set_consumer i c ?m s) ! i) mid"
    then show "knows (sy_consumers s ! i) (sy_mail s ! i) mid \<or>
        mid \<noteq> [] \<and> mid |\<notin>| sy_issued s \<and> mid |\<in>| sy_issued (set_consumer i c ?m s)"
      using a n m assms(2) by (auto simp: set_consumer_def acts_ok_def knows_def [of c])
  next
    fix gen mid x
    assume "claims (sy_consumers (set_consumer i c ?m s) ! i) (sy_mail (set_consumer i c ?m s) ! i) gen mid x"
    then show "claims (sy_consumers s ! i) (sy_mail s ! i) gen mid x \<or>
        gen = w_generation_id (sy_group (set_consumer i c ?m s)) \<and> assigned_by (sy_group (set_consumer i c ?m s)) mid x"
      using a n m assms(2) by (auto simp: set_consumer_def acts_ok_def claims_def [of c])
  qed (use assms(1) n in \<open>auto simp: set_consumer_def advances_refl system_ok_def\<close>)
qed

lemma system_ok_answered:
  assumes ok: "system_ok s" and i: "i < length (sy_mail s)" and adv: "advances (sy_group s) w" and ex: "group_exclusive w"
    and issued: "sy_issued s |\<subseteq>| ids"
    and learns: "\<And>mid. knows (sy_consumers s ! i) (ToConsumer b) mid \<Longrightarrow>
      ms_member_id (gc_member_state (sy_consumers s ! i)) = Some mid \<or> mid \<noteq> [] \<and> mid |\<notin>| sy_issued s \<and> mid |\<in>| ids"
    and gets: "\<And>gen mid a bs. membership (gc_member_state (sy_consumers s ! i)) = Some (gen, mid) \<Longrightarrow>
      in_hand (ToConsumer b) = Some bs \<Longrightarrow> reads_as bs a \<Longrightarrow> gen = w_generation_id w \<and> assigned_by w mid a"
  shows "system_ok ((answered i w b s)\<lparr>sy_issued := ids\<rparr>)"
proof (rule system_ok_update [OF ok, of _ i])
  fix mid
  assume "knows (sy_consumers ((answered i w b s)\<lparr>sy_issued := ids\<rparr>) ! i) (sy_mail ((answered i w b s)\<lparr>sy_issued := ids\<rparr>) ! i) mid"
  then show "knows (sy_consumers s ! i) (sy_mail s ! i) mid \<or>
      mid \<noteq> [] \<and> mid |\<notin>| sy_issued s \<and> mid |\<in>| sy_issued ((answered i w b s)\<lparr>sy_issued := ids\<rparr>)"
    using learns [of mid] i by (auto simp: answered_def knows_def [of _ "sy_mail s ! i"])
next
  fix gen mid a
  assume "claims (sy_consumers ((answered i w b s)\<lparr>sy_issued := ids\<rparr>) ! i) (sy_mail ((answered i w b s)\<lparr>sy_issued := ids\<rparr>) ! i) gen mid a"
  then show "claims (sy_consumers s ! i) (sy_mail s ! i) gen mid a \<or>
      gen = w_generation_id (sy_group ((answered i w b s)\<lparr>sy_issued := ids\<rparr>)) \<and>
      assigned_by (sy_group ((answered i w b s)\<lparr>sy_issued := ids\<rparr>)) mid a"
    using gets i by (auto simp: answered_def claims_def)
qed (use assms in \<open>auto simp: answered_def system_ok_def consumer_ok_def\<close>)

lemma system_ok_join:
  assumes ok: "system_ok s" and i: "i < length (sy_mail s)" "sy_mail s ! i = ToGroup (JoinGroupRequest q)"
    and join: "w_join now uuid (coordinator_join client q) (sy_group s) = Inr (w, b)"
    and fresh: "generated_member_id uuid client \<noteq> []" "generated_member_id uuid client |\<notin>| sy_issued s"
    and fits: "fits_signed 32 (w_generation_id (sy_group s) + 1)"
  shows "system_ok ((answered i w b s)\<lparr>sy_issued := finsert (generated_member_id uuid client) (sy_issued s)\<rparr>)"
proof -
  let ?c = "sy_consumers s ! i"
  have q: "is_outsider (gc_member_state ?c)" "cj_member_id q = (case ms_member_id (gc_member_state ?c) of None \<Rightarrow> [] | Some m \<Rightarrow> m)"
    using ok i by (auto simp: system_ok_def consumer_ok_def)
  have out: "membership (gc_member_state ?c) = None" using q(1) by (cases "gc_member_state ?c") auto
  have "jq_group_instance_id (coordinator_join client q) = None" by (simp add: coordinator_join_def)
  from w_join_answer [OF join this] obtain r where r: "b = JoinGroupResponse r"
    "jr_error_code r = NoError \<Longrightarrow> jr_member_id r = cj_member_id q \<and> cj_member_id q \<noteq> []"
    "jr_error_code r = MemberIdRequired \<Longrightarrow> jr_member_id r = generated_member_id uuid client"
    by (auto simp: coordinator_join_def)
  have adv: "advances (sy_group s) w"
    using group_step_advances [OF group_step.join [OF join, of False]] fits by (simp add: coordinator_join_def)
  have ex: "group_exclusive w" using ok w_join_assignments [OF join] by (auto simp: system_ok_def group_exclusive_def)
  show ?thesis
  proof (rule system_ok_answered [OF ok i(1) adv ex])
    fix mid
    assume "knows ?c (ToConsumer b) mid"
    then show "ms_member_id (gc_member_state ?c) = Some mid \<or> mid \<noteq> [] \<and> mid |\<notin>| sy_issued s \<and>
        mid |\<in>| finsert (generated_member_id uuid client) (sy_issued s)"
      using r q(2) fresh by (auto simp: knows_def split: option.splits)
  next
    fix gen mid a bs
    assume "membership (gc_member_state ?c) = Some (gen, mid)"
    then show "gen = w_generation_id w \<and> assigned_by w mid a" using out by simp
  qed auto
qed

lemma system_ok_sync:
  assumes ok: "system_ok s" and i: "i < length (sy_mail s)" "sy_mail s ! i = ToGroup (SyncGroupRequest q)"
    and sync: "w_sync (sq_generation_id q) (sq_member_id q) (sq_assignments q) (sy_group s) = Inr (w, b)"
    and fits: "fits_signed 32 (w_generation_id (sy_group s) + 1)"
  shows "system_ok (answered i w b s)"
proof -
  let ?c = "sy_consumers s ! i"
  have q: "membership (gc_member_state ?c) = Some (sq_generation_id q, sq_member_id q)"
      "\<And>as. sq_assignments q = Some as \<Longrightarrow> exclusive (collect_assignments as)"
    using ok i by (auto simp: system_ok_def consumer_ok_def)
  from w_sync_answer [OF sync] obtain r where r: "b = SyncGroupResponse r"
    "sr_error_code r = NoError \<Longrightarrow> sq_generation_id q = w_generation_id w \<and> w_assignments w \<noteq> None \<and>
      sr_assignment r = (case fmlookup (the (w_assignments w)) (sq_member_id q) of Some a \<Rightarrow> a | None \<Rightarrow> [])" by blast
  have adv: "advances (sy_group s) w" using group_step_advances [OF group_step.sync [OF sync, of False] fits] .
  have ex: "group_exclusive w"
    using ok w_sync_assignments [OF sync] q(2) by (fastforce simp: system_ok_def group_exclusive_def)
  have "system_ok ((answered i w b s)\<lparr>sy_issued := sy_issued s\<rparr>)"
  proof (rule system_ok_answered [OF ok i(1) adv ex])
    fix gen mid a bs
    assume "membership (gc_member_state ?c) = Some (gen, mid)" "in_hand (ToConsumer b) = Some bs" "reads_as bs a"
    then show "gen = w_generation_id w \<and> assigned_by w mid a"
      using q(1) r empty_unreadable [of a] by (auto simp: in_hand_def assigned_by_def split: if_splits option.splits)
  qed (auto simp: r(1) knows_def)
  then show ?thesis by (simp add: answered_def)
qed

lemma system_ok_heartbeat:
  assumes ok: "system_ok s" and i: "i < length (sy_mail s)" and hb: "w_heartbeat now gen mid (sy_group s) = (w, b)"
  shows "system_ok (answered i w b s)"
proof -
  obtain t code where b: "b = HeartbeatResponse t code"
    using hb by (cases "sy_group s")
      (auto simp: w_heartbeat_def forming_heartbeat_def formed_heartbeat_def map_prod_def split: if_splits prod.splits)
  have adv: "advances (sy_group s) w" using heartbeat_advances [of "sy_group s" now gen mid] hb by simp
  have ex: "group_exclusive w" using ok w_heartbeat_assignments [OF hb] by (auto simp: system_ok_def group_exclusive_def)
  have "system_ok ((answered i w b s)\<lparr>sy_issued := sy_issued s\<rparr>)"
    by (rule system_ok_answered [OF ok i adv ex]) (auto simp: b knows_def in_hand_def)
  then show ?thesis by (simp add: answered_def)
qed

lemma system_ok_restart:
  assumes ok: "system_ok s" and i: "i < length (sy_mail s)" and md: "metadata_ok metadata"
  shows "system_ok (set_consumer i (consumer_build g ts metadata callback rebalance session) Idle s)"
  by (rule system_ok_update [OF ok, of _ i])
    (use assms in \<open>auto simp: set_consumer_def consumer_build_def advances_refl system_ok_def consumer_ok_def knows_def claims_def\<close>)

lemma system_step_ok:
  "system_step s s' \<Longrightarrow> system_ok s \<Longrightarrow> fits_signed 32 (w_generation_id (sy_group s) + 1) \<Longrightarrow> system_ok s'"
proof (induction rule: system_step.induct)
  case (act i s input res c)
  then show ?case by (intro system_ok_act)
next
  case (handle_join i s q now uuid client w b)
  then show ?case by (intro system_ok_join)
next
  case (handle_sync i s q w b)
  then show ?case by (intro system_ok_sync)
next
  case (handle_heartbeat i s g gen mid now w b)
  then show ?case by (intro system_ok_heartbeat)
next
  case (evict s mid now)
  then show ?case using missed_heartbeat_advances missed_heartbeat_assignments by (intro system_ok_group)
next
  case (leave mids ids s w b)
  then show ?case using leave_advances [of "sy_group s" mids ids] w_leave_assignments [OF leave(1)] by (intro system_ok_group) auto
next
  case (commit now d s code w)
  then show ?case using fence_advances [of "sy_group s" now d] w_fence_assignments [OF commit(1)] by (intro system_ok_group) auto
next
  case (reload s)
  then show ?case by (intro system_ok_group) (auto simp: advances_def reload_keeps)
next
  case (restart i s metadata g ts callback rebalance session)
  then show ?case by (intro system_ok_restart)
qed

definition system_run :: "group_system \<Rightarrow> group_system \<Rightarrow> bool" where
  "system_run = (\<lambda>s t. system_step s t \<and> fits_signed 32 (w_generation_id (sy_group s) + 1))\<^sup>*\<^sup>*"

lemma system_run_ok: "system_run s t \<Longrightarrow> system_ok s \<Longrightarrow> system_ok t"
  unfolding system_run_def by (induction rule: rtranclp_induct) (auto intro: system_step_ok)

lemma system_start_ok: "system_start s \<Longrightarrow> system_ok s"
  by (auto simp: system_start_def system_ok_def group_exclusive_def consumer_ok_def knows_def claims_def list_all_length)

text \<open>C3: No partition is consumed twice.  Any number of \<open>GroupConsumer\<close>s and the coordinator of their group run, from a group that
  is forming, over any interleaving of requests, responses, evictions, leaves, commits, reloads of the group and
  replaced consumers; the coordinator never makes up a member id twice, and the \<open>i32\<close> generation does not overflow.  Two consumers
  that hold assignments of the same generation then never share a partition.  A consumer whose generation is the group's holds
  exactly what the group lists for its member id.\<close>

theorem partitions_are_exclusive:
  assumes "system_start s" and "system_run s t"
    and "i < length (sy_consumers t)" and "j < length (sy_consumers t)" and "i \<noteq> j"
    and "membership (gc_member_state (sy_consumers t ! i)) = Some (gen, mid)"
    and "membership (gc_member_state (sy_consumers t ! j)) = Some (gen, mid')"
    and "ms_member_assignment (gc_member_state (sy_consumers t ! i)) = Some a"
    and "ms_member_assignment (gc_member_state (sy_consumers t ! j)) = Some b"
  shows "set (pairs (ma_assigned_partitions a)) \<inter> set (pairs (ma_assigned_partitions b)) = {} \<and>
    gen \<le> w_generation_id (sy_group t) \<and>
    (gen = w_generation_id (sy_group t) \<longrightarrow>
      (\<exists>asg bs. w_assignments (sy_group t) = Some asg \<and> fmlookup asg mid = Some bs \<and>
        fst (member_assignment_decode bs) = Inr a))"
proof -
  have ok: "system_ok t" using system_run_ok [OF assms(2)] system_start_ok [OF assms(1)] by blast
  have n: "i < length (sy_mail t)" "j < length (sy_mail t)" using ok assms(3,4) by (auto simp: system_ok_def)
  have cl: "claims (sy_consumers t ! i) (sy_mail t ! i) gen mid a" "claims (sy_consumers t ! j) (sy_mail t ! j) gen mid' b"
    using assms(6-9) by (auto simp: claims_def)
  have "apart a b" using ok n assms(5) cl unfolding system_ok_def by blast
  moreover have "gen \<le> w_generation_id (sy_group t) \<and> (gen = w_generation_id (sy_group t) \<longrightarrow> assigned_by (sy_group t) mid a)"
    using ok n(1) cl(1) unfolding system_ok_def by blast
  ultimately show ?thesis by (simp add: apart_def assigned_by_def)
qed

section \<open>Refusals\<close>

lemma join_protocols_labels:
  "join_protocols c gen ma = Inr ps \<Longrightarrow> map protocol_label ps = map assignor_name ASSIGNORS"
  by (auto simp: join_protocols_def ASSIGNORS_def join_protocol_def split: sum.splits)

lemma find_protocol_None:
  assumes "map protocol_label ps = map assignor_name ASSIGNORS" and "\<And>a. assignor_name a \<noteq> pn"
  shows "find (\<lambda>p. protocol_label p = pn) ps = None"
proof -
  have "protocol_label ` set ps = assignor_name ` set ASSIGNORS" using arg_cong [OF assms(1), of set] by simp
  then have "protocol_label p \<noteq> pn" if "p \<in> set ps" for p
    using that assms(2) by (metis imageE imageI)
  then show ?thesis by (auto simp: find_None_iff)
qed

text \<open>C40: A consumer does not survive the refusal of its join.  When the group has chosen a protocol that is none of the four
  assignors (a group of another kind of client), the coordinator refuses the join of a \<open>GroupConsumer\<close> with
  \<open>InconsistentGroupProtocol\<close>, keeping the group, and the consumer reaches its \<open>todo!\<close>.  So it does for every heartbeat
  response other than \<open>None\<close>, \<open>UnknownMemberId\<close> and \<open>RebalanceInProgress\<close>.\<close>

theorem consumer_panics_on_refusal:
  assumes "gc_member_state c = Outsider gen mid ma" and "next_action None c = (Inr (JoinGroupRequest q), c')"
    and "w_protocol_name w = Some pn" and "\<forall>a. assignor_name a \<noteq> pn"
    and "membership (gc_member_state d) \<noteq> None" and "code \<notin> {NoError, UnknownMemberId, RebalanceInProgress}"
  shows "(\<exists>r. w_join now uuid (coordinator_join client q) w = Inr (w, JoinGroupResponse r) \<and>
      jr_error_code r = InconsistentGroupProtocol \<and> fst (next_action (Some (JoinGroupResponse r)) c') = Inl Panic) \<and>
    fst (next_action (Some (HeartbeatResponse t code)) d) = Inl Panic"
proof -
  obtain ps where ps: "join_protocols c gen ma = Inr ps" "cj_protocols q = Some ps" "c' = c"
  proof -
    have j: "consumer_join c gen mid ma ''join'' = Inr (JoinGroupRequest q)" "c' = c" using assms(1,2) by (auto simp: next_action_def)
    then obtain ps where ps: "join_protocols c gen ma = Inr ps" by (cases "join_protocols c gen ma") (simp_all add: consumer_join_def)
    then have "cj_protocols q = Some ps" using j(1) by (simp add: consumer_join_def) (metis consumer_join_request.select_convs(6))
    then show thesis using that ps j(2) by blast
  qed
  have none: "find (\<lambda>p. protocol_label p = pn) ps = None"
    using find_protocol_None [OF join_protocols_labels [OF ps(1)]] assms(4) by blast
  have "\<exists>r. w_join now uuid (coordinator_join client q) w = Inr (w, JoinGroupResponse r) \<and> jr_error_code r = InconsistentGroupProtocol"
    using assms(3) none ps(2)
    by (cases w) (simp_all add: w_join_def forming_join_def formed_join_def coordinator_join_def Let_def)
  moreover have "fst (next_action (Some (JoinGroupResponse r)) c') = Inl Panic" if "jr_error_code r = InconsistentGroupProtocol" for r
    using that assms(1) ps(3) by (simp add: next_action_def on_join_def)
  moreover have "fst (next_action (Some (HeartbeatResponse t code)) d) = Inl Panic"
    using assms(5,6) by (cases "gc_member_state d") (auto simp: next_action_def on_heartbeat_def)
  ultimately show ?thesis by blast
qed

section \<open>A run\<close>

text \<open>Two consumers join a new group; the first leads.\<close>

definition demo_consumer :: group_consumer where
  "demo_consumer = consumer_build ''g'' [''t0''] demo_metadata False None None"

definition run_subscription :: member_subscription where
  "run_subscription = \<lparr>ms_version = 3, ms_subscription = subscription_default
     \<lparr>cs_topics := [''t0''], cs_owned_partitions := Some [], cs_generation_id := Some (-1)\<rparr>\<rparr>"

definition run_bytes :: bytes where
  "run_bytes = projr (member_subscription_encode run_subscription)"

definition run_join_record :: "string \<Rightarrow> string \<Rightarrow> consumer_join_request" where
  "run_join_record mid reason =
     \<lparr>cj_group_id = ''g'', cj_session_timeout_ms = 10000, cj_rebalance_timeout_ms = Some 60000, cj_member_id = mid,
      cj_protocol_type = ''consumer'',
      cj_protocols = Some (map (\<lambda>a. \<lparr>protocol_label = assignor_name a, protocol_metadata = run_bytes\<rparr>) ASSIGNORS),
      cj_reason = Some reason\<rparr>"

definition run_join :: "string \<Rightarrow> string \<Rightarrow> client_request" where
  "run_join mid reason = JoinGroupRequest (run_join_record mid reason)"

definition run_member :: "string \<Rightarrow> join_group_response_member" where
  "run_member mid = \<lparr>member_id = mid, group_instance_id = None, member_metadata = run_bytes\<rparr>"

definition run_group :: "string list \<Rightarrow> string option \<Rightarrow> wrapper" where
  "run_group mids leader = Wrapper_Forming
     \<lparr>in_session_timeout_ms = 10000, in_rebalance_timeout_ms = Some 60000,
      in_members = fold (\<lambda>mid. fmupd mid \<lparr>m_join_response = run_member mid, m_last_contact = Some 0\<rparr>) mids fmempty,
      in_generation_id = 0, in_state = \<lparr>fg_protocol_type = Some ''consumer'', fg_protocol_name = Some ''range'', fg_leader = leader\<rparr>,
      in_skip_assignment = Some False, in_inception = 0\<rparr>"

lemma run_encode: "member_subscription_encode run_subscription = Inr run_bytes"
proof -
  have "\<exists>bs. member_subscription_encode run_subscription = Inr bs"
    by (simp add: member_subscription_encode_def run_subscription_def subscription_default_def to_wire_def array_encode_def
        u16_string_encode_def user_data_encode_def i32_encode_def nullable_string_encode_def)
  then show ?thesis by (auto simp: run_bytes_def)
qed

lemma run_topics: "member_topics (run_member mid) = Inr [''t0'']"
proof -
  let ?w = "V3 [''t0''] None [] (-1) None"
  have w: "to_wire run_subscription = Inr ?w"
    by (simp add: to_wire_def run_subscription_def subscription_default_def)
  have ok: "subscription_ok (ms_subscription run_subscription)"
    by (simp add: subscription_ok_def run_subscription_def subscription_default_def string_ok_def utf8_def between_def fits_signed_def)
  have bs: "concat_fields (wire_fields ?w) = Inr run_bytes" using run_encode by (simp add: member_subscription_encode_def w)
  have "member_subscription_decode run_bytes = (Inr (of_wire ?w), [])"
    using wire_round_trip [OF ok w bs, of "[]"] by (simp add: member_subscription_decode_def)
  then show ?thesis by (simp add: member_topics_def run_member_def)
qed

lemma run_protocols:
  assumes "gc_topics c = [''t0'']" and "gen = None \<or> gen = Some (-1)"
  shows "join_protocols c gen None = Inr (map (\<lambda>a. \<lparr>protocol_label = assignor_name a, protocol_metadata = run_bytes\<rparr>) ASSIGNORS)"
  using assms run_encode by (auto simp: join_protocols_def ASSIGNORS_def join_protocol_def run_subscription_def)

lemma run_consumer_join:
  assumes "gc_topics c = [''t0'']" "gc_group_id c = ''g''" "gc_session_timeout c = 10000" "gc_rebalance_timeout c = 60000"
    "gen = None \<or> gen = Some (-1)"
  shows "consumer_join c gen mid None reason = Inr (run_join (case mid of None \<Rightarrow> [] | Some m \<Rightarrow> m) reason)"
  using assms by (simp add: consumer_join_def run_protocols run_join_def run_join_record_def wrap_signed_def)

lemma run_act_idle: "next_action None demo_consumer = (Inr (run_join [] ''join''), demo_consumer)"
  by (simp add: next_action_def demo_consumer_def consumer_build_def REBALANCE_TIMEOUT_MS_DEFAULT_def SESSION_TIMEOUT_MS_DEFAULT_def
      run_consumer_join)

abbreviation id_required :: "string \<Rightarrow> body" where
  "id_required mid \<equiv> join_body MemberIdRequired (-1) (Some ''consumer'') (Some '''') '''' (Some False) mid []"

definition run_named :: "string \<Rightarrow> group_consumer" where
  "run_named mid = become (Outsider (Some (-1)) (Some mid) None) (count_error MemberIdRequired demo_consumer)"

lemma run_act_required: "next_action (Some (id_required mid)) demo_consumer = (Inr (run_join mid ''join member id required''), run_named mid)"
proof -
  have "consumer_join (run_named mid) (Some (-1)) (Some mid) None ''join member id required'' = Inr (run_join mid ''join member id required'')"
    by (simp add: run_named_def become_def count_error_def demo_consumer_def consumer_build_def REBALANCE_TIMEOUT_MS_DEFAULT_def
        SESSION_TIMEOUT_MS_DEFAULT_def run_consumer_join)
  moreover have "gc_member_state demo_consumer = Outsider None None None" by (simp add: demo_consumer_def consumer_build_def)
  ultimately show ?thesis by (simp add: next_action_def on_join_def rejoin_def Let_def run_named_def)
qed

lemma run_join_1:
  "w_join 0 ''A'' (coordinator_join None (run_join_record [] ''join'')) (Wrapper_Forming (inner_new 0)) =
     Inr (run_group [''A''] None, id_required ''A'')"
  by (simp add: w_join_def forming_join_def coordinator_join_def run_join_record_def inner_new_def forming_default_def Let_def
      forming_join_id_required_def generated_member_id_def ASSIGNORS_def run_group_def new_member_def run_member_def)

lemma run_join_2:
  "w_join 0 ''B'' (coordinator_join None (run_join_record [] ''join'')) (run_group [''A''] None) =
     Inr (run_group [''A'', ''B''] None, id_required ''B'')"
  by (simp add: w_join_def forming_join_def coordinator_join_def run_join_record_def Let_def
      forming_join_id_required_def generated_member_id_def ASSIGNORS_def run_group_def new_member_def run_member_def)

abbreviation joined :: "string \<Rightarrow> join_group_response_member list \<Rightarrow> join_group_response" where
  "joined mid ms \<equiv> \<lparr>jr_throttle_time_ms = Some 0, jr_error_code = NoError, jr_generation_id = 0,
     jr_protocol_type = Some ''consumer'', jr_protocol_name = Some ''range'', jr_leader = ''A'', jr_skip_assignment = Some False,
     jr_member_id = mid, jr_members = Some ms\<rparr>"

lemma run_entries:
  "entries (fmupd ''B'' y (fmupd ''A'' x fmempty)) = [(''A'', x), (''B'', y)]"
  by (rule entries_unique) auto

lemma run_members:
  "fmupd ''A'' x (fmupd ''B'' y (fmupd ''A'' x fmempty)) = fmupd ''B'' y (fmupd ''A'' x fmempty)"
  "fmupd ''B'' y (fmupd ''B'' y (fmupd ''A'' x fmempty)) = fmupd ''B'' y (fmupd ''A'' x fmempty)"
  by (rule fmap_ext; auto)+

lemma run_join_3:
  "w_join 0 ''C'' (coordinator_join None (run_join_record ''A'' ''join member id required'')) (run_group [''A'', ''B''] None) =
     Inr (run_group [''A'', ''B''] (Some ''A''), JoinGroupResponse (joined ''A'' [run_member ''A'', run_member ''B'']))"
  by (simp add: w_join_def forming_join_def coordinator_join_def run_join_record_def Let_def joining_member_id_def
      forming_join_member_def ASSIGNORS_def run_group_def run_member_def member_list_def run_members run_entries)

lemma run_join_4:
  "w_join 0 ''D'' (coordinator_join None (run_join_record ''B'' ''join member id required'')) (run_group [''A'', ''B''] (Some ''A'')) =
     Inr (run_group [''A'', ''B''] (Some ''A''), JoinGroupResponse (joined ''B'' []))"
  by (simp add: w_join_def forming_join_def coordinator_join_def run_join_record_def Let_def joining_member_id_def
      forming_join_member_def ASSIGNORS_def run_group_def run_member_def member_list_def run_members)

lemma run_assign:
  obtains x y where "assign Range [run_member ''A'', run_member ''B''] demo_metadata = Inr [x, y]" "assignee x = ''A''" "assignee y = ''B''"
    "member_assignment_decode (assigned x) = (Inr \<lparr>ma_version = 3, ma_assigned_partitions = [\<lparr>tp_topic = ''t0'', tp_partitions = [0, 1]\<rparr>], ma_user_data = None\<rparr>, [])"
    "member_assignment_decode (assigned y) = (Inr \<lparr>ma_version = 3, ma_assigned_partitions = [\<lparr>tp_topic = ''t0'', tp_partitions = [2]\<rparr>], ma_user_data = None\<rparr>, [])"
proof -
  let ?ms = "[run_member ''A'', run_member ''B'']"
  have s: "sorted_members ?ms = ?ms" by (simp add: sorted_members_def run_member_def)
  have "member_subs (sorted_members ?ms) = Inr [[''t0''], [''t0'']]" by (simp add: s member_subs_def run_topics)
  note result = assign_result [OF demo_metadata_ok this, of Range]
  have "map member_id (sorted_members ?ms) = [''A'', ''B'']" unfolding s by (simp add: run_member_def)
  with result obtain as where as: "assign Range ?ms demo_metadata = Inr as"
    "map assignee as = [''A'', ''B'']" "read_back as = as_planned (plan_of Range [[''t0''], [''t0'']] demo_metadata)"
    by (auto simp del: assign.simps)
  have "sorted_list_of_set {0, 1, 2 :: int} = [0, 1, 2]" by simp
  then have ps: "topic_partitions_sorted \<lparr>mt_name = Some ''t0'', mt_partitions = Some [2, 0, 1]\<rparr> = [0, 1, 2]"
    by (simp add: topic_partitions_sorted_def)
  have dm: "Suc (Suc (Suc 0)) div Suc (Suc 0) = Suc 0" "Suc (Suc (Suc 0)) mod Suc (Suc 0) = Suc 0"
    by (simp_all add: div_Suc mod_Suc)
  have "plan_of Range [[''t0''], [''t0'']] demo_metadata =
      [[\<lparr>tp_topic = ''t0'', tp_partitions = [0, 1]\<rparr>], [\<lparr>tp_topic = ''t0'', tp_partitions = [2]\<rparr>]]"
    by (simp add: plan_of_def demo_metadata_def range_part_def topic_share_def ps subscribed_def rank_def slice_def range_count_def
        range_start_def Let_def dm)
  moreover obtain x y where xy: "as = [x, y]" "assignee x = ''A''" "assignee y = ''B''" using as(2) by (auto simp: map_eq_Cons_conv)
  ultimately show thesis using that [of x y] as(1,3) by (simp add: read_back_def as_planned_def)
qed


definition run_leader :: group_consumer where
  "run_leader = become (Leader 0 ''A'' None) (count_error NoError (run_named ''A''))"

definition run_follower :: group_consumer where
  "run_follower = become (Follower 0 ''B'' None) (count_error NoError (run_named ''B''))"

definition run_sync :: "string \<Rightarrow> sync_group_request_assignment list \<Rightarrow> sync_group_request" where
  "run_sync mid as = \<lparr>sq_group_id = ''g'', sq_generation_id = 0, sq_member_id = mid, sq_protocol_type = Some ''consumer'',
     sq_protocol_name = Some ''range'', sq_assignments = Some as\<rparr>"

lemma run_named_sel [simp]: "gc_member_state (run_named mid) = Outsider (Some (-1)) (Some mid) None" "gc_metadata (run_named mid) = demo_metadata"
  "gc_group_id (run_named mid) = ''g''"
  by (simp_all add: run_named_def demo_consumer_def consumer_build_def)

lemma run_act_leader:
  "assign Range [run_member ''A'', run_member ''B''] demo_metadata = Inr as \<Longrightarrow>
   next_action (Some (JoinGroupResponse (joined ''A'' [run_member ''A'', run_member ''B'']))) (run_named ''A'') =
     (Inr (SyncGroupRequest (run_sync ''A'' as)), run_leader)"
  by (simp add: next_action_def on_join_def Let_def chosen_assignor_def assignor_from_str_def sync_request_def run_sync_def run_leader_def)

lemma run_act_follower:
  "next_action (Some (JoinGroupResponse (joined ''B'' []))) (run_named ''B'') = (Inr (SyncGroupRequest (run_sync ''B'' [])), run_follower)"
  by (simp add: next_action_def on_join_def Let_def sync_request_def run_sync_def run_follower_def)

abbreviation synced :: "bytes \<Rightarrow> body" where
  "synced bs \<equiv> sync_body NoError (Some ''consumer'') (Some ''range'') bs"

definition run_formed :: "sync_group_request_assignment list \<Rightarrow> wrapper" where
  "run_formed as = (case run_group [''A'', ''B''] (Some ''A'') of
     Wrapper_Forming i \<Rightarrow> Wrapper_Formed (with_state 0 \<lparr>fd_protocol_type = ''consumer'', fd_protocol_name = ''range'',
       fd_leader = ''A'', fd_assignments = collect_assignments as\<rparr> i)
   | w \<Rightarrow> w)"

lemma run_sync_1:
  assumes "assignee x = ''A''" "assignee y = ''B''"
  shows "w_sync 0 ''A'' (Some [x, y]) (run_group [''A'', ''B''] (Some ''A'')) = Inr (run_formed [x, y], synced (assigned x))"
  using assms by (auto simp: w_sync_def forming_sync_def run_group_def run_formed_def collect_assignments_def Let_def)

lemma run_sync_2:
  assumes "assignee x = ''A''" "assignee y = ''B''"
  shows "w_sync 0 ''B'' (Some []) (run_formed [x, y]) = Inr (run_formed [x, y], synced (assigned y))"
  using assms by (simp add: w_sync_def formed_sync_def run_group_def run_formed_def collect_assignments_def Let_def with_state_def)

lemma run_act_synced:
  assumes "member_assignment_decode bs = (Inr a, [])" and "gc_member_state c = role 0 mid None" and "role = Leader \<or> role = Follower"
    and "gc_on_assignment c = False" and "gc_group_id c = ''g''"
  shows "next_action (Some (synced bs)) c = (Inr (HeartbeatRequest ''g'' 0 mid), become (role 0 mid (Some a)) (count_error NoError c))"
proof -
  have "bs \<noteq> []" using assms(1) empty_unreadable [of a] by auto
  then show ?thesis using assms by (auto simp: next_action_def on_sync_def Let_def count_error_def become_def)
qed

definition pair_system :: "wrapper \<Rightarrow> group_consumer \<Rightarrow> group_consumer \<Rightarrow> mail \<Rightarrow> mail \<Rightarrow> string fset \<Rightarrow> group_system" where
  "pair_system w c d m n ids = \<lparr>sy_group = w, sy_consumers = [c, d], sy_mail = [m, n], sy_issued = ids\<rparr>"

lemma pair_act:
  "input_of m = Some input \<Longrightarrow> next_action input c = (Inr q, c') \<Longrightarrow>
   system_step (pair_system w c d m n ids) (pair_system w c' d (ToGroup q) n ids)"
  "input_of n = Some input \<Longrightarrow> next_action input d = (Inr q, d') \<Longrightarrow>
   system_step (pair_system w c d m n ids) (pair_system w c d' m (ToGroup q) ids)"
  using system_step.act [of 0 "pair_system w c d m n ids" input "Inr q" c']
    system_step.act [of 1 "pair_system w c d m n ids" input "Inr q" d']
  by (simp_all add: pair_system_def set_consumer_def)

lemma pair_join:
  assumes "w_join 0 uuid (coordinator_join None q) w = Inr (w', b)" "uuid \<noteq> []" "uuid |\<notin>| ids"
  shows "system_step (pair_system w c d (ToGroup (JoinGroupRequest q)) n ids) (pair_system w' c d (ToConsumer b) n (finsert uuid ids))"
    "system_step (pair_system w c d m (ToGroup (JoinGroupRequest q)) ids) (pair_system w' c d m (ToConsumer b) (finsert uuid ids))"
  using assms system_step.handle_join [of 0 "pair_system w c d (ToGroup (JoinGroupRequest q)) n ids" q 0 uuid None w' b]
    system_step.handle_join [of 1 "pair_system w c d m (ToGroup (JoinGroupRequest q)) ids" q 0 uuid None w' b]
  by (simp_all add: pair_system_def answered_def generated_member_id_def)

lemma pair_sync:
  assumes "w_sync (sq_generation_id q) (sq_member_id q) (sq_assignments q) w = Inr (w', b)"
  shows "system_step (pair_system w c d (ToGroup (SyncGroupRequest q)) n ids) (pair_system w' c d (ToConsumer b) n ids)"
    "system_step (pair_system w c d m (ToGroup (SyncGroupRequest q)) ids) (pair_system w' c d m (ToConsumer b) ids)"
  using assms system_step.handle_sync [of 0 "pair_system w c d (ToGroup (SyncGroupRequest q)) n ids" q w' b]
    system_step.handle_sync [of 1 "pair_system w c d m (ToGroup (SyncGroupRequest q)) ids" q w' b]
  by (simp_all add: pair_system_def answered_def)

lemma run_extend:
  "system_run s t \<Longrightarrow> system_step t u \<Longrightarrow> w_generation_id (sy_group t) = 0 \<Longrightarrow> system_run s u"
  unfolding system_run_def by (rule rtranclp.rtrancl_into_rtrancl) (auto simp: fits_signed_def)

definition run_start :: group_system where
  "run_start = pair_system (Wrapper_Forming (inner_new 0)) demo_consumer demo_consumer Idle Idle {||}"

lemma run_start_ok: "system_start run_start"
  using demo_metadata_ok
  by (simp add: system_start_def run_start_def pair_system_def demo_consumer_def consumer_build_def less_Suc_eq)

lemma run_generation:
  "w_generation_id (sy_group (pair_system (Wrapper_Forming (inner_new 0)) c d m n ids)) = 0"
  "w_generation_id (sy_group (pair_system (run_group mids l) c d m n ids)) = 0"
  "w_generation_id (sy_group (pair_system (run_formed as) c d m n ids)) = 0"
  by (simp_all add: pair_system_def inner_new_def run_group_def run_formed_def)

lemma run_joined:
  assumes "assign Range [run_member ''A'', run_member ''B''] demo_metadata = Inr as"
  shows "system_run run_start (pair_system (run_group [''A'', ''B''] (Some ''A'')) run_leader run_follower
    (ToGroup (SyncGroupRequest (run_sync ''A'' as))) (ToGroup (SyncGroupRequest (run_sync ''B'' []))) {|''D'', ''C'', ''B'', ''A''|})"
proof -
  have "system_run run_start run_start" by (simp add: system_run_def)
  then have "system_run run_start (pair_system (Wrapper_Forming (inner_new 0)) demo_consumer demo_consumer (ToGroup (run_join [] ''join'')) Idle {||})"
    unfolding run_start_def by (rule run_extend [OF _ pair_act(1) [OF _ run_act_idle]]) (simp_all add: run_generation)
  then have "system_run run_start (pair_system (Wrapper_Forming (inner_new 0)) demo_consumer demo_consumer
      (ToGroup (run_join [] ''join'')) (ToGroup (run_join [] ''join'')) {||})"
    by (rule run_extend [OF _ pair_act(2) [OF _ run_act_idle]]) (simp_all add: run_generation)
  then have "system_run run_start (pair_system (run_group [''A''] None) demo_consumer demo_consumer
      (ToConsumer (id_required ''A'')) (ToGroup (run_join [] ''join'')) {|''A''|})"
    unfolding run_join_def
    by (rule run_extend [OF _ pair_join(1) [OF run_join_1]]) (simp_all add: run_generation)
  then have "system_run run_start (pair_system (run_group [''A'', ''B''] None) demo_consumer demo_consumer
      (ToConsumer (id_required ''A'')) (ToConsumer (id_required ''B'')) {|''B'', ''A''|})"
    unfolding run_join_def
    by (rule run_extend [OF _ pair_join(2) [OF run_join_2]]) (simp_all add: run_generation)
  then have "system_run run_start (pair_system (run_group [''A'', ''B''] None) (run_named ''A'') demo_consumer
      (ToGroup (run_join ''A'' ''join member id required'')) (ToConsumer (id_required ''B'')) {|''B'', ''A''|})"
    by (rule run_extend [OF _ pair_act(1) [OF _ run_act_required]]) (simp_all add: run_generation)
  then have "system_run run_start (pair_system (run_group [''A'', ''B''] None) (run_named ''A'') (run_named ''B'')
      (ToGroup (run_join ''A'' ''join member id required'')) (ToGroup (run_join ''B'' ''join member id required'')) {|''B'', ''A''|})"
    by (rule run_extend [OF _ pair_act(2) [OF _ run_act_required]]) (simp_all add: run_generation)
  then have "system_run run_start (pair_system (run_group [''A'', ''B''] (Some ''A'')) (run_named ''A'') (run_named ''B'')
      (ToConsumer (JoinGroupResponse (joined ''A'' [run_member ''A'', run_member ''B''])))
      (ToGroup (run_join ''B'' ''join member id required'')) {|''C'', ''B'', ''A''|})"
    unfolding run_join_def
    by (rule run_extend [OF _ pair_join(1) [OF run_join_3]]) (simp_all add: run_generation)
  then have "system_run run_start (pair_system (run_group [''A'', ''B''] (Some ''A'')) (run_named ''A'') (run_named ''B'')
      (ToConsumer (JoinGroupResponse (joined ''A'' [run_member ''A'', run_member ''B''])))
      (ToConsumer (JoinGroupResponse (joined ''B'' []))) {|''D'', ''C'', ''B'', ''A''|})"
    unfolding run_join_def
    by (rule run_extend [OF _ pair_join(2) [OF run_join_4]]) (simp_all add: run_generation)
  then have "system_run run_start (pair_system (run_group [''A'', ''B''] (Some ''A'')) run_leader (run_named ''B'')
      (ToGroup (SyncGroupRequest (run_sync ''A'' as))) (ToConsumer (JoinGroupResponse (joined ''B'' []))) {|''D'', ''C'', ''B'', ''A''|})"
    by (rule run_extend [OF _ pair_act(1) [OF _ run_act_leader [OF assms]]]) (simp_all add: run_generation)
  then show ?thesis
    by (rule run_extend [OF _ pair_act(2) [OF _ run_act_follower]]) (simp_all add: run_generation)
qed


lemma run_assigned:
  obtains x y c d where "system_run run_start (pair_system (run_formed [x, y]) c d
      (ToGroup (HeartbeatRequest ''g'' 0 ''A'')) (ToGroup (HeartbeatRequest ''g'' 0 ''B'')) {|''D'', ''C'', ''B'', ''A''|})"
    "gc_member_state c = Leader 0 ''A'' (Some \<lparr>ma_version = 3, ma_assigned_partitions = [\<lparr>tp_topic = ''t0'', tp_partitions = [0, 1]\<rparr>], ma_user_data = None\<rparr>)"
    "gc_member_state d = Follower 0 ''B'' (Some \<lparr>ma_version = 3, ma_assigned_partitions = [\<lparr>tp_topic = ''t0'', tp_partitions = [2]\<rparr>], ma_user_data = None\<rparr>)"
proof -
  let ?ids = "{|''D'', ''C'', ''B'', ''A''|}"
  obtain x y where xy: "assign Range [run_member ''A'', run_member ''B''] demo_metadata = Inr [x, y]" "assignee x = ''A''" "assignee y = ''B''"
    "member_assignment_decode (assigned x) = (Inr \<lparr>ma_version = 3, ma_assigned_partitions = [\<lparr>tp_topic = ''t0'', tp_partitions = [0, 1]\<rparr>], ma_user_data = None\<rparr>, [])"
    "member_assignment_decode (assigned y) = (Inr \<lparr>ma_version = 3, ma_assigned_partitions = [\<lparr>tp_topic = ''t0'', tp_partitions = [2]\<rparr>], ma_user_data = None\<rparr>, [])"
    using run_assign by metis
  have "w_sync (sq_generation_id (run_sync ''A'' [x, y])) (sq_member_id (run_sync ''A'' [x, y])) (sq_assignments (run_sync ''A'' [x, y]))
      (run_group [''A'', ''B''] (Some ''A'')) = Inr (run_formed [x, y], synced (assigned x))"
    using run_sync_1 [OF xy(2,3)] by (simp add: run_sync_def)
  from run_extend [OF run_joined [OF xy(1)] pair_sync(1) [OF this]]
  have sync1: "system_run run_start (pair_system (run_formed [x, y]) run_leader run_follower
      (ToConsumer (synced (assigned x))) (ToGroup (SyncGroupRequest (run_sync ''B'' []))) ?ids)" by (simp add: run_generation)
  have "w_sync (sq_generation_id (run_sync ''B'' [])) (sq_member_id (run_sync ''B'' [])) (sq_assignments (run_sync ''B'' []))
      (run_formed [x, y]) = Inr (run_formed [x, y], synced (assigned y))"
    using run_sync_2 [OF xy(2,3)] by (simp add: run_sync_def)
  from run_extend [OF sync1 pair_sync(2) [OF this]]
  have sync2: "system_run run_start (pair_system (run_formed [x, y]) run_leader run_follower
      (ToConsumer (synced (assigned x))) (ToConsumer (synced (assigned y))) ?ids)" by (simp add: run_generation)
  have sel: "gc_member_state run_leader = Leader 0 ''A'' None" "gc_on_assignment run_leader = False" "gc_group_id run_leader = ''g''"
    "gc_member_state run_follower = Follower 0 ''B'' None" "gc_on_assignment run_follower = False" "gc_group_id run_follower = ''g''"
    by (simp_all add: run_leader_def run_follower_def count_error_def run_named_def become_def demo_consumer_def consumer_build_def)
  from run_extend [OF sync2 pair_act(1) [OF _ run_act_synced [where role = Leader and c = run_leader and mid = "''A''", OF xy(4) sel(1)]]] sel(2,3)
  have act1: "system_run run_start (pair_system (run_formed [x, y])
      (become (Leader 0 ''A'' (Some \<lparr>ma_version = 3, ma_assigned_partitions = [\<lparr>tp_topic = ''t0'', tp_partitions = [0, 1]\<rparr>], ma_user_data = None\<rparr>)) (count_error NoError run_leader))
      run_follower (ToGroup (HeartbeatRequest ''g'' 0 ''A'')) (ToConsumer (synced (assigned y))) ?ids)"
    by (simp add: run_generation)
  from run_extend [OF this pair_act(2) [OF _ run_act_synced [where role = Follower and c = run_follower and mid = "''B''", OF xy(5) sel(4)]]] sel(5,6)
  show thesis by (intro that [of x y]) (auto simp: run_generation)
qed

theorem partitions_are_exclusive_witness:
  "\<exists>t i j mid mid' a b. system_start run_start \<and> system_run run_start t \<and> i \<noteq> j \<and>
     membership (gc_member_state (sy_consumers t ! i)) = Some (0, mid) \<and>
     membership (gc_member_state (sy_consumers t ! j)) = Some (0, mid') \<and>
     ms_member_assignment (gc_member_state (sy_consumers t ! i)) = Some a \<and>
     ms_member_assignment (gc_member_state (sy_consumers t ! j)) = Some b \<and>
     (''t0'', 0) \<in> set (pairs (ma_assigned_partitions a)) \<and> (''t0'', 2) \<in> set (pairs (ma_assigned_partitions b)) \<and>
     set (pairs (ma_assigned_partitions a)) \<inter> set (pairs (ma_assigned_partitions b)) = {}"
proof -
  let ?a = "\<lparr>ma_version = 3, ma_assigned_partitions = [\<lparr>tp_topic = ''t0'', tp_partitions = [0, 1]\<rparr>], ma_user_data = None\<rparr>"
  let ?b = "\<lparr>ma_version = 3, ma_assigned_partitions = [\<lparr>tp_topic = ''t0'', tp_partitions = [2]\<rparr>], ma_user_data = None\<rparr>"
  obtain x y c d where run: "system_run run_start (pair_system (run_formed [x, y]) c d
      (ToGroup (HeartbeatRequest ''g'' 0 ''A'')) (ToGroup (HeartbeatRequest ''g'' 0 ''B'')) {|''D'', ''C'', ''B'', ''A''|})"
    and st: "gc_member_state c = Leader 0 ''A'' (Some ?a)" "gc_member_state d = Follower 0 ''B'' (Some ?b)"
    using run_assigned by metis
  let ?t = "pair_system (run_formed [x, y]) c d (ToGroup (HeartbeatRequest ''g'' 0 ''A'')) (ToGroup (HeartbeatRequest ''g'' 0 ''B'')) {|''D'', ''C'', ''B'', ''A''|}"
  have sel: "sy_consumers ?t = [c, d]" by (simp add: pair_system_def)
  have "set (pairs (ma_assigned_partitions ?a)) \<inter> set (pairs (ma_assigned_partitions ?b)) = {}"
    using partitions_are_exclusive [OF run_start_ok run, of 0 1 0 "''A''" "''B''" ?a ?b] st unfolding sel by simp
  then show ?thesis
    using run_start_ok run st by (intro exI [of _ ?t] exI [of _ 0] exI [of _ 1] exI [of _ "''A''"] exI [of _ "''B''"] exI [of _ ?a] exI [of _ ?b])
      (simp add: sel)
qed

definition sticky_group :: wrapper where
  "sticky_group = Wrapper_Forming ((inner_new 0)\<lparr>in_state := forming_default\<lparr>fg_protocol_name := Some ''sticky''\<rparr>\<rparr>)"

theorem consumer_panics_on_refusal_witness:
  "(\<exists>r. w_join 0 ''A'' (coordinator_join None (run_join_record [] ''join'')) sticky_group = Inr (sticky_group, JoinGroupResponse r) \<and>
      fst (next_action (Some (JoinGroupResponse r)) demo_consumer) = Inl Panic) \<and>
   fst (next_action (Some (heartbeat_body IllegalGeneration)) run_leader) = Inl Panic"
proof -
  have "assignor_name a \<noteq> ''sticky''" for a by (cases a) auto
  moreover have "gc_member_state demo_consumer = Outsider None None None" "membership (gc_member_state run_leader) \<noteq> None"
    by (simp_all add: demo_consumer_def consumer_build_def run_leader_def)
  moreover have "w_protocol_name sticky_group = Some ''sticky''" by (simp add: sticky_group_def)
  ultimately show ?thesis
    using consumer_panics_on_refusal [of demo_consumer None None None "run_join_record [] ''join''" demo_consumer sticky_group "''sticky''"
        run_leader IllegalGeneration 0 "''A''" None "Some 0"] run_act_idle
    by (auto simp: run_join_def)
qed

end
