(* ===== verification/Group_Commit.thy ===== *)
theory Group_Commit
  imports Engine_Core
begin

text \<open>
  The group commit of \<open>nvme/groupcommit.rs\<close>: one flusher thread per open file.  Appenders write to the file
  and then submit a job; the flusher gathers the jobs that are queued, syncs the file once, and acknowledges
  all of them.  The thread and the appenders are interleaved; writes and submissions may happen between any two
  steps of the thread.  Of the file only the number of bytes written and the number of bytes known to be durable
  matter: a successful \<open>sync_data\<close> makes everything written before it durable, a failed one promises nothing.
\<close>

section \<open>The flusher\<close>

text \<open>A job carries the sender of its acknowledgement, here a number.\<close>

datatype job = Sync nat | Seal nat

fun job_ack :: "job \<Rightarrow> nat" where
  "job_ack (Sync k) = k"
| "job_ack (Seal k) = k"

fun is_seal :: "job \<Rightarrow> bool" where
  "is_seal (Seal k) = True"
| "is_seal (Sync k) = False"

text \<open>Where the loop of \<open>run\<close> is.\<close>

datatype flusher_phase =
    Receiving
  | Gathered "job list"
  | Acknowledging "error + unit" "job list"
  | Stopped

record flusher =
  fl_phase :: flusher_phase
  fl_dirty :: bool
  fl_queue :: "job list"
  fl_written :: nat
  fl_durable :: nat
  fl_acks :: "(nat \<times> (error + unit)) list"

definition flusher_spawn :: "nat \<Rightarrow> nat \<Rightarrow> flusher" where
  "flusher_spawn written durable = \<lparr>fl_phase = Receiving, fl_dirty = False, fl_queue = [], fl_written = written,
     fl_durable = durable, fl_acks = []\<rparr>"

text \<open>\<open>sync_data\<close>, with the outcome the system gives.\<close>

definition sync_data :: "error + unit \<Rightarrow> flusher \<Rightarrow> flusher" where
  "sync_data res s = (case res of Inl err \<Rightarrow> s | Inr _ \<Rightarrow> s\<lparr>fl_durable := fl_written s\<rparr>)"

definition flusher_send :: "job \<Rightarrow> flusher \<Rightarrow> error + flusher" where
  "flusher_send j s =
     (if fl_phase s = Stopped then Inl (Message ''nvme flusher stopped'') else Inr (s\<lparr>fl_queue := fl_queue s @ [j]\<rparr>))"

text \<open>The timer of the interval mode, and a dropped handle.\<close>

definition flusher_tick :: "error + unit \<Rightarrow> flusher \<Rightarrow> flusher" where
  "flusher_tick res s = (let s = (if fl_dirty s then sync_data res s else s) in s\<lparr>fl_dirty := False\<rparr>)"

definition flusher_exit :: "error + unit \<Rightarrow> flusher \<Rightarrow> flusher" where
  "flusher_exit res s = (if fl_dirty s then sync_data res s else s)\<lparr>fl_phase := Stopped\<rparr>"

definition gather :: "flusher \<Rightarrow> flusher" where
  "gather s = s\<lparr>fl_phase := Gathered (fl_queue s), fl_queue := []\<rparr>"

definition has_seal :: "job list \<Rightarrow> bool" where
  "has_seal jobs \<longleftrightarrow> list_ex is_seal jobs"

definition flush_batch :: "fsync_mode \<Rightarrow> error + unit \<Rightarrow> job list \<Rightarrow> flusher \<Rightarrow> flusher" where
  "flush_batch mode res jobs s =
     (if mode = Always \<or> has_seal jobs
      then (sync_data res s)\<lparr>fl_dirty := False, fl_phase := Acknowledging res jobs\<rparr>
      else s\<lparr>fl_dirty := True, fl_phase := Acknowledging (Inr ()) jobs\<rparr>)"

definition acknowledge :: "error + unit \<Rightarrow> job list \<Rightarrow> flusher \<Rightarrow> flusher" where
  "acknowledge outcome jobs s =
     s\<lparr>fl_acks := fl_acks s @ map (\<lambda>j. (job_ack j, outcome)) jobs,
       fl_phase := (if has_seal jobs then Stopped else Receiving)\<rparr>"


section \<open>Appenders and flusher\<close>

text \<open>The jobs that were submitted, each with the number of bytes written when it was.\<close>

record commit_system =
  cs_flusher :: flusher
  cs_jobs :: "(nat, job \<times> nat) fmap"

inductive commit_step :: "fsync_mode \<Rightarrow> commit_system \<Rightarrow> commit_system \<Rightarrow> bool" for mode where
  append: "commit_step mode s (s\<lparr>cs_flusher := (cs_flusher s)\<lparr>fl_written := fl_written (cs_flusher s) + n\<rparr>\<rparr>)"
| submit: "fmlookup (cs_jobs s) (job_ack j) = None \<Longrightarrow> flusher_send j (cs_flusher s) = Inr f \<Longrightarrow>
    commit_step mode s \<lparr>cs_flusher = f, cs_jobs = fmupd (job_ack j) (j, fl_written (cs_flusher s)) (cs_jobs s)\<rparr>"
| tick: "fl_phase (cs_flusher s) = Receiving \<Longrightarrow> mode \<noteq> Always \<Longrightarrow> fl_queue (cs_flusher s) = [] \<Longrightarrow>
    commit_step mode s (s\<lparr>cs_flusher := flusher_tick res (cs_flusher s)\<rparr>)"
| hang_up: "fl_phase (cs_flusher s) = Receiving \<Longrightarrow> fl_queue (cs_flusher s) = [] \<Longrightarrow>
    commit_step mode s (s\<lparr>cs_flusher := flusher_exit res (cs_flusher s)\<rparr>)"
| gather: "fl_phase (cs_flusher s) = Receiving \<Longrightarrow> fl_queue (cs_flusher s) \<noteq> [] \<Longrightarrow>
    commit_step mode s (s\<lparr>cs_flusher := gather (cs_flusher s)\<rparr>)"
| flush: "fl_phase (cs_flusher s) = Gathered jobs \<Longrightarrow>
    commit_step mode s (s\<lparr>cs_flusher := flush_batch mode res jobs (cs_flusher s)\<rparr>)"
| acknowledge: "fl_phase (cs_flusher s) = Acknowledging outcome jobs \<Longrightarrow>
    commit_step mode s (s\<lparr>cs_flusher := acknowledge outcome jobs (cs_flusher s)\<rparr>)"

fun in_flight :: "flusher_phase \<Rightarrow> job list" where
  "in_flight (Gathered jobs) = jobs"
| "in_flight (Acknowledging outcome jobs) = jobs"
| "in_flight Receiving = []"
| "in_flight Stopped = []"

text \<open>An acknowledgement promises durability in the mode \<open>Always\<close>, and that of a seal in any mode.\<close>

definition durable_job :: "fsync_mode \<Rightarrow> commit_system \<Rightarrow> nat \<Rightarrow> bool" where
  "durable_job mode s k \<longleftrightarrow> (\<forall>j n. fmlookup (cs_jobs s) k = Some (j, n) \<longrightarrow> mode = Always \<or> is_seal j \<longrightarrow>
     n \<le> fl_durable (cs_flusher s))"

definition commit_ok :: "fsync_mode \<Rightarrow> commit_system \<Rightarrow> bool" where
  "commit_ok mode s \<longleftrightarrow> (let f = cs_flusher s in
     fl_durable f \<le> fl_written f \<and>
     (\<forall>k j n. fmlookup (cs_jobs s) k = Some (j, n) \<longrightarrow> n \<le> fl_written f) \<and>
     (\<forall>j \<in> set (fl_queue f) \<union> set (in_flight (fl_phase f)). \<exists>n. fmlookup (cs_jobs s) (job_ack j) = Some (j, n)) \<and>
     (\<forall>jobs. fl_phase f = Acknowledging (Inr ()) jobs \<longrightarrow> (\<forall>j \<in> set jobs. durable_job mode s (job_ack j))) \<and>
     (\<forall>(k, r) \<in> set (fl_acks f). fmlookup (cs_jobs s) k \<noteq> None \<and> (r = Inr () \<longrightarrow> durable_job mode s k)))"

lemma sync_data_sel [simp]:
  "fl_phase (sync_data res f) = fl_phase f" "fl_queue (sync_data res f) = fl_queue f" "fl_written (sync_data res f) = fl_written f"
  "fl_acks (sync_data res f) = fl_acks f" "fl_dirty (sync_data res f) = fl_dirty f"
  "fl_durable (sync_data res f) = (case res of Inl e \<Rightarrow> fl_durable f | Inr u \<Rightarrow> fl_written f)"
  by (simp_all add: sync_data_def split: sum.splits)

lemma durable_job_mono:
  "durable_job mode s k \<Longrightarrow> cs_jobs s' = cs_jobs s \<Longrightarrow> fl_durable (cs_flusher s) \<le> fl_durable (cs_flusher s') \<Longrightarrow> durable_job mode s' k"
  by (fastforce simp: durable_job_def)

lemma commit_okI:
  assumes "fl_durable (cs_flusher s) \<le> fl_written (cs_flusher s)"
    and "\<And>k j n. fmlookup (cs_jobs s) k = Some (j, n) \<Longrightarrow> n \<le> fl_written (cs_flusher s)"
    and "\<And>j. j \<in> set (fl_queue (cs_flusher s)) \<Longrightarrow> \<exists>n. fmlookup (cs_jobs s) (job_ack j) = Some (j, n)"
    and "\<And>j. j \<in> set (in_flight (fl_phase (cs_flusher s))) \<Longrightarrow> \<exists>n. fmlookup (cs_jobs s) (job_ack j) = Some (j, n)"
    and "\<And>jobs j. fl_phase (cs_flusher s) = Acknowledging (Inr ()) jobs \<Longrightarrow> j \<in> set jobs \<Longrightarrow> durable_job mode s (job_ack j)"
    and "\<And>k r. (k, r) \<in> set (fl_acks (cs_flusher s)) \<Longrightarrow> fmlookup (cs_jobs s) k \<noteq> None"
    and "\<And>k. (k, Inr ()) \<in> set (fl_acks (cs_flusher s)) \<Longrightarrow> durable_job mode s k"
  shows "commit_ok mode s"
  unfolding commit_ok_def Let_def using assms by auto

lemma commit_okD:
  assumes "commit_ok mode s"
  shows "fl_durable (cs_flusher s) \<le> fl_written (cs_flusher s)"
    and "fmlookup (cs_jobs s) k = Some (j, n) \<Longrightarrow> n \<le> fl_written (cs_flusher s)"
    and "j \<in> set (fl_queue (cs_flusher s)) \<Longrightarrow> \<exists>n. fmlookup (cs_jobs s) (job_ack j) = Some (j, n)"
    and "j \<in> set (in_flight (fl_phase (cs_flusher s))) \<Longrightarrow> \<exists>n. fmlookup (cs_jobs s) (job_ack j) = Some (j, n)"
    and "fl_phase (cs_flusher s) = Acknowledging (Inr ()) jobs \<Longrightarrow> j \<in> set jobs \<Longrightarrow> durable_job mode s (job_ack j)"
    and "(k, r) \<in> set (fl_acks (cs_flusher s)) \<Longrightarrow> fmlookup (cs_jobs s) k \<noteq> None"
    and "(k, Inr ()) \<in> set (fl_acks (cs_flusher s)) \<Longrightarrow> durable_job mode s k"
  using assms unfolding commit_ok_def Let_def by blast+

text \<open>Steps that leave the jobs alone, and add no acknowledgement.\<close>

lemma commit_ok_keep:
  assumes ok: "commit_ok mode s" and jobs: "cs_jobs s' = cs_jobs s" and written: "fl_written (cs_flusher s) \<le> fl_written (cs_flusher s')"
    and durable: "fl_durable (cs_flusher s) \<le> fl_durable (cs_flusher s')" "fl_durable (cs_flusher s') \<le> fl_written (cs_flusher s')"
    and sub: "set (fl_queue (cs_flusher s')) \<union> set (in_flight (fl_phase (cs_flusher s'))) \<subseteq>
      set (fl_queue (cs_flusher s)) \<union> set (in_flight (fl_phase (cs_flusher s)))"
    and ack: "\<And>jobs j. fl_phase (cs_flusher s') = Acknowledging (Inr ()) jobs \<Longrightarrow> j \<in> set jobs \<Longrightarrow> durable_job mode s' (job_ack j)"
    and acks: "fl_acks (cs_flusher s') = fl_acks (cs_flusher s)"
  shows "commit_ok mode s'"
proof (rule commit_okI)
  fix k j n
  assume "fmlookup (cs_jobs s') k = Some (j, n)"
  then show "n \<le> fl_written (cs_flusher s')" using commit_okD(2) [OF ok, of k j n] jobs written by simp
next
  fix j
  have "\<exists>n. fmlookup (cs_jobs s') (job_ack j) = Some (j, n)"
    if "j \<in> set (fl_queue (cs_flusher s')) \<union> set (in_flight (fl_phase (cs_flusher s')))"
    using subsetD [OF sub that] commit_okD(3,4) [OF ok, of j] unfolding jobs by blast
  then show "j \<in> set (fl_queue (cs_flusher s')) \<Longrightarrow> \<exists>n. fmlookup (cs_jobs s') (job_ack j) = Some (j, n)"
    "j \<in> set (in_flight (fl_phase (cs_flusher s'))) \<Longrightarrow> \<exists>n. fmlookup (cs_jobs s') (job_ack j) = Some (j, n)" by simp_all
next
  fix k
  assume "(k, Inr ()) \<in> set (fl_acks (cs_flusher s'))"
  then show "durable_job mode s' k"
    using durable_job_mono [OF commit_okD(7) [OF ok, of k] jobs durable(1)] acks by simp
next
  fix js j
  assume "fl_phase (cs_flusher s') = Acknowledging (Inr ()) js" "j \<in> set js"
  then show "durable_job mode s' (job_ack j)" by (rule ack)
next
  fix k r
  assume "(k, r) \<in> set (fl_acks (cs_flusher s'))"
  then show "fmlookup (cs_jobs s') k \<noteq> None" using commit_okD(6) [OF ok] unfolding jobs acks by blast
qed (rule durable(2))

lemma commit_step_ok: "commit_step mode s s' \<Longrightarrow> commit_ok mode s \<Longrightarrow> commit_ok mode s'"
proof (induction rule: commit_step.induct)
  case (append s n)
  show ?case
  proof (rule commit_ok_keep [OF append])
    fix jobs j
    assume "fl_phase (cs_flusher (s\<lparr>cs_flusher := (cs_flusher s)\<lparr>fl_written := fl_written (cs_flusher s) + n\<rparr>\<rparr>)) =
      Acknowledging (Inr ()) jobs" "j \<in> set jobs"
    then have "durable_job mode s (job_ack j)" using commit_okD(5) [OF append, of jobs j] by simp
    then show "durable_job mode (s\<lparr>cs_flusher := (cs_flusher s)\<lparr>fl_written := fl_written (cs_flusher s) + n\<rparr>\<rparr>) (job_ack j)"
      by (rule durable_job_mono) simp_all
  qed (use commit_okD(1) [OF append] in simp_all)
next
  case (submit s j f)
  let ?s' = "\<lparr>cs_flusher = f, cs_jobs = fmupd (job_ack j) (j, fl_written (cs_flusher s)) (cs_jobs s)\<rparr>"
  have f: "f = (cs_flusher s)\<lparr>fl_queue := fl_queue (cs_flusher s) @ [j]\<rparr>"
    using submit(2) by (simp add: flusher_send_def split: if_splits)
  note D = commit_okD [OF submit(3)]
  have dur: "durable_job mode ?s' k" if "durable_job mode s k" "fmlookup (cs_jobs s) k \<noteq> None" for k
    using that submit(1) by (auto simp: durable_job_def f)
  have old: "\<exists>n. fmlookup (cs_jobs ?s') (job_ack i) = Some (i, n)" if "\<exists>n. fmlookup (cs_jobs s) (job_ack i) = Some (i, n)" for i
    using that submit(1) by auto
  show ?case
  proof (rule commit_okI)
    fix jobs i
    assume "fl_phase (cs_flusher ?s') = Acknowledging (Inr ()) jobs" "i \<in> set jobs"
    then have ph: "fl_phase (cs_flusher s) = Acknowledging (Inr ()) jobs" "i \<in> set jobs" by (simp_all add: f)
    then have "\<exists>n. fmlookup (cs_jobs s) (job_ack i) = Some (i, n)" using D(4) [of i] by simp
    then show "durable_job mode ?s' (job_ack i)" using dur [OF D(5) [OF ph]] by auto
  next
    fix k
    assume "(k, Inr ()) \<in> set (fl_acks (cs_flusher ?s'))"
    then show "durable_job mode ?s' k" using dur D(6,7) by (simp add: f)
  next
    fix i assume "i \<in> set (fl_queue (cs_flusher ?s'))"
    then have "i = j \<or> i \<in> set (fl_queue (cs_flusher s))" by (auto simp: f)
    then show "\<exists>n. fmlookup (cs_jobs ?s') (job_ack i) = Some (i, n)" using old [OF D(3), of i] by (cases "i = j") simp_all
  next
    fix i assume "i \<in> set (in_flight (fl_phase (cs_flusher ?s')))"
    then show "\<exists>n. fmlookup (cs_jobs ?s') (job_ack i) = Some (i, n)" using old [OF D(4)] by (simp add: f)
  qed (use D(1,2,6) in \<open>auto simp: f split: if_splits\<close>)
next
  case (tick s res)
  then show ?case
    using commit_okD(1) [OF tick(4)] by (intro commit_ok_keep [OF tick(4)]) (auto simp: flusher_tick_def Let_def split: sum.splits)
next
  case (hang_up s res)
  then show ?case
    using commit_okD(1) [OF hang_up(3)] by (intro commit_ok_keep [OF hang_up(3)]) (auto simp: flusher_exit_def split: sum.splits)
next
  case (gather s)
  then show ?case using commit_okD(1) [OF gather(3)] by (intro commit_ok_keep [OF gather(3)]) (auto simp: gather_def)
next
  case (flush s jobs res)
  note D = commit_okD [OF flush(2)]
  show ?case
  proof (rule commit_ok_keep [OF flush(2)])
    fix js j
    assume ph: "fl_phase (cs_flusher (s\<lparr>cs_flusher := flush_batch mode res jobs (cs_flusher s)\<rparr>)) = Acknowledging (Inr ()) js" "j \<in> set js"
    then have js: "js = jobs" by (auto simp: flush_batch_def split: if_splits)
    obtain n where n: "fmlookup (cs_jobs s) (job_ack j) = Some (j, n)" "n \<le> fl_written (cs_flusher s)"
      using D(4) [of j] D(2) [of "job_ack j" j] flush(1) ph(2) js by auto
    have "has_seal jobs" if "is_seal j" using that ph(2) js by (auto simp: has_seal_def list_ex_iff)
    then show "durable_job mode (s\<lparr>cs_flusher := flush_batch mode res jobs (cs_flusher s)\<rparr>) (job_ack j)"
      using n ph(1) by (auto simp: durable_job_def flush_batch_def split: if_splits sum.splits)
  qed (use D(1) flush(1) in \<open>auto simp: flush_batch_def split: sum.splits\<close>)
next
  case (acknowledge s outcome jobs)
  note D = commit_okD [OF acknowledge(2)]
  let ?s' = "s\<lparr>cs_flusher := acknowledge outcome jobs (cs_flusher s)\<rparr>"
  have dur: "durable_job mode ?s' k = durable_job mode s k" for k by (simp add: durable_job_def acknowledge_def)
  show ?case
  proof (rule commit_okI)
    fix k
    assume "(k, Inr ()) \<in> set (fl_acks (cs_flusher ?s'))"
    then show "durable_job mode ?s' k" using D(5,7) acknowledge(1) unfolding dur by (auto simp: acknowledge_def)
  next
    fix k r
    assume "(k, r) \<in> set (fl_acks (cs_flusher ?s'))"
    then show "fmlookup (cs_jobs ?s') k \<noteq> None" using D(4,6) acknowledge(1) by (fastforce simp: acknowledge_def)
  qed (use D(1-3) in \<open>auto simp: acknowledge_def split: if_splits\<close>)
qed

text \<open>C9: An acknowledged write is durable.  However the appenders' writes and submissions, the timer, and the outcomes of
  \<open>sync_data\<close> interleave with the flusher: when a job is acknowledged without an error, in the mode \<open>Always\<close> or as a seal,
  everything written to the file before the job was submitted is durable.\<close>

theorem acknowledged_write_is_durable:
  assumes "(commit_step mode)\<^sup>*\<^sup>* \<lparr>cs_flusher = flusher_spawn written durable, cs_jobs = fmempty\<rparr> s"
    and "durable \<le> written" and "(k, Inr ()) \<in> set (fl_acks (cs_flusher s))" and "fmlookup (cs_jobs s) k = Some (j, n)"
    and "mode = Always \<or> is_seal j"
  shows "n \<le> fl_durable (cs_flusher s)"
proof -
  have "commit_ok mode \<lparr>cs_flusher = flusher_spawn written durable, cs_jobs = fmempty\<rparr>"
    using assms(2) by (intro commit_okI) (simp_all add: flusher_spawn_def)
  with assms(1) have "commit_ok mode s" by (induction rule: rtranclp_induct) (auto intro: commit_step_ok)
  then show ?thesis using commit_okD(7) assms(3-5) unfolding durable_job_def by blast
qed


text \<open>One append, one submission, and a flush that succeeds.\<close>

theorem acknowledged_write_is_durable_witness:
  "\<exists>s. (commit_step Always)\<^sup>*\<^sup>* \<lparr>cs_flusher = flusher_spawn 10 10, cs_jobs = fmempty\<rparr> s \<and>
     (0, Inr ()) \<in> set (fl_acks (cs_flusher s)) \<and> fmlookup (cs_jobs s) 0 = Some (Sync 0, 15) \<and> 15 \<le> fl_durable (cs_flusher s)"
proof -
  let ?s0 = "\<lparr>cs_flusher = flusher_spawn 10 10, cs_jobs = fmempty\<rparr>"
  let ?s1 = "?s0\<lparr>cs_flusher := (flusher_spawn 10 10)\<lparr>fl_written := 15\<rparr>\<rparr>"
  let ?f2 = "(flusher_spawn 10 10)\<lparr>fl_written := 15, fl_queue := [Sync 0]\<rparr>"
  let ?s2 = "\<lparr>cs_flusher = ?f2, cs_jobs = fmupd 0 (Sync 0, 15) fmempty\<rparr>"
  let ?s3 = "?s2\<lparr>cs_flusher := gather ?f2\<rparr>"
  let ?s4 = "?s3\<lparr>cs_flusher := flush_batch Always (Inr ()) [Sync 0] (gather ?f2)\<rparr>"
  let ?s5 = "?s4\<lparr>cs_flusher := acknowledge (Inr ()) [Sync 0] (flush_batch Always (Inr ()) [Sync 0] (gather ?f2))\<rparr>"
  have "commit_step Always ?s0 ?s1" using commit_step.append [of Always ?s0 5] by (simp add: flusher_spawn_def)
  moreover have "commit_step Always ?s1 ?s2"
    using commit_step.submit [of ?s1 "Sync 0" ?f2 Always] by (simp add: flusher_send_def flusher_spawn_def)
  moreover have "commit_step Always ?s2 ?s3" using commit_step.gather [of ?s2 Always] by (simp add: flusher_spawn_def)
  moreover have "commit_step Always ?s3 ?s4"
    using commit_step.flush [of ?s3 "[Sync 0]" Always "Inr ()"] by (simp add: gather_def flusher_spawn_def)
  moreover have "commit_step Always ?s4 ?s5"
    using commit_step.acknowledge [of ?s4 "Inr ()" "[Sync 0]" Always] by (simp add: flush_batch_def)
  ultimately have run: "(commit_step Always)\<^sup>*\<^sup>* ?s0 ?s5" by (meson converse_rtranclp_into_rtranclp rtranclp.rtrancl_refl)
  have acked: "(0, Inr ()) \<in> set (fl_acks (cs_flusher ?s5))" "fmlookup (cs_jobs ?s5) 0 = Some (Sync 0, 15)"
    by (simp_all add: acknowledge_def)
  have "15 \<le> fl_durable (cs_flusher ?s5)" by (rule acknowledged_write_is_durable [OF run _ acked]) simp_all
  then show ?thesis using run acked by blast
qed

end
