(* ===== verification/Opticon.thy ===== *)
theory Opticon
  imports Prelude
begin

text \<open>
  Optimistic concurrency over an object store, \<open>OptiCon\<close> of \<open>dynostore/opticon.rs\<close>: a JSON document of
  the object store that many brokers update.  Each handle caches the document with its version; \<open>with_mut\<close> applies
  a function to the cached document and puts the result on the condition that the version is still the current one, and on a
  conflict reads the document again and starts over.  The object store and the JSON codec are parameters.
\<close>

section \<open>The object store\<close>

text \<open>The errors of the store that the code tells apart.\<close>

datatype os_error = NotFound | NotModified | Precondition | AlreadyExists | OtherError error

datatype 'v put_mode = Create | Update 'v | Overwrite

text \<open>\<open>get\<close> with an optional e-tag that the answer must differ from, and \<open>put_opts\<close>, for the path of the document;
  the store may change with every call.\<close>

record ('s, 'v) object_store =
  os_get :: "'v option \<Rightarrow> 's \<Rightarrow> (os_error + bytes \<times> 'v) \<times> 's"
  os_put :: "'v put_mode \<Rightarrow> bytes \<Rightarrow> 's \<Rightarrow> (os_error + 'v) \<times> 's"

record 'd json =
  to_json :: "'d \<Rightarrow> error + bytes"
  of_json :: "bytes \<Rightarrow> error + 'd"
  json_default :: 'd

section \<open>A handle\<close>

record ('d, 'v) data_version =
  dv_data :: 'd
  dv_version :: "'v option"

type_synonym ('d, 'v) cache = "('d, 'v) data_version option"

text \<open>The error a caller sees.\<close>

definition os_failure :: "os_error \<Rightarrow> error" where
  "os_failure e = (case e of OtherError err \<Rightarrow> err | _ \<Rightarrow> Message ''object store'')"

definition put_mode_of :: "('d, 'v) data_version \<Rightarrow> 'v put_mode" where
  "put_mode_of dv = (case dv_version dv of None \<Rightarrow> Create | Some v \<Rightarrow> Update v)"

definition opticon_get ::
    "('s, 'v) object_store \<Rightarrow> 'd json \<Rightarrow> ('d, 'v) cache \<Rightarrow> 's \<Rightarrow> (error + unit) \<times> ('d, 'v) cache \<times> 's" where
  "opticon_get os js c s =
     (case os_get os None s of
        (Inr (bs, v), s') \<Rightarrow>
          (case of_json js bs of
             Inl e \<Rightarrow> (Inl e, c, s')
           | Inr d \<Rightarrow> (Inr (), Some \<lparr>dv_data = d, dv_version = Some v\<rparr>, s'))
      | (Inl NotFound, s') \<Rightarrow> (Inr (), None, s')
      | (Inl e, s') \<Rightarrow> (Inl (os_failure e), c, s'))"

definition opticon_with ::
    "('s, 'v) object_store \<Rightarrow> 'd json \<Rightarrow> ('d \<Rightarrow> error + 'e) \<Rightarrow> ('d, 'v) cache \<Rightarrow> 's \<Rightarrow>
     (error + 'e) \<times> ('d, 'v) cache \<times> 's" where
  "opticon_with os js f c s =
     (let known = (case c of None \<Rightarrow> None | Some dv \<Rightarrow> dv_version dv);
          (res, c', s') =
            (case os_get os known s of
               (Inr (bs, v), s') \<Rightarrow>
                 (case of_json js bs of
                    Inl e \<Rightarrow> (Inl e, c, s')
                  | Inr d \<Rightarrow> (Inr (), Some \<lparr>dv_data = d, dv_version = Some v\<rparr>, s'))
             | (Inl NotFound, s') \<Rightarrow> (Inr (), None, s')
             | (Inl NotModified, s') \<Rightarrow> (Inr (), c, s')
             | (Inl e, s') \<Rightarrow> (Inl (os_failure e), c, s'))
      in (case res of
            Inl e \<Rightarrow> (Inl e, c', s')
          | Inr _ \<Rightarrow> (f (case c' of None \<Rightarrow> json_default js | Some dv \<Rightarrow> dv_data dv), c', s')))"

text \<open>The steps of \<open>with_mut\<close> between its \<open>await\<close>s.  The update function sees the cached document and gives an outcome
  and a new document; both are kept until the put is answered.\<close>

datatype ('d, 'v, 'e) task =
    Ready
  | Putting "error + 'e" "('d, 'v) data_version"
  | Refreshing
  | Returned "error + 'e"
  | Failed error

definition try_update ::
    "'d json \<Rightarrow> ('d \<Rightarrow> (error + 'e) \<times> 'd) \<Rightarrow> ('d, 'v) cache \<Rightarrow> (error + 'e) \<times> ('d, 'v) data_version" where
  "try_update js f c =
     (let dv = (case c of None \<Rightarrow> \<lparr>dv_data = json_default js, dv_version = None\<rparr> | Some dv \<Rightarrow> dv);
          (outcome, d) = f (dv_data dv)
      in (outcome, dv\<lparr>dv_data := d\<rparr>))"

definition put_step ::
    "('s, 'v) object_store \<Rightarrow> 'd json \<Rightarrow> error + 'e \<Rightarrow> ('d, 'v) data_version \<Rightarrow> ('d, 'v) cache \<Rightarrow> 's \<Rightarrow>
     ('d, 'v, 'e) task \<times> ('d, 'v) cache \<times> 's" where
  "put_step os js outcome dv c s =
     (case to_json js (dv_data dv) of
        Inl e \<Rightarrow> (Failed e, c, s)
      | Inr bs \<Rightarrow>
          (case os_put os (put_mode_of dv) bs s of
             (Inr v, s') \<Rightarrow> (Returned outcome, Some \<lparr>dv_data = dv_data dv, dv_version = Some v\<rparr>, s')
           | (Inl Precondition, s') \<Rightarrow> (Refreshing, c, s')
           | (Inl AlreadyExists, s') \<Rightarrow> (Refreshing, c, s')
           | (Inl e, s') \<Rightarrow> (Failed (os_failure e), c, s')))"

fun task_step ::
    "('s, 'v) object_store \<Rightarrow> 'd json \<Rightarrow> ('d \<Rightarrow> (error + 'e) \<times> 'd) \<Rightarrow> ('d, 'v, 'e) task \<Rightarrow> ('d, 'v) cache \<Rightarrow> 's \<Rightarrow>
     ('d, 'v, 'e) task \<times> ('d, 'v) cache \<times> 's" where
  "task_step os js f Ready c s = (let (outcome, dv) = try_update js f c in (Putting outcome dv, c, s))"
| "task_step os js f (Putting outcome dv) c s = put_step os js outcome dv c s"
| "task_step os js f Refreshing c s =
     (case opticon_get os js c s of (Inl e, c', s') \<Rightarrow> (Failed e, c', s') | (Inr _, c', s') \<Rightarrow> (Ready, c', s'))"
| "task_step os js f (Returned r) c s = (Returned r, c, s)"
| "task_step os js f (Failed e) c s = (Failed e, c, s)"

text \<open>\<open>with_mut\<close> of a task that nothing interrupts, with a bound on its steps.\<close>

fun with_mut ::
    "nat \<Rightarrow> ('s, 'v) object_store \<Rightarrow> 'd json \<Rightarrow> ('d \<Rightarrow> (error + 'e) \<times> 'd) \<Rightarrow> ('d, 'v, 'e) task \<Rightarrow> ('d, 'v) cache \<Rightarrow> 's \<Rightarrow>
     ((error + 'e) \<times> ('d, 'v) cache \<times> 's) option" where
  "with_mut 0 os js f t c s = None"
| "with_mut (Suc n) os js f t c s =
     (case t of
        Returned r \<Rightarrow> Some (r, c, s)
      | Failed e \<Rightarrow> Some (Inl e, c, s)
      | _ \<Rightarrow> (let (t', c', s') = task_step os js f t c s in with_mut n os js f t' c' s'))"

text \<open>The single-node mode: the handle has no other writers, and overwrites.\<close>

definition with_mut_local ::
    "('s, 'v) object_store \<Rightarrow> 'd json \<Rightarrow> ('d \<Rightarrow> (error + 'e) \<times> 'd) \<Rightarrow> ('d, 'v) cache \<Rightarrow> 's \<Rightarrow>
     (error + 'e) \<times> ('d, 'v) cache \<times> 's" where
  "with_mut_local os js f c s =
     (let (outcome, dv) = try_update js f c in
      case to_json js (dv_data dv) of
        Inl e \<Rightarrow> (Inl e, c, s)
      | Inr bs \<Rightarrow>
          (case os_put os Overwrite bs s of
             (Inl e, s') \<Rightarrow> (Inl (os_failure e), c, s')
           | (Inr v, s') \<Rightarrow> (outcome, Some \<lparr>dv_data = dv_data dv, dv_version = Some v\<rparr>, s')))"

end
