(* ===== verification/Opticon_Spec.thy ===== *)
theory Opticon_Spec
  imports Opticon
begin

text \<open>
  Many brokers with concurrent tasks on one document: every acknowledged update is applied exactly once, in one order.
  What the proof needs of the object store is stated here; a store with these promises closes the theory.  The single-node mode
  does not have the property across a restart.
\<close>

section \<open>What the store promises\<close>

text \<open>
  \<open>view\<close> is the document that is stored, with its version.  A version identifies the content (\<open>payload\<close>); a read
  returns what is stored and changes nothing; a conditional put that is answered took effect exactly if the condition
  held, a refused one did nothing, and any other failure may or may not have taken effect.
\<close>

definition admits :: "'v put_mode \<Rightarrow> (bytes \<times> 'v) option \<Rightarrow> bool" where
  "admits mode x = (case mode of Create \<Rightarrow> x = None | Update v \<Rightarrow> (\<exists>bs. x = Some (bs, v)) | Overwrite \<Rightarrow> True)"

definition identifies :: "('s \<Rightarrow> (bytes \<times> 'v) option) \<Rightarrow> ('v \<Rightarrow> bytes) \<Rightarrow> bool" where
  "identifies view payload \<longleftrightarrow> (\<forall>s bs v. view s = Some (bs, v) \<longrightarrow> payload v = bs)"

definition reads_stored :: "('s, 'v) object_store \<Rightarrow> ('s \<Rightarrow> (bytes \<times> 'v) option) \<Rightarrow> bool" where
  "reads_stored os view \<longleftrightarrow> (\<forall>known s r s'. os_get os known s = (r, s') \<longrightarrow> view s' = view s \<and>
     (\<forall>x. r = Inr x \<longrightarrow> view s = Some x))"

definition puts_on_condition :: "('s, 'v) object_store \<Rightarrow> ('s \<Rightarrow> (bytes \<times> 'v) option) \<Rightarrow> bool" where
  "puts_on_condition os view \<longleftrightarrow> (\<forall>mode bs s r s'. os_put os mode bs s = (r, s') \<longrightarrow>
     (case r of
        Inr v \<Rightarrow> admits mode (view s) \<and> view s' = Some (bs, v)
      | Inl Precondition \<Rightarrow> view s' = view s
      | Inl AlreadyExists \<Rightarrow> view s' = view s
      | Inl e \<Rightarrow> view s' = view s \<or> admits mode (view s) \<and> (\<exists>v. view s' = Some (bs, v))))"

definition json_round_trips :: "'d json \<Rightarrow> bool" where
  "json_round_trips js \<longleftrightarrow> (\<forall>d bs. to_json js d = Inr bs \<longrightarrow> of_json js bs = Inr d)"

section \<open>Handles and tasks\<close>

record ('s, 'd, 'v, 'e) opticon_system =
  oc_store :: 's
  oc_caches :: "('d, 'v) cache list"
  oc_tasks :: "('d, 'v, 'e) task list"

text \<open>Task \<open>k\<close> runs \<open>with_mut\<close> with the function \<open>f k\<close> on the handle \<open>h k\<close>; handles are also read.\<close>

inductive opticon_step ::
    "('s, 'v) object_store \<Rightarrow> 'd json \<Rightarrow> (nat \<Rightarrow> nat) \<Rightarrow> (nat \<Rightarrow> 'd \<Rightarrow> (error + 'e) \<times> 'd) \<Rightarrow>
     ('s, 'd, 'v, 'e) opticon_system \<Rightarrow> ('s, 'd, 'v, 'e) opticon_system \<Rightarrow> bool" for os js h f where
  task: "k < length (oc_tasks x) \<Longrightarrow> h k < length (oc_caches x) \<Longrightarrow>
    task_step os js (f k) (oc_tasks x ! k) (oc_caches x ! h k) (oc_store x) = (t, c, s) \<Longrightarrow>
    opticon_step os js h f x
      \<lparr>oc_store = s, oc_caches = (oc_caches x)[h k := c], oc_tasks = (oc_tasks x)[k := t]\<rparr>"
| read: "i < length (oc_caches x) \<Longrightarrow>
    opticon_with os js g (oc_caches x ! i) (oc_store x) = (r :: error + 'e, c, s) \<Longrightarrow>
    opticon_step os js h f x (x\<lparr>oc_store := s, oc_caches := (oc_caches x)[i := c]\<rparr>)"

text \<open>The document, and the effect of a sequence of updates.\<close>

definition document :: "'d json \<Rightarrow> (bytes \<times> 'v) option \<Rightarrow> 'd" where
  "document js x = (case x of None \<Rightarrow> json_default js | Some (bs, _) \<Rightarrow> projr (of_json js bs))"

definition updated :: "(nat \<Rightarrow> 'd \<Rightarrow> (error + 'e) \<times> 'd) \<Rightarrow> nat list \<Rightarrow> 'd \<Rightarrow> 'd" where
  "updated f ks d = fold (\<lambda>k d. snd (f k d)) ks d"

lemma updated_snoc [simp]: "updated f (ks @ [k]) d = snd (f k (updated f ks d))"
  by (simp add: updated_def)

section \<open>Serialization\<close>

text \<open>What a cached version stands for.\<close>

definition base_of :: "'d json \<Rightarrow> ('v \<Rightarrow> bytes) \<Rightarrow> 'v option \<Rightarrow> error + 'd" where
  "base_of js payload v = (case v of None \<Rightarrow> Inr (json_default js) | Some v \<Rightarrow> of_json js (payload v))"

definition handle_ok :: "'d json \<Rightarrow> ('v \<Rightarrow> bytes) \<Rightarrow> ('d, 'v) cache \<Rightarrow> bool" where
  "handle_ok js payload c \<longleftrightarrow> (\<forall>dv. c = Some dv \<longrightarrow> base_of js payload (dv_version dv) = Inr (dv_data dv))"

definition task_ok :: "'d json \<Rightarrow> ('v \<Rightarrow> bytes) \<Rightarrow> ('d \<Rightarrow> (error + 'e) \<times> 'd) \<Rightarrow> ('d, 'v, 'e) task \<Rightarrow> bool" where
  "task_ok js payload f t \<longleftrightarrow> (\<forall>outcome dv. t = Putting outcome dv \<longrightarrow>
     (\<exists>d. base_of js payload (dv_version dv) = Inr d \<and> f d = (outcome, dv_data dv)))"

definition serial :: "(nat \<Rightarrow> 'd \<Rightarrow> (error + 'e) \<times> 'd) \<Rightarrow> 'd \<Rightarrow> nat list \<Rightarrow> ('d, 'v, 'e) task list \<Rightarrow> bool" where
  "serial f d ks ts \<longleftrightarrow> distinct ks \<and>
     (\<forall>k < length ts. \<forall>r. ts ! k = Returned r \<longrightarrow> (\<exists>before after. ks = before @ k # after \<and> r = fst (f k (updated f before d)))) \<and>
     (\<forall>k \<in> set ks. k < length ts \<and> ((\<exists>r. ts ! k = Returned r) \<or> (\<exists>e. ts ! k = Failed e)))"

lemma try_update_ok: "handle_ok js payload c \<Longrightarrow> try_update js f c = (outcome, dv) \<Longrightarrow> task_ok js payload f (Putting outcome dv)"
  by (cases c) (auto simp: try_update_def Let_def task_ok_def handle_ok_def base_of_def split: prod.splits)

lemma serial_other:
  assumes "serial f d ks ts" and "k < length ts" and "\<And>r. ts ! k \<noteq> Returned r" "\<And>e. ts ! k \<noteq> Failed e" and "\<And>r. t \<noteq> Returned r"
  shows "serial f d ks (ts[k := t])"
proof -
  have "k \<notin> set ks" using assms unfolding serial_def by blast
  then show ?thesis using assms(1,2,5) unfolding serial_def by (auto simp: nth_list_update)
qed

lemma serial_snoc:
  assumes "serial f d ks ts" and "k < length ts" and "\<And>r. ts ! k \<noteq> Returned r" "\<And>e. ts ! k \<noteq> Failed e"
    and "t = Returned (fst (f k (updated f ks d))) \<or> (\<exists>e. t = Failed e)"
  shows "serial f d (ks @ [k]) (ts[k := t])"
proof -
  have new: "k \<notin> set ks" using assms(1,3,4) unfolding serial_def by blast
  have "\<exists>before after. ks @ [k] = before @ j # after \<and> r = fst (f j (updated f before d))"
    if j: "j < length ts" "ts[k := t] ! j = Returned r" for j r
  proof (cases "j = k")
    case True
    then have "r = fst (f k (updated f ks d))" using assms(2,5) j(2) by auto
    then show ?thesis using True by blast
  next
    case False
    then obtain before after where "ks = before @ j # after" "r = fst (f j (updated f before d))"
      using assms(1) j unfolding serial_def by (metis nth_list_update_neq)
    then have "ks @ [k] = before @ j # (after @ [k]) \<and> r = fst (f j (updated f before d))" by simp
    then show ?thesis by blast
  qed
  moreover have "j < length ts \<and> ((\<exists>r. ts[k := t] ! j = Returned r) \<or> (\<exists>e. ts[k := t] ! j = Failed e))" if "j \<in> set (ks @ [k])" for j
    using assms(1,2,5) that unfolding serial_def by (cases "j = k") auto
  ultimately show ?thesis using assms(1) new unfolding serial_def by simp
qed

definition decodable :: "'d json \<Rightarrow> (bytes \<times> 'v) option \<Rightarrow> bool" where
  "decodable js x \<longleftrightarrow> (\<forall>bs v. x = Some (bs, v) \<longrightarrow> (\<exists>d. of_json js bs = Inr d))"

lemma admitted_document:
  assumes "identifies view payload" and "base_of js payload (dv_version dv) = Inr d" and "admits (put_mode_of dv) (view s)"
  shows "document js (view s) = d"
  using assms by (cases "dv_version dv") (auto simp: put_mode_of_def admits_def base_of_def identifies_def document_def)

lemma put_step_ok:
  assumes laws: "identifies view payload" "puts_on_condition os view" "json_round_trips js"
    and t: "task_ok js payload f (Putting outcome dv)" and c: "handle_ok js payload c"
    and run: "put_step os js outcome dv c s = (t', c', s')"
  shows "view s' = view s \<and> c' = c \<and> (t' = Refreshing \<or> (\<exists>e. t' = Failed e)) \<or>
    document js (view s') = snd (f (document js (view s))) \<and> decodable js (view s') \<and> handle_ok js payload c' \<and>
      (t' = Returned (fst (f (document js (view s)))) \<or> (\<exists>e. t' = Failed e))"
proof (cases "to_json js (dv_data dv)")
  case (Inl e)
  then show ?thesis using run by (auto simp: put_step_def)
next
  case (Inr bs)
  obtain r s1 where p: "os_put os (put_mode_of dv) bs s = (r, s1)" by fastforce
  then have s1: "s1 = s'" using run Inr by (auto simp: put_step_def split: sum.splits os_error.splits)
  obtain d where d: "base_of js payload (dv_version dv) = Inr d" "f d = (outcome, dv_data dv)" using t by (auto simp: task_ok_def)
  have rt: "of_json js bs = Inr (dv_data dv)" using laws(3) Inr by (simp add: json_round_trips_def)
  have effect: "document js (view s') = snd (f (document js (view s))) \<and> decodable js (view s') \<and> outcome = fst (f (document js (view s)))"
    if "admits (put_mode_of dv) (view s)" "view s' = Some (bs, v)" for v
    using admitted_document [OF laws(1) d(1) that(1)] d(2) that(2) rt by (simp add: document_def decodable_def)
  have law: "case r of
        Inr v \<Rightarrow> admits (put_mode_of dv) (view s) \<and> view s' = Some (bs, v)
      | Inl Precondition \<Rightarrow> view s' = view s
      | Inl AlreadyExists \<Rightarrow> view s' = view s
      | Inl e \<Rightarrow> view s' = view s \<or> admits (put_mode_of dv) (view s) \<and> (\<exists>v. view s' = Some (bs, v))"
    using laws(2) p s1 unfolding puts_on_condition_def by blast
  show ?thesis
  proof (cases r)
    case r: (Inr v)
    then have "t' = Returned outcome" "c' = Some \<lparr>dv_data = dv_data dv, dv_version = Some v\<rparr>"
      using run Inr p by (auto simp: put_step_def)
    moreover have "payload v = bs" using laws(1) law r by (auto simp: identifies_def)
    ultimately show ?thesis using effect law r rt by (auto simp: handle_ok_def base_of_def)
  next
    case r: (Inl e)
    have "view s' = view s \<or> admits (put_mode_of dv) (view s) \<and> (\<exists>v. view s' = Some (bs, v))" using law r by (cases e) auto
    moreover have "c' = c" "t' = Refreshing \<or> (\<exists>e. t' = Failed e)" "e = Precondition \<or> e = AlreadyExists \<longrightarrow> view s' = view s"
      "e \<noteq> Precondition \<and> e \<noteq> AlreadyExists \<longrightarrow> (\<exists>e. t' = Failed e)"
      using run Inr p r law by (cases e; auto simp: put_step_def)+
    ultimately show ?thesis using effect c by blast
  qed
qed

lemma opticon_get_ok:
  assumes "identifies view payload" and "reads_stored os view" and "handle_ok js payload c"
    and "opticon_get os js c s = (r, c', s')"
  shows "view s' = view s \<and> handle_ok js payload c'"
proof -
  obtain x s1 where g: "os_get os None s = (x, s1)" by fastforce
  have law: "view s1 = view s" "\<And>y. x = Inr y \<Longrightarrow> view s = Some y" using assms(2) g unfolding reads_stored_def by blast+
  show ?thesis
    using assms(1,3,4) g law
    by (auto simp: opticon_get_def handle_ok_def base_of_def identifies_def split: sum.splits os_error.splits prod.splits)
qed

lemma opticon_with_ok:
  assumes "identifies view payload" and "reads_stored os view" and "handle_ok js payload c"
    and "opticon_with os js g c s = (r, c', s')"
  shows "view s' = view s \<and> handle_ok js payload c'"
proof -
  obtain x s1 where g: "os_get os (case c of None \<Rightarrow> None | Some dv \<Rightarrow> dv_version dv) s = (x, s1)" by fastforce
  have law: "view s1 = view s" "\<And>y. x = Inr y \<Longrightarrow> view s = Some y" using assms(2) g unfolding reads_stored_def by blast+
  show ?thesis
    using assms(1,3,4) g law
    by (auto simp: opticon_with_def Let_def handle_ok_def base_of_def identifies_def split: sum.splits os_error.splits prod.splits)
qed

definition opticon_ok ::
    "'d json \<Rightarrow> ('s \<Rightarrow> (bytes \<times> 'v) option) \<Rightarrow> ('v \<Rightarrow> bytes) \<Rightarrow> (nat \<Rightarrow> 'd \<Rightarrow> (error + 'e) \<times> 'd) \<Rightarrow> 'd \<Rightarrow>
     ('s, 'd, 'v, 'e) opticon_system \<Rightarrow> bool" where
  "opticon_ok js view payload f d x \<longleftrightarrow>
     (\<exists>ks. serial f d ks (oc_tasks x) \<and> document js (view (oc_store x)) = updated f ks d) \<and>
     decodable js (view (oc_store x)) \<and> list_all (handle_ok js payload) (oc_caches x) \<and>
     (\<forall>k < length (oc_tasks x). task_ok js payload (f k) (oc_tasks x ! k))"

lemma list_all_update: "list_all P xs \<Longrightarrow> P y \<Longrightarrow> list_all P (xs[i := y])"
  using set_update_subset_insert [of xs i y] by (auto simp: list_all_iff)

lemma opticon_step_ok:
  assumes laws: "identifies view payload" "reads_stored os view" "puts_on_condition os view" "json_round_trips js"
  shows "opticon_step os js h f x x' \<Longrightarrow> opticon_ok js view payload f d x \<Longrightarrow> opticon_ok js view payload f d x'"
proof (induction rule: opticon_step.induct)
  case (read i x g r c s)
  have "handle_ok js payload (oc_caches x ! i)" using read(1,3) by (auto simp: opticon_ok_def list_all_length)
  from opticon_with_ok [OF laws(1,2) this read(2)] read(3) show ?case by (simp add: opticon_ok_def list_all_update)
next
  case (task k x t c s)
  let ?x' = "\<lparr>oc_store = s, oc_caches = (oc_caches x)[h k := c], oc_tasks = (oc_tasks x)[k := t]\<rparr>"
  obtain ks where ks: "serial f d ks (oc_tasks x)" "document js (view (oc_store x)) = updated f ks d"
    using task(4) by (auto simp: opticon_ok_def)
  have co: "handle_ok js payload (oc_caches x ! h k)" and to: "task_ok js payload (f k) (oc_tasks x ! k)"
    using task by (auto simp: opticon_ok_def list_all_length)
  have done_by: "opticon_ok js view payload f d ?x'"
    if "serial f d ks' ((oc_tasks x)[k := t])" "document js (view s) = updated f ks' d" "decodable js (view s)"
      "handle_ok js payload c" "task_ok js payload (f k) t" for ks'
    using that task(1,4) by (auto simp: opticon_ok_def list_all_update nth_list_update)
  have same: "opticon_ok js view payload f d ?x'"
    if "view s = view (oc_store x)" "handle_ok js payload c" "task_ok js payload (f k) t" "\<And>r. t \<noteq> Returned r"
      "\<And>r. oc_tasks x ! k \<noteq> Returned r" "\<And>e. oc_tasks x ! k \<noteq> Failed e"
    using that task(4) ks serial_other [OF ks(1) task(1) that(5,6,4)] by (intro done_by [of ks]) (auto simp: opticon_ok_def)
  show ?case
  proof (cases "oc_tasks x ! k")
    case Ready
    obtain outcome dv where a: "try_update js (f k) (oc_caches x ! h k) = (outcome, dv)" by fastforce
    then have "t = Putting outcome dv" "c = oc_caches x ! h k" "s = oc_store x" using task(3) Ready by auto
    then show ?thesis using same Ready co try_update_ok [OF co a] by auto
  next
    case (Putting outcome dv)
    have "put_step os js outcome dv (oc_caches x ! h k) (oc_store x) = (t, c, s)" using task(3) Putting by simp
    from put_step_ok [OF laws(1,3,4) to [unfolded Putting] co this]
    consider "view s = view (oc_store x)" "c = oc_caches x ! h k" "t = Refreshing \<or> (\<exists>e. t = Failed e)"
      | "document js (view s) = snd (f k (document js (view (oc_store x))))" "decodable js (view s)" "handle_ok js payload c"
        "t = Returned (fst (f k (document js (view (oc_store x))))) \<or> (\<exists>e. t = Failed e)" by blast
    then show ?thesis
    proof cases
      case 1
      then show ?thesis using same Putting co by (auto simp: task_ok_def)
    next
      case 2
      have "serial f d (ks @ [k]) ((oc_tasks x)[k := t])"
        using serial_snoc [OF ks(1) task(1), of t] 2(4) Putting ks(2) by auto
      then show ?thesis using 2 ks(2) by (intro done_by [of "ks @ [k]"]) (auto simp: task_ok_def)
    qed
  next
    case Refreshing
    obtain r where g: "opticon_get os js (oc_caches x ! h k) (oc_store x) = (r, c, s)" and t: "t = Ready \<or> (\<exists>e. t = Failed e)"
      using task(3) Refreshing by (auto split: prod.splits sum.splits)
    then show ?thesis using same opticon_get_ok [OF laws(1,2) co g] Refreshing by (auto simp: task_ok_def)
  next
    case (Returned r)
    then have "t = oc_tasks x ! k" "c = oc_caches x ! h k" "s = oc_store x" using task(3) by auto
    then show ?thesis using task(4) by (simp add: opticon_ok_def)
  next
    case (Failed e)
    then have "t = oc_tasks x ! k" "c = oc_caches x ! h k" "s = oc_store x" using task(3) by auto
    then show ?thesis using task(4) by (simp add: opticon_ok_def)
  qed
qed

text \<open>C8: No update is lost.  Any number of brokers, each with its handles and concurrent tasks, run \<open>with_mut\<close> and \<open>with\<close> on one
  document, interleaved at every access to the object store, whose requests may fail.  Then the stored document is the result
  of applying, one after the other, the functions of some of the tasks, each at most once; every task whose put was
  acknowledged is among them and returned what its function gave at its place in that order, and the others are tasks that
  failed.\<close>

theorem with_mut_serializable:
  assumes "identifies view payload" and "reads_stored os view" and "puts_on_condition os view" and "json_round_trips js"
    and "decodable js (view (oc_store x))" and "\<forall>c \<in> set (oc_caches x). c = None" and "\<forall>t \<in> set (oc_tasks x). t = Ready"
    and "(opticon_step os js h f)\<^sup>*\<^sup>* x y"
  shows "\<exists>ks. distinct ks \<and>
    document js (view (oc_store y)) = fold (\<lambda>k d. snd (f k d)) ks (document js (view (oc_store x))) \<and>
    (\<forall>k < length (oc_tasks y). \<forall>r. oc_tasks y ! k = Returned r \<longrightarrow>
      (\<exists>before after. ks = before @ k # after \<and>
        r = fst (f k (fold (\<lambda>k d. snd (f k d)) before (document js (view (oc_store x))))))) \<and>
    (\<forall>k \<in> set ks. (\<exists>r. oc_tasks y ! k = Returned r) \<or> (\<exists>e. oc_tasks y ! k = Failed e))"
proof -
  let ?d = "document js (view (oc_store x))"
  have ready: "oc_tasks x ! k = Ready" if "k < length (oc_tasks x)" for k using assms(7) that by simp
  then have "serial f ?d [] (oc_tasks x)" by (simp add: serial_def)
  then have "\<exists>ks. serial f ?d ks (oc_tasks x) \<and> ?d = updated f ks ?d" by (intro exI [of _ "[]"]) (simp add: updated_def)
  moreover have "list_all (handle_ok js payload) (oc_caches x)" using assms(6) by (auto simp: list_all_iff handle_ok_def)
  ultimately have "opticon_ok js view payload f ?d x"
    using assms(5) ready by (simp add: opticon_ok_def task_ok_def)
  with assms(8) have "opticon_ok js view payload f ?d y"
    by (induction rule: rtranclp_induct) (auto intro: opticon_step_ok [OF assms(1-4)])
  then show ?thesis unfolding opticon_ok_def serial_def updated_def by blast
qed

section \<open>The single-node mode after a restart\<close>

text \<open>The watermark of a partition, and the offsets a produce takes from it.\<close>

record watermark =
  wm_low :: "int option"
  wm_high :: "int option"
  wm_timestamps :: "(int, int) fmap option"

definition take_offsets :: "int \<Rightarrow> watermark \<Rightarrow> (error + int) \<times> watermark" where
  "take_offsets last_offset_delta w =
     (Inr (case wm_high w of None \<Rightarrow> 0 | Some high \<Rightarrow> high),
      w\<lparr>wm_high := Some (case wm_high w of None \<Rightarrow> last_offset_delta + 1 | Some high \<Rightarrow> wrap_signed 64 (high + last_offset_delta + 1)),
        wm_timestamps := None\<rparr>)"

text \<open>A new handle of the single-node mode does not read the document: the first update after a restart starts
  from the default one and overwrites what is stored, so that a produce is given offset 0 again.\<close>

lemma local_restart_overwrites:
  assumes "puts_on_condition os view" and "json_round_trips js" and "with_mut_local os js f None s = (Inr r, c, s')"
  shows "document js (view s') = snd (f (json_default js)) \<and> fst (f (json_default js)) = Inr r"
proof -
  obtain outcome d where f: "f (json_default js) = (outcome, d)" by fastforce
  obtain bs where bs: "to_json js d = Inr bs"
    using assms(3) f by (cases "to_json js d") (auto simp: with_mut_local_def try_update_def)
  obtain x s1 where p: "os_put os Overwrite bs s = (x, s1)" by fastforce
  obtain v where v: "x = Inr v" "s1 = s'" "outcome = Inr r"
    using assms(3) f bs p by (cases x) (auto simp: with_mut_local_def try_update_def)
  then have "view s' = Some (bs, v)" using assms(1) p unfolding puts_on_condition_def by fastforce
  then show ?thesis using f v(3) assms(2) bs by (simp add: document_def json_round_trips_def)
qed

lemma local_restart_reuses_offsets:
  assumes "puts_on_condition os view" and "json_round_trips js"
    and "json_default js = \<lparr>wm_low = None, wm_high = None, wm_timestamps = None\<rparr>"
    and "with_mut_local os js (take_offsets n) None s = (Inr r, c, s')"
  shows "r = 0 \<and> wm_high (document js (view s')) = Some (n + 1)"
  using local_restart_overwrites [OF assms(1,2,4)] assms(3) by (simp add: take_offsets_def)

section \<open>A run\<close>

text \<open>A store whose version of a document is its content, and two brokers that append their number to it.\<close>

definition digest_get :: "bytes option \<Rightarrow> bytes option \<Rightarrow> (os_error + bytes \<times> bytes) \<times> bytes option" where
  "digest_get known s =
     (case s of None \<Rightarrow> (Inl NotFound, s)
      | Some bs \<Rightarrow> if known = Some bs then (Inl NotModified, s) else (Inr (bs, bs), s))"

definition digest_put :: "bytes put_mode \<Rightarrow> bytes \<Rightarrow> bytes option \<Rightarrow> (os_error + bytes) \<times> bytes option" where
  "digest_put mode bs s =
     (case mode of
        Create \<Rightarrow> (case s of None \<Rightarrow> (Inr bs, Some bs) | Some _ \<Rightarrow> (Inl AlreadyExists, s))
      | Update v \<Rightarrow> if s = Some v then (Inr bs, Some bs) else (Inl Precondition, s)
      | Overwrite \<Rightarrow> (Inr bs, Some bs))"

definition digest_store :: "(bytes option, bytes) object_store" where
  "digest_store = \<lparr>os_get = digest_get, os_put = digest_put\<rparr>"

definition bytes_json :: "bytes json" where
  "bytes_json = \<lparr>to_json = Inr, of_json = Inr, json_default = []\<rparr>"

definition digest_view :: "bytes option \<Rightarrow> (bytes \<times> bytes) option" where
  "digest_view s = map_option (\<lambda>bs. (bs, bs)) s"

lemma digest_laws:
  "identifies digest_view id" "reads_stored digest_store digest_view" "puts_on_condition digest_store digest_view"
  "json_round_trips bytes_json"
  by (auto simp: identifies_def reads_stored_def puts_on_condition_def json_round_trips_def digest_view_def digest_store_def
      digest_get_def digest_put_def bytes_json_def admits_def split: option.splits put_mode.splits if_splits)

definition note_broker :: "nat \<Rightarrow> bytes \<Rightarrow> (error + nat) \<times> bytes" where
  "note_broker k d = (Inr (length d), d @ [of_nat k])"

definition two_brokers :: "(bytes option, bytes, bytes, nat) opticon_system" where
  "two_brokers = \<lparr>oc_store = None, oc_caches = [None, None], oc_tasks = [Ready, Ready]\<rparr>"

text \<open>Run the tasks of a list, one step each.\<close>

fun schedule ::
    "nat list \<Rightarrow> (bytes option, bytes, bytes, nat) opticon_system \<Rightarrow> (bytes option, bytes, bytes, nat) opticon_system" where
  "schedule [] x = x"
| "schedule (k # ks) x =
     (let (t, c, s) = task_step digest_store bytes_json (note_broker k) (oc_tasks x ! k) (oc_caches x ! k) (oc_store x)
      in schedule ks \<lparr>oc_store = s, oc_caches = (oc_caches x)[k := c], oc_tasks = (oc_tasks x)[k := t]\<rparr>)"

lemma schedule_run:
  "list_all (\<lambda>k. k < length (oc_tasks x) \<and> k < length (oc_caches x)) ks \<Longrightarrow>
   (opticon_step digest_store bytes_json (\<lambda>k. k) note_broker)\<^sup>*\<^sup>* x (schedule ks x)"
proof (induction ks x rule: schedule.induct)
  case (2 k ks x)
  obtain t c s where step: "task_step digest_store bytes_json (note_broker k) (oc_tasks x ! k) (oc_caches x ! k) (oc_store x) = (t, c, s)"
    by (metis prod_cases3)
  let ?x = "\<lparr>oc_store = s, oc_caches = (oc_caches x)[k := c], oc_tasks = (oc_tasks x)[k := t]\<rparr>"
  have "opticon_step digest_store bytes_json (\<lambda>k. k) note_broker x ?x"
    using opticon_step.task [of k x "\<lambda>k. k" digest_store bytes_json note_broker t c s] step "2.prems" by simp
  moreover have "(opticon_step digest_store bytes_json (\<lambda>k. k) note_broker)\<^sup>*\<^sup>* ?x (schedule ks ?x)"
    using "2.IH" [OF step [symmetric] refl] "2.prems" by simp
  ultimately show ?case using step by (simp add: converse_rtranclp_into_rtranclp)
qed simp

lemma schedule_result:
  "schedule [0, 1, 0, 1, 1, 1, 1] two_brokers =
     \<lparr>oc_store = Some [0, 1], oc_caches = [Some \<lparr>dv_data = [0], dv_version = Some [0]\<rparr>, Some \<lparr>dv_data = [0, 1], dv_version = Some [0, 1]\<rparr>],
      oc_tasks = [Returned (Inr 0), Returned (Inr 1)]\<rparr>"
  by (simp add: two_brokers_def try_update_def put_step_def opticon_get_def put_mode_of_def digest_store_def digest_get_def
      digest_put_def bytes_json_def note_broker_def)

theorem with_mut_serializable_witness:
  "\<exists>ks. distinct ks \<and> [0, 1] = fold (\<lambda>k d. snd (note_broker k d)) ks ([] :: bytes) \<and>
     (\<exists>before after. ks = before @ 1 # after \<and> Inr 1 = fst (note_broker 1 (fold (\<lambda>k d. snd (note_broker k d)) before [])))"
proof -
  let ?y = "schedule [0, 1, 0, 1, 1, 1, 1] two_brokers"
  have start: "decodable bytes_json (digest_view (oc_store two_brokers))" "\<forall>c \<in> set (oc_caches two_brokers). c = None"
    "\<forall>t \<in> set (oc_tasks two_brokers). t = Ready"
    by (simp_all add: two_brokers_def decodable_def digest_view_def)
  have run: "(opticon_step digest_store bytes_json (\<lambda>k. k) note_broker)\<^sup>*\<^sup>* two_brokers ?y"
    by (rule schedule_run) (simp add: two_brokers_def)
  have y: "oc_tasks ?y ! 1 = Returned (Inr 1)" "1 < length (oc_tasks ?y)" "document bytes_json (digest_view (oc_store ?y)) = [0, 1]"
    "document bytes_json (digest_view (oc_store two_brokers)) = []"
    unfolding schedule_result by (simp_all add: document_def digest_view_def bytes_json_def two_brokers_def)
  from with_mut_serializable [OF digest_laws start run] show ?thesis unfolding y(3,4) using y(1,2) by blast
qed

section \<open>A task that nothing interrupts\<close>

text \<open>A store refuses a conditional put only when the condition does not hold, and reports as missing only what is not there.\<close>

definition decides :: "('s, 'v) object_store \<Rightarrow> ('s \<Rightarrow> (bytes \<times> 'v) option) \<Rightarrow> bool" where
  "decides os view \<longleftrightarrow>
     (\<forall>mode bs s e s'. os_put os mode bs s = (Inl e, s') \<longrightarrow> e = Precondition \<or> e = AlreadyExists \<longrightarrow> \<not> admits mode (view s)) \<and>
     (\<forall>known s s'. os_get os known s = (Inl NotFound, s') \<longrightarrow> view s = None)"

definition at_version :: "('s \<Rightarrow> (bytes \<times> 'v) option) \<Rightarrow> 's \<Rightarrow> 'v option \<Rightarrow> bool" where
  "at_version view s v \<longleftrightarrow> (case v of None \<Rightarrow> view s = None | Some v \<Rightarrow> \<exists>bs. view s = Some (bs, v))"

lemma put_current_ends:
  assumes "decides os view" and "at_version view s (dv_version dv)" and "put_step os js outcome dv c s = (t, c', s')"
  shows "(\<exists>r. t = Returned r) \<or> (\<exists>e. t = Failed e)"
proof (cases "to_json js (dv_data dv)")
  case (Inr bs)
  obtain r s1 where p: "os_put os (put_mode_of dv) bs s = (r, s1)" by fastforce
  have "admits (put_mode_of dv) (view s)"
    using assms(2) by (auto simp: at_version_def admits_def put_mode_of_def split: option.splits)
  then have "r \<noteq> Inl Precondition" "r \<noteq> Inl AlreadyExists" using assms(1) p unfolding decides_def by blast+
  then show ?thesis using assms(3) Inr p by (auto simp: put_step_def split: sum.splits os_error.splits)
qed (use assms(3) in \<open>auto simp: put_step_def\<close>)

lemma get_is_current:
  assumes "reads_stored os view" and "decides os view" and "opticon_get os js c s = (Inr (), c', s')"
  shows "at_version view s' (case c' of None \<Rightarrow> None | Some dv \<Rightarrow> dv_version dv)"
proof -
  obtain x s1 where g: "os_get os None s = (x, s1)" by fastforce
  have "view s1 = view s" "\<And>y. x = Inr y \<Longrightarrow> view s = Some y" "x = Inl NotFound \<Longrightarrow> view s = None"
    using assms(1,2) g unfolding reads_stored_def decides_def by blast+
  then show ?thesis
    using assms(3) g by (auto simp: opticon_get_def at_version_def split: sum.splits os_error.splits prod.splits)
qed

lemma try_update_version: "dv_version (snd (try_update js f c)) = (case c of None \<Rightarrow> None | Some dv \<Rightarrow> dv_version dv)"
  by (auto simp: try_update_def Let_def split: option.splits prod.splits)

lemma with_mut_ends: "(\<exists>r. t = Returned r) \<or> (\<exists>e. t = Failed e) \<Longrightarrow> with_mut (Suc n) os js f t c s \<noteq> None"
  by auto

text \<open>One conflict is enough to learn the current version: six turns of the loop end \<open>with_mut\<close>.\<close>

lemma with_mut_returns:
  assumes "reads_stored os view" and "decides os view"
  shows "with_mut 6 os js f Ready c s \<noteq> None"
proof -
  obtain outcome dv where a: "try_update js f c = (outcome, dv)" by fastforce
  obtain t c1 s1 where p: "put_step os js outcome dv c s = (t, c1, s1)" by (metis prod_cases3)
  have 1: "with_mut 6 os js f Ready c s = with_mut 4 os js f t c1 s1"
    using a p by (simp add: numeral_eq_Suc)
  consider "(\<exists>r. t = Returned r) \<or> (\<exists>e. t = Failed e)" | "t = Refreshing"
    using p by (auto simp: put_step_def split: sum.splits prod.splits os_error.splits)
  then show ?thesis
  proof cases
    case 1
    then show ?thesis using \<open>with_mut 6 os js f Ready c s = with_mut 4 os js f t c1 s1\<close> with_mut_ends [OF 1, of 3 os js f c1 s1]
      by (simp add: numeral_eq_Suc)
  next
    case 2
    obtain r c2 s2 where g: "opticon_get os js c1 s1 = (r, c2, s2)" by (metis prod_cases3)
    show ?thesis
    proof (cases r)
      case (Inl e)
      then show ?thesis using 1 2 g by (simp add: numeral_eq_Suc)
    next
      case (Inr u)
      obtain outcome' dv' where a': "try_update js f c2 = (outcome', dv')" by fastforce
      obtain t' c3 s3 where p': "put_step os js outcome' dv' c2 s2 = (t', c3, s3)" by (metis prod_cases3)
      have "at_version view s2 (dv_version dv')"
        using get_is_current [OF assms, of js c1 s1 c2 s2] g Inr try_update_version [of js f c2] a' by simp
      then have "(\<exists>r. t' = Returned r) \<or> (\<exists>e. t' = Failed e)" using put_current_ends [OF assms(2) _ p'] by blast
      then show ?thesis using 1 2 g Inr a' p' by (auto simp: numeral_eq_Suc)
    qed
  qed
qed

lemma digest_decides: "decides digest_store digest_view"
  by (auto simp: decides_def digest_view_def digest_store_def digest_get_def digest_put_def admits_def split: option.splits put_mode.splits if_splits)

end
